(* ===== verification/Flux_Prelude.thy ===== *)
theory Flux_Prelude
  imports Main "HOL-Library.Word"
begin

unbundle bit_operations_syntax

section \<open>Shared types, the kernel monad, loops\<close>

text \<open>
  The vocabulary every component uses: C's unsigned integer types as words, the
  result of running kernel code, and the loop shapes of the sources.

  Running a piece of kernel code from a state has one of three results:
  \<^item> \<open>Some (Ret a s)\<close>: it returns the value \<open>a\<close> in the state \<open>s\<close>;
  \<^item> \<open>Some (Stop h s)\<close>: it stops for good in the state \<open>s\<close>, because it reached a
    \<open>for (;;);\<close> after a failed assertion (\<open>Spin\<close>), a \<open>hlt\<close> loop (\<open>Hlt\<close>), a memory
    access that the current page tables do not map (\<open>Page_Fault\<close>), an \<open>iretq\<close> that leaves
    the kernel for an instruction pointer with a code and a stack selector (\<open>User_Mode\<close>),
    an \<open>iretq\<close> to an address that is not canonical (\<open>General_Protection\<close>), or an operation whose behaviour C leaves undefined (\<open>Undefined\<close>);
  \<^item> \<open>None\<close>: a loop of the code runs for ever without settling in one state.
\<close>

subsection \<open>Types\<close>

type_synonym u8 = "8 word"
type_synonym u16 = "16 word"
type_synonym u32 = "32 word"
type_synonym u64 = "64 word"

datatype halt = Spin | Hlt | Page_Fault u64 | General_Protection | User_Mode u64 u16 u16 | Undefined

datatype ('a, 's) outcome = Ret 'a 's | Stop halt 's

type_synonym ('a, 's) kmon = "'s \<Rightarrow> ('a, 's) outcome option"

subsection \<open>The monad\<close>

definition ret :: "'a \<Rightarrow> ('a, 's) kmon" where
  "ret a = (\<lambda>s. Some (Ret a s))"

definition stop :: "halt \<Rightarrow> ('a, 's) kmon" where
  "stop h = (\<lambda>s. Some (Stop h s))"

definition gets :: "('s \<Rightarrow> 'a) \<Rightarrow> ('a, 's) kmon" where
  "gets f = (\<lambda>s. Some (Ret (f s) s))"

definition modify :: "('s \<Rightarrow> 's) \<Rightarrow> (unit, 's) kmon" where
  "modify f = (\<lambda>s. Some (Ret () (f s)))"

definition andthen :: "('a, 's) kmon \<Rightarrow> ('a \<Rightarrow> ('b, 's) kmon) \<Rightarrow> ('b, 's) kmon" where
  "andthen m f = (\<lambda>s. case m s of
       None \<Rightarrow> None
     | Some (Ret a s') \<Rightarrow> f a s'
     | Some (Stop h s') \<Rightarrow> Some (Stop h s'))"

text \<open>A conditional without an else branch.\<close>

definition when_do :: "bool \<Rightarrow> (unit, 's) kmon \<Rightarrow> (unit, 's) kmon" where
  "when_do b m = (if b then m else ret ())"

text \<open>Following a pointer that may be NULL.\<close>

definition deref :: "'a option \<Rightarrow> ('a \<Rightarrow> ('b, 's) kmon) \<Rightarrow> ('b, 's) kmon" where
  "deref p f = (case p of None \<Rightarrow> stop Undefined | Some a \<Rightarrow> f a)"

named_theorems kmon_simps \<open>evaluation of the monad's operations on a state\<close>

lemma ret_apply [kmon_simps]: "ret a s = Some (Ret a s)"
  by (simp add: ret_def)

lemma stop_apply [kmon_simps]: "stop h s = Some (Stop h s)"
  by (simp add: stop_def)

lemma gets_apply [kmon_simps]: "gets f s = Some (Ret (f s) s)"
  by (simp add: gets_def)

lemma modify_apply [kmon_simps]: "modify f s = Some (Ret () (f s))"
  by (simp add: modify_def)

lemma andthen_apply [kmon_simps]:
  "andthen m f s = (case m s of
       None \<Rightarrow> None
     | Some (Ret a s') \<Rightarrow> f a s'
     | Some (Stop h s') \<Rightarrow> Some (Stop h s'))"
  by (simp add: andthen_def)

lemma andthen_Ret: "m s = Some (Ret a s') \<Longrightarrow> andthen m f s = f a s'"
  by (simp add: andthen_apply)

lemma andthen_Stop: "m s = Some (Stop h s') \<Longrightarrow> andthen m f s = Some (Stop h s')"
  by (simp add: andthen_apply)

lemma andthen_None: "m s = None \<Longrightarrow> andthen m f s = None"
  by (simp add: andthen_apply)

lemma when_do_True [simp]: "when_do True m = m"
  and when_do_False [simp]: "when_do False m = ret ()"
  by (simp_all add: when_do_def)

lemma deref_simps [simp]: "deref None f = stop Undefined" "deref (Some a) f = f a"
  by (simp_all add: deref_def)

lemma ret_andthen [simp]: "andthen (ret a) f = f a"
  by (rule ext) (simp add: kmon_simps)

lemma stop_andthen [simp]: "andthen (stop h) f = stop h"
  by (rule ext) (simp add: kmon_simps)

lemma gets_andthen: "andthen (gets g) f = (\<lambda>s. f (g s) s)"
  by (rule ext) (simp add: kmon_simps)

lemma modify_andthen: "andthen (modify g) f = (\<lambda>s. f () (g s))"
  by (rule ext) (simp add: kmon_simps)

lemma andthen_ret [simp]: "andthen m ret = m"
  by (rule ext) (simp add: kmon_simps split: option.splits outcome.splits)

lemma andthen_ret_unit [simp]: "andthen m (\<lambda>_. ret ()) = m"
  by (rule ext) (simp add: kmon_simps split: option.splits outcome.splits)

lemma andthen_assoc: "andthen (andthen m f) g = andthen m (\<lambda>a. andthen (f a) g)"
  by (rule ext) (simp add: kmon_simps split: option.splits outcome.splits)

lemma andthen_eq_Ret:
  "andthen m f s = Some (Ret b t) \<longleftrightarrow> (\<exists>a s'. m s = Some (Ret a s') \<and> f a s' = Some (Ret b t))"
  by (auto simp: andthen_apply split: option.splits outcome.splits)

subsection \<open>Loops\<close>

text \<open>Calling an operation \<open>n\<close> times, with the list of what it returned.\<close>

fun calls :: "nat \<Rightarrow> ('a, 's) kmon \<Rightarrow> ('a list, 's) kmon" where
  "calls 0 m = ret []"
| "calls (Suc n) m = andthen m (\<lambda>x. andthen (calls n m) (\<lambda>xs. ret (x # xs)))"

text \<open>\<open>for\<close> over the elements of an array, in order.\<close>

fun for_each :: "('x \<Rightarrow> (unit, 's) kmon) \<Rightarrow> 'x list \<Rightarrow> (unit, 's) kmon" where
  "for_each body [] = ret ()"
| "for_each body (x # xs) = andthen (body x) (\<lambda>_. for_each body xs)"

lemma for_each_append:
  "for_each body (xs @ ys) = andthen (for_each body xs) (\<lambda>_. for_each body ys)"
  by (induction xs) (simp_all add: andthen_assoc)

lemma for_each_map: "for_each body (map f xs) = for_each (\<lambda>x. body (f x)) xs"
  by (induction xs) simp_all

lemma for_each_cong: "(\<And>x. x \<in> set xs \<Longrightarrow> body x = body' x) \<Longrightarrow> for_each body xs = for_each body' xs"
  by (induction xs) simp_all

lemma for_each_concat:
  "for_each (\<lambda>x. when_do (P x) (for_each body (g x))) xs = for_each body (concat (map g (filter P xs)))"
  by (induction xs) (simp_all add: for_each_append)

lemma for_each_pure:
  "(\<And>x s. body x s = Some (Ret () (f x s))) \<Longrightarrow> for_each body xs s = Some (Ret () (fold f xs s))"
  by (induction xs arbitrary: s) (simp_all add: kmon_simps)

text \<open>A loop whose rounds compute a function, as long as a condition holds of the state.\<close>

lemma for_each_pure_on:
  assumes "\<And>x s. x \<in> set xs \<Longrightarrow> P s \<Longrightarrow> body x s = Some (Ret () (f x s)) \<and> P (f x s)" and "P s"
  shows "for_each body xs s = Some (Ret () (fold f xs s)) \<and> P (fold f xs s)"
  using assms by (induction xs arbitrary: s) (simp_all add: kmon_simps)

text \<open>A loop whose every round comes back and carries an invariant on, the number of rounds
  done so far included.\<close>

lemma for_each_inv:
  assumes "I 0 s"
    and "\<And>n s. n < length xs \<Longrightarrow> I n s \<Longrightarrow> \<exists>s'. body (xs ! n) s = Some (Ret () s') \<and> I (Suc n) s'"
  shows "\<exists>s'. for_each body xs s = Some (Ret () s') \<and> I (length xs) s'"
  using assms
proof (induction xs arbitrary: I s)
  case Nil
  then show ?case by (simp add: kmon_simps)
next
  case (Cons x xs)
  obtain s1 where s1: "body x s = Some (Ret () s1)" "I (Suc 0) s1"
    using Cons.prems(2) [of 0 s] Cons.prems(1) by auto
  have "\<exists>s'. for_each body xs s1 = Some (Ret () s') \<and> I (Suc (length xs)) s'"
    using Cons.IH [of "\<lambda>n. I (Suc n)", OF s1(2)] Cons.prems(2) [of "Suc n" for n] by simp
  with s1 show ?case by (simp add: andthen_Ret)
qed

text \<open>\<open>while (!m());\<close>, a busy wait on a condition that reading may change.\<close>

partial_function (option) poll :: "('s \<Rightarrow> (bool, 's) outcome option) \<Rightarrow> 's \<Rightarrow> (unit, 's) outcome option"
  where
  "poll m s = Option.bind (m s) (\<lambda>r. case r of
       Ret b s' \<Rightarrow> if b then Some (Ret () s') else poll m s'
     | Stop h s' \<Rightarrow> Some (Stop h s'))"

text \<open>\<open>for (uint64_t i = start; i < limit; i += stp) body(i);\<close>, with the wrap-around of
  \<open>i += stp\<close> at 64 bits.\<close>

partial_function (option) for_step ::
  "u64 \<Rightarrow> u64 \<Rightarrow> (u64 \<Rightarrow> 's \<Rightarrow> (unit, 's) outcome option) \<Rightarrow> u64 \<Rightarrow> 's \<Rightarrow> (unit, 's) outcome option"
  where
  "for_step stp limit body i s =
     (if i < limit
      then Option.bind (body i s) (\<lambda>r. case r of
          Ret _ s' \<Rightarrow> for_step stp limit body (i + stp) s'
        | Stop h s' \<Rightarrow> Some (Stop h s'))
      else Some (Ret () s))"

text \<open>A local variable that the body of a loop changes.\<close>

definition with_local :: "'l \<Rightarrow> (unit, 'l \<times> 's) kmon \<Rightarrow> ('l, 's) kmon" where
  "with_local l m = (\<lambda>s. case m (l, s) of
       None \<Rightarrow> None
     | Some (Ret _ (l', s')) \<Rightarrow> Some (Ret l' s')
     | Some (Stop h (l', s')) \<Rightarrow> Some (Stop h s'))"

definition on_state :: "('a, 's) kmon \<Rightarrow> ('a, 'l \<times> 's) kmon" where
  "on_state m = (\<lambda>(l, s). case m s of
       None \<Rightarrow> None
     | Some (Ret a s') \<Rightarrow> Some (Ret a (l, s'))
     | Some (Stop h s') \<Rightarrow> Some (Stop h (l, s')))"

definition set_local :: "('l \<Rightarrow> 'l) \<Rightarrow> (unit, 'l \<times> 's) kmon" where
  "set_local f = modify (\<lambda>(l, s). (f l, s))"

lemma on_state_apply [kmon_simps]:
  "on_state m (l, s) = (case m s of
       None \<Rightarrow> None
     | Some (Ret a s') \<Rightarrow> Some (Ret a (l, s'))
     | Some (Stop h s') \<Rightarrow> Some (Stop h (l, s')))"
  by (simp add: on_state_def)

lemma set_local_apply [kmon_simps]: "set_local f (l, s) = Some (Ret () (f l, s))"
  by (simp add: set_local_def kmon_simps)

lemma with_local_Ret: "m (l, s) = Some (Ret () (l', s')) \<Longrightarrow> with_local l m s = Some (Ret l' s')"
  by (simp add: with_local_def)

subsection \<open>Laws of the loops\<close>

lemma poll_stops:
  assumes "\<And>s. m s = Some (Ret (b s) (f s))"
    and "b ((f ^^ n) s)" and "\<forall>k<n. \<not> b ((f ^^ k) s)"
  shows "poll m s = Some (Ret () ((f ^^ Suc n) s))"
  using assms(2,3)
proof (induction n arbitrary: s)
  case 0
  then show ?case by (simp add: poll.simps [of m s] assms(1) [of s])
next
  case (Suc n)
  have sh: "(f ^^ k) (f s) = (f ^^ Suc k) s" for k
    by (simp add: funpow_swap1)
  have "b ((f ^^ n) (f s))" and "\<forall>k<n. \<not> b ((f ^^ k) (f s))"
    using Suc.prems by (auto simp only: sh)
  then have "poll m (f s) = Some (Ret () ((f ^^ Suc n) (f s)))" by (rule Suc.IH)
  moreover have "\<not> b s" using Suc.prems(2) by force
  ultimately have "poll m s = Some (Ret () ((f ^^ Suc n) (f s)))"
    by (simp add: poll.simps [of m s] assms(1) [of s] del: funpow.simps)
  then show ?case by (simp only: sh)
qed

lemma poll_diverges:
  assumes m: "\<And>s. m s = Some (Ret (b s) (f s))" and never: "\<And>n. \<not> b ((f ^^ n) s)"
  shows "poll m s = None"
proof (rule ccontr)
  assume "poll m s \<noteq> None"
  then obtain r where r: "poll m s = Some r" by blast
  have "\<forall>b f. (\<forall>s. m s = Some (Ret (b s) (f s))) \<longrightarrow> (\<exists>n. b ((f ^^ n) s))"
  proof (rule poll.raw_induct [where P = "\<lambda>m s r. \<forall>b f. (\<forall>s. m s = Some (Ret (b s) (f s))) \<longrightarrow>
        (\<exists>n. b ((f ^^ n) s))", OF _ r])
    fix p :: "('a \<Rightarrow> (bool, 'a) outcome option) \<Rightarrow> 'a \<Rightarrow> (unit, 'a) outcome option" and m s r
    assume IH: "\<And>m s r. p m s = Some r \<Longrightarrow>
        \<forall>b f. (\<forall>s. m s = Some (Ret (b s) (f s))) \<longrightarrow> (\<exists>n. b ((f ^^ n) s))"
      and eq: "Option.bind (m s) (\<lambda>r. case r of Ret b s' \<Rightarrow> if b then Some (Ret () s') else p m s'
          | Stop h s' \<Rightarrow> Some (Stop h s')) = Some r"
    show "\<forall>b f. (\<forall>s. m s = Some (Ret (b s) (f s))) \<longrightarrow> (\<exists>n. b ((f ^^ n) s))"
    proof (intro allI impI)
      fix b f assume mbf: "\<forall>s. m s = Some (Ret (b s) (f s))"
      show "\<exists>n. b ((f ^^ n) s)"
      proof (cases "b s")
        case True
        then have "b ((f ^^ 0) s)" by simp
        then show ?thesis by blast
      next
        case False
        with eq mbf have "p m (f s) = Some r" by simp
        from IH [OF this] mbf obtain n where "b ((f ^^ n) (f s))" by blast
        then have "b ((f ^^ Suc n) s)" by (simp add: funpow_swap1)
        then show ?thesis by blast
      qed
    qed
  qed
  with m never show False by blast
qed

lemma ceil_div_step: "0 < t \<Longrightarrow> 0 < n \<Longrightarrow> (n + t - 1) div t = Suc ((n - t + t - 1) div t)"
  for n t :: nat
proof -
  assume t: "0 < t" and n: "0 < n"
  show ?thesis
  proof (cases "t \<le> n")
    case True
    then have "n + t - 1 = (n - t + t - 1) + t" using n by linarith
    then have "(n + t - 1) div t = ((n - t + t - 1) + t) div t" by (rule arg_cong)
    also have "\<dots> = Suc ((n - t + t - 1) div t)" using t by (simp only: div_add_self2)
    finally show ?thesis .
  next
    case False
    then have "(n + t - 1) div t = 1" using n by (intro div_nat_eqI) simp_all
    then show ?thesis using t False by simp
  qed
qed

text \<open>The values the counter of a stepping loop takes.\<close>

definition step_range :: "u64 \<Rightarrow> u64 \<Rightarrow> u64 \<Rightarrow> u64 list" where
  "step_range stp i limit =
     map (\<lambda>k. i + stp * of_nat k) [0..<(unat limit - unat i + unat stp - 1) div unat stp]"

lemma step_range_done: "\<not> i < limit \<Longrightarrow> step_range stp i limit = []"
proof -
  assume "\<not> i < limit"
  then have "unat limit - unat i = 0" by (simp add: word_less_nat_alt)
  then show ?thesis
    by (cases "unat stp = 0") (simp_all add: step_range_def)
qed

lemma step_range_more:
  assumes "i < limit" and "0 < unat stp" and "unat limit + unat stp \<le> 2 ^ 64"
  shows "step_range stp i limit = i # step_range stp (i + stp) limit"
    and "unat (i + stp) = unat i + unat stp"
proof -
  have il: "unat i < unat limit" using assms(1) by (simp add: word_less_nat_alt)
  have "unat i + unat stp < 2 ^ 64" using il assms(3) by simp
  then show u: "unat (i + stp) = unat i + unat stp"
    by (subst unat_add_lem [THEN iffD1]) simp_all
  have "(unat limit - unat i + unat stp - 1) div unat stp =
      Suc ((unat limit - unat i - unat stp + unat stp - 1) div unat stp)"
    using il assms(2) by (intro ceil_div_step) simp_all
  then show "step_range stp i limit = i # step_range stp (i + stp) limit"
    by (simp add: step_range_def u upt_conv_Cons map_Suc_upt [symmetric] comp_def algebra_simps
        del: upt_Suc)
qed

lemma for_step_for_each:
  assumes "0 < unat stp" and "unat limit + unat stp \<le> 2 ^ 64"
  shows "for_step stp limit body i s = for_each body (step_range stp i limit) s"
proof (induction "unat limit - unat i" arbitrary: i s rule: less_induct)
  case less
  show ?case
  proof (cases "i < limit")
    case True
    note more = step_range_more [OF True assms]
    have "unat limit - unat (i + stp) < unat limit - unat i"
      using True assms(1) more(2) by (simp add: word_less_nat_alt)
    then have "for_step stp limit body (i + stp) s' = for_each body (step_range stp (i + stp) limit) s'"
      for s' by (rule less.hyps)
    then show ?thesis
      using True by (simp add: for_step.simps [of stp limit body i s] more(1) kmon_simps
          split: Option.bind_split option.splits outcome.splits)
  next
    case False
    then show ?thesis
      by (simp add: for_step.simps [of stp limit body i s] step_range_done kmon_simps)
  qed
qed

text \<open>When the limit is so large that the counter wraps around below it, the loop is
  endless.\<close>

lemma for_step_endless:
  assumes stp: "unat stp dvd 2 ^ 64" and big: "2 ^ 64 - unat stp < unat limit"
    and i: "unat stp dvd unat i" and body: "\<And>i s. \<exists>s'. body i s = Some (Ret () s')"
  shows "for_step stp limit body i s = None"
proof (rule ccontr)
  assume "for_step stp limit body i s \<noteq> None"
  then obtain r where r: "for_step stp limit body i s = Some r" by blast
  have "\<not> (unat stp dvd 2 ^ 64 \<and> 2 ^ 64 - unat stp < unat limit \<and> unat stp dvd unat i \<and>
      (\<forall>i s. \<exists>s'. body i s = Some (Ret () s')))"
  proof (rule for_step.raw_induct [where P = "\<lambda>stp limit body i s r. \<not> (unat stp dvd 2 ^ 64 \<and>
        2 ^ 64 - unat stp < unat limit \<and> unat stp dvd unat i \<and>
        (\<forall>i s. \<exists>s'. body i s = Some (Ret () s')))", OF _ r])
    fix f :: "u64 \<Rightarrow> u64 \<Rightarrow> (u64 \<Rightarrow> 'a \<Rightarrow> (unit, 'a) outcome option) \<Rightarrow> u64 \<Rightarrow> 'a
        \<Rightarrow> (unit, 'a) outcome option" and stp limit body i s r
    assume IH: "\<And>stp limit body i s r. f stp limit body i s = Some r \<Longrightarrow>
        \<not> (unat stp dvd 2 ^ 64 \<and> 2 ^ 64 - unat stp < unat limit \<and> unat stp dvd unat i \<and>
          (\<forall>i s. \<exists>s'. body i s = Some (Ret () s')))"
      and eq: "(if i < limit
          then Option.bind (body i s) (\<lambda>r. case r of Ret _ s' \<Rightarrow> f stp limit body (i + stp) s'
            | Stop h s' \<Rightarrow> Some (Stop h s')) else Some (Ret () s)) = Some r"
    show "\<not> (unat stp dvd 2 ^ 64 \<and> 2 ^ 64 - unat stp < unat limit \<and> unat stp dvd unat i \<and>
        (\<forall>i s. \<exists>s'. body i s = Some (Ret () s')))"
    proof (intro notI, elim conjE)
      assume h: "unat stp dvd 2 ^ 64" "2 ^ 64 - unat stp < unat limit" "unat stp dvd unat i"
        and b: "\<forall>i s. \<exists>s'. body i s = Some (Ret () s')"
      obtain k where k: "2 ^ 64 = unat stp * k" using h(1) by blast
      obtain j where j: "unat i = unat stp * j" using h(3) by blast
      have "unat stp * j < unat stp * k" using unsigned_less [of i, where 'a = nat] j k by simp
      then have "j < k" by simp
      then have "unat stp * Suc j \<le> unat stp * k" by (intro mult_le_mono2) simp
      then have "unat i + unat stp \<le> 2 ^ 64" using j k by simp
      then have "i < limit" using h(2) by (simp add: word_less_nat_alt)
      moreover obtain s' where "body i s = Some (Ret () s')" using b by blast
      ultimately have "f stp limit body (i + stp) s' = Some r" using eq by simp
      moreover have "unat stp dvd unat (i + stp)"
        using h(1,3) by (simp add: unat_word_ariths dvd_mod)
      ultimately show False using IH h b by blast
    qed
  qed
  with assms show False by blast
qed

subsection \<open>Bits\<close>

text \<open>Facts for packing and unpacking bit fields: a goal about equal words becomes one
  about the bit at each position.\<close>

lemmas bit_pack_simps = bit_and_iff bit_or_iff bit_push_bit_iff bit_drop_bit_eq bit_mask_iff
  bit_1_iff bit_word_ucast_iff bit_unsigned_iff comp_def

lemma mask_folds:
  "(3 :: 'a::len word) = mask 2" "(7 :: 'a::len word) = mask 3" "(0xf :: 'a::len word) = mask 4"
  "(0xff :: 'a::len word) = mask 8" "(0x1ff :: 'a::len word) = mask 9"
  "(0xfff :: 'a::len word) = mask 12" "(0xffff :: 'a::len word) = mask 16"
  "(0xffffffff :: 'a::len word) = mask 32"
  by (simp_all add: mask_numeral)

lemma bit_less: "unat w < 2 ^ k \<Longrightarrow> bit w n \<Longrightarrow> n < k" for w :: "'a::len word"
proof (rule ccontr)
  assume w: "unat w < 2 ^ k" "bit w n" "\<not> n < k"
  have "bit (unat w) n" using w(2) by (simp add: bit_unsigned_iff)
  moreover have "take_bit k (unat w) = unat w" using w(1) by (simp add: take_bit_nat_eq_self)
  ultimately show False using w(3) by (metis bit_take_bit_iff)
qed

lemma word_and_1_neq_0: "w AND 1 \<noteq> 0 \<longleftrightarrow> bit w 0" for w :: "'a::len word"
  by (simp add: and_one_eq bit_0 odd_iff_mod_2_eq_one)

lemma take_bit_less:
  fixes z :: u64
  assumes "unat z < 2 ^ n"
  shows "take_bit n z = z"
  using assms bit_less [of z n] by (intro bit_word_eqI) (auto simp: bit_take_bit_iff not_less)

text \<open>Addition respects what agrees in the low bits.\<close>

lemma take_bit_plus_cong:
  fixes a b c :: u64
  assumes n: "n \<le> 64" and eq: "take_bit n a = take_bit n b"
  shows "take_bit n (a + c) = take_bit n (b + c)"
proof -
  have u: "unat (take_bit n x) = unat x mod 2 ^ n" for x :: u64
    by (subst unsigned_take_bit_eq) (rule take_bit_nat_def)
  have "unat a mod 2 ^ n = unat b mod 2 ^ n" using eq u [of a] u [of b] by simp
  then have "(unat a + unat c) mod 2 ^ n = (unat b + unat c) mod 2 ^ n" by (rule mod_add_cong) (rule refl)
  moreover have "(2 :: nat) ^ n dvd 2 ^ 64" using n by (rule le_imp_power_dvd)
  then have "unat (x + c) mod 2 ^ n = (unat x + unat c) mod 2 ^ n" for x
    by (simp only: unat_word_ariths(1) len_num1 len_bit0) (rule mod_mod_cancel, simp)
  ultimately have "unat (take_bit n (a + c)) = unat (take_bit n (b + c))" by (simp only: u)
  then show ?thesis by (simp only: word_unat_eq_iff)
qed

end
