(* ===== verification/Byte_Memory.thy ===== *)
theory Byte_Memory
  imports Flux_Prelude
begin

section \<open>Physical memory, byte by byte\<close>

text \<open>
  Physical memory is a function from 64-bit physical addresses to bytes. A
  \<open>uint64_t\<close> (a page-table entry, a free-list link) is eight bytes, least
  significant first, as on x86-64. The locale \<open>aligned_store\<close> states the two laws
  the rest of the development needs of memory, and derives from them the facts
  about tables of 512 slots; the bytes satisfy it.
\<close>

type_synonym ram = "u64 \<Rightarrow> u8"

definition rd64 :: "ram \<Rightarrow> u64 \<Rightarrow> u64" where
  "rd64 m a =
     ucast (m a) OR push_bit 8 (ucast (m (a + 1))) OR push_bit 16 (ucast (m (a + 2)))
       OR push_bit 24 (ucast (m (a + 3))) OR push_bit 32 (ucast (m (a + 4)))
       OR push_bit 40 (ucast (m (a + 5))) OR push_bit 48 (ucast (m (a + 6)))
       OR push_bit 56 (ucast (m (a + 7)))"

definition wr64 :: "ram \<Rightarrow> u64 \<Rightarrow> u64 \<Rightarrow> ram" where
  "wr64 m a v = (\<lambda>b. if b - a < 8 then ucast (drop_bit (8 * unat (b - a)) v) else m b)"

definition aligned :: "nat \<Rightarrow> u64 \<Rightarrow> bool" where
  "aligned n a \<longleftrightarrow> n dvd unat a"

subsection \<open>Alignment\<close>

lemma aligned_weaken: "k dvd n \<Longrightarrow> aligned n a \<Longrightarrow> aligned k a"
  by (auto simp: aligned_def intro: dvd_trans)

lemma aligned_0 [simp]: "aligned n 0"
  by (simp add: aligned_def)

lemma aligned_add:
  assumes "n dvd 2 ^ 64" and "aligned n a" and "aligned n b"
  shows "aligned n (a + b)"
  using assms by (simp add: aligned_def unat_word_ariths dvd_mod)

lemma aligned_sub:
  assumes n: "n dvd 2 ^ 64" and "aligned n a" and "aligned n b"
  shows "aligned n (a - b)"
proof -
  have "unat (a - b) = (if unat b \<le> unat a then unat a - unat b else unat a + 2 ^ 64 - unat b)"
    by (simp add: unat_sub_if')
  with assms show ?thesis by (auto simp: aligned_def dvd_diff_nat)
qed

lemma aligned_eq_0: "aligned n a \<Longrightarrow> unat a < n \<Longrightarrow> a = 0"
  using dvd_imp_le [of n "unat a"] by (auto simp: aligned_def simp flip: unat_0_iff)

lemma aligned_add_unat:
  assumes n: "n dvd 2 ^ 64" "0 < n" and x: "aligned n x" and k: "unat k < n"
  shows "unat (x + k) = unat x + unat k"
proof -
  obtain j where j: "unat x = n * j" using x by (auto simp: aligned_def)
  obtain q where q: "2 ^ 64 = n * q" using n(1) by (elim dvdE)
  have "n * j < n * q" using unsigned_less [of x, where 'a = nat] j q by simp
  then have "Suc j \<le> q" by simp
  then have "n * Suc j \<le> n * q" by (rule mult_le_mono2)
  then have "unat x + n \<le> 2 ^ 64" using j q by simp
  then show ?thesis
    using k by (subst unat_add_lem [THEN iffD1]) simp_all
qed

lemma aligned_gap:
  assumes n: "n dvd 2 ^ 64" "0 < n" and x: "aligned n x" "x \<noteq> 0" and k: "unat k < n"
  shows "n \<le> unat (x + k)"
proof -
  have "0 < unat x" using x(2) by (simp add: unat_gt_0)
  with x(1) have "n \<le> unat x" unfolding aligned_def by (rule dvd_imp_le)
  then show ?thesis using aligned_add_unat [OF n x(1) k] by simp
qed

text \<open>Two addresses with the same page and the same offset are the same address.\<close>

lemma aligned_add_inj:
  assumes n: "n dvd 2 ^ 64" "0 < n" and "aligned n x" "aligned n y" "unat k < n" "unat l < n"
    and eq: "x + k = y + l"
  shows "x = y" and "k = l"
proof -
  have u: "unat x + unat k = unat y + unat l"
    using arg_cong [OF eq, of unat] aligned_add_unat [OF n assms(3,5)]
      aligned_add_unat [OF n assms(4,6)] by simp
  have "unat x mod n = 0" "unat y mod n = 0"
    using assms(3,4) by (simp_all add: aligned_def dvd_eq_mod_eq_0)
  then have "unat k = (unat x + unat k) mod n" "unat l = (unat y + unat l) mod n"
    using assms(5,6) by (simp_all add: mod_add_eq [of "unat x", symmetric]
        mod_add_eq [of "unat y", symmetric])
  then have "unat k = unat l" using u by simp
  then show "k = l" by (simp only: word_unat_eq_iff)
  with eq show "x = y" by simp
qed

subsection \<open>The two laws\<close>

lemma rd64_wr64_same: "rd64 (wr64 m a v) a = v"
proof (rule bit_word_eqI)
  fix n assume n: "n < LENGTH(64)"
  have d: "a + k - a = k" for k by simp
  consider "n < 8" | "8 \<le> n" "n < 16" | "16 \<le> n" "n < 24" | "24 \<le> n" "n < 32"
    | "32 \<le> n" "n < 40" | "40 \<le> n" "n < 48" | "48 \<le> n" "n < 56" | "56 \<le> n" "n < 64"
    using n by fastforce
  then show "bit (rd64 (wr64 m a v) a) n \<longleftrightarrow> bit v n"
    by cases (auto simp: rd64_def wr64_def bit_simps dest: bit_imp_le_length)
qed

text \<open>Writing back what is there changes nothing.\<close>

lemma wr64_rd64: "wr64 m a (rd64 m a) = m"
proof (rule ext)
  fix b
  show "wr64 m a (rd64 m a) b = m b"
  proof (cases "b - a < 8")
    case True
    then have lt: "unat (b - a) < 8" by (simp add: word_less_nat_alt)
    define k where "k = unat (b - a)"
    have b: "b = a + of_nat k" by (simp add: k_def)
    have high: "\<not> bit (x :: u8) n" if "8 \<le> n" for x n using that by (auto dest: bit_imp_le_length)
    have "k \<in> {0, 1, 2, 3, 4, 5, 6, 7}" using lt by (auto simp: k_def)
    then have "ucast (drop_bit (8 * k) (rd64 m a)) = m (a + of_nat k)"
      by (elim insertE emptyE)
        (auto intro!: bit_word_eqI simp: rd64_def bit_simps high)
    then show ?thesis using True by (simp add: wr64_def k_def)
  qed (simp add: wr64_def)
qed

lemma rd64_wr64_other:
  assumes "aligned 8 a" "aligned 8 b" "a \<noteq> b"
  shows "rd64 (wr64 m a v) b = rd64 m b"
proof -
  have al: "aligned 8 (b - a)" using assms by (intro aligned_sub) simp_all
  have ne: "b - a \<noteq> 0" using assms(3) by simp
  have far: "\<not> b + k - a < 8" if "unat k < 8" for k
  proof -
    have "8 \<le> unat (b - a + k)" by (rule aligned_gap [OF _ _ al ne that]) simp_all
    then have "8 \<le> unat (b + k - a)" by (simp only: diff_add_eq)
    then show ?thesis by (simp add: word_less_nat_alt)
  qed
  have "\<not> b - a < 8" using far [of 0] by simp
  moreover have "\<not> b + 1 - a < 8" "\<not> b + 2 - a < 8" "\<not> b + 3 - a < 8" "\<not> b + 4 - a < 8"
    "\<not> b + 5 - a < 8" "\<not> b + 6 - a < 8" "\<not> b + 7 - a < 8"
    by (rule far, simp)+
  ultimately show ?thesis by (simp add: rd64_def wr64_def)
qed

subsection \<open>Tables of 512 slots\<close>

text \<open>\<open>&(table[i])\<close> for a table of \<open>uint64_t\<close>. A page holds 512 of them.\<close>

definition slot :: "u64 \<Rightarrow> u64 \<Rightarrow> u64" where
  "slot t i = t + 8 * i"

abbreviation page_aligned :: "u64 \<Rightarrow> bool" where
  "page_aligned a \<equiv> aligned 4096 a"

lemma unat_times_8: "i < 512 \<Longrightarrow> unat (8 * i) = 8 * unat i" for i :: u64
  by (subst unat_mult_lem [THEN iffD1]) (simp_all add: word_less_nat_alt)

lemma slot_aligned [simp]: "page_aligned t \<Longrightarrow> i < 512 \<Longrightarrow> aligned 8 (slot t i)"
  unfolding slot_def
  by (rule aligned_add) (auto simp: aligned_def unat_times_8 intro: dvd_trans [of 8 4096])

lemma slot_0 [simp]: "slot t 0 = t"
  by (simp add: slot_def)

lemma slot_eq_iff:
  assumes "page_aligned t" "page_aligned t'" "i < 512" "i' < 512"
  shows "slot t i = slot t' i' \<longleftrightarrow> t = t' \<and> i = i'"
proof
  assume eq: "slot t i = slot t' i'"
  have lt: "unat (8 * i) < 4096" "unat (8 * i') < 4096"
    using assms(3,4) by (simp_all add: unat_times_8 word_less_nat_alt)
  have "t = t'" and "8 * i = 8 * i'"
    using aligned_add_inj [of 4096 t t' "8 * i" "8 * i'"] assms eq lt by (simp_all add: slot_def)
  then have "unat (8 * i) = unat (8 * i')" by (simp only:)
  then have "8 * unat i = 8 * unat i'" using assms(3,4) by (simp only: unat_times_8)
  then have "i = i'" by (simp add: word_unat_eq_iff)
  with \<open>t = t'\<close> show "t = t' \<and> i = i'" ..
qed simp

subsection \<open>The store interface\<close>

locale aligned_store =
  fixes rd :: "'m \<Rightarrow> u64 \<Rightarrow> u64" and wr :: "'m \<Rightarrow> u64 \<Rightarrow> u64 \<Rightarrow> 'm"
  assumes rd_wr_same: "rd (wr m a v) a = v"
    and rd_wr_other: "aligned 8 a \<Longrightarrow> aligned 8 b \<Longrightarrow> a \<noteq> b \<Longrightarrow> rd (wr m a v) b = rd m b"
begin

lemma rd_wr: "aligned 8 a \<Longrightarrow> aligned 8 b \<Longrightarrow> rd (wr m a v) b = (if a = b then v else rd m b)"
  by (simp add: rd_wr_same rd_wr_other)

lemma rd_wr_commute:
  assumes "aligned 8 a" "aligned 8 b" "aligned 8 c" "a \<noteq> b"
  shows "rd (wr (wr m a v) b w) c = rd (wr (wr m b w) a v) c"
  using assms by (auto simp: rd_wr)

text \<open>Filling the first \<open>n\<close> slots of a table with one value.\<close>

lemma rd_fill:
  assumes "page_aligned t" "n \<le> 512" "aligned 8 b"
  shows "rd (fold (\<lambda>i m. wr m (slot t (of_nat i)) v) [0..<n] m) b =
    (if b \<in> (\<lambda>i. slot t (of_nat i)) ` {..<n} then v else rd m b)"
  using assms(2)
proof (induction n)
  case 0
  then show ?case by simp
next
  case (Suc n)
  have "(of_nat n :: u64) < 512"
    using Suc.prems by (simp add: word_less_nat_alt unat_of_nat)
  then show ?case
    using Suc assms by (auto simp: rd_wr lessThan_Suc)
qed

text \<open>Writing into one page leaves the slots of every other page as they were.\<close>

lemma rd_other_page:
  assumes "page_aligned t" "page_aligned t'" "t \<noteq> t'" "i < 512" "j < 512"
  shows "rd (wr m (slot t i) v) (slot t' j) = rd m (slot t' j)"
  using assms by (simp add: rd_wr_other slot_eq_iff)

end

interpretation ram: aligned_store rd64 wr64
  by unfold_locales (simp_all add: rd64_wr64_same rd64_wr64_other)

end
