(* ===== verification/Structures.thy ===== *)
theory Structures
  imports Flux_Prelude
begin

section \<open>The structures of \<open>arch/x64/structures.h\<close>\<close>

text \<open>
  Bit layouts of the x86-64 tables: segment selectors, IDT attributes and entries,
  segment descriptors, the table registers' images, and the fields of a
  page-structure entry and of a virtual address. The macros that build a value
  become functions on words of the width the structure stores; the lemmas show that
  what they pack is what the accessor macros, or the processor, read back.
\<close>

subsection \<open>Segment selectors\<close>

type_synonym segment_selector_t = u16

definition INIT_SEGMENT_SELECTOR :: "u16 \<Rightarrow> u16 \<Rightarrow> u16 \<Rightarrow> segment_selector_t" where
  "INIT_SEGMENT_SELECTOR rpl table_index index =
     (rpl AND 0x03) OR push_bit 2 (table_index AND 0x01) OR push_bit 3 index"

definition SEGMENT_SELECTOR_RPL :: "segment_selector_t \<Rightarrow> u16" where
  "SEGMENT_SELECTOR_RPL selector = selector AND 0x03"

definition SEGMENT_SELECTOR_TABLE_INDEX :: "segment_selector_t \<Rightarrow> u16" where
  "SEGMENT_SELECTOR_TABLE_INDEX selector = drop_bit 2 selector AND 0x01"

definition SEGMENT_SELECTOR_INDEX :: "segment_selector_t \<Rightarrow> u16" where
  "SEGMENT_SELECTOR_INDEX selector = drop_bit 3 selector"

subsection \<open>IDT attributes and entries\<close>

type_synonym idt_attributes_t = u16

definition INIT_IDT_ATTRIBUTES :: "u16 \<Rightarrow> u16 \<Rightarrow> u16 \<Rightarrow> idt_attributes_t" where
  "INIT_IDT_ATTRIBUTES dpl type ist =
     push_bit 15 1 OR (ist AND 0x07) OR push_bit 8 (type AND 0xf) OR push_bit 13 (dpl AND 0x03)"

definition IDT_ATTRIBUTES_IST :: "idt_attributes_t \<Rightarrow> u16" where
  "IDT_ATTRIBUTES_IST attributes = attributes AND 0x07"

definition IDT_ATTRIBUTES_TYPE :: "idt_attributes_t \<Rightarrow> u16" where
  "IDT_ATTRIBUTES_TYPE attributes = drop_bit 8 attributes AND 0x0f"

definition IDT_ATTRIBUTES_DPL :: "idt_attributes_t \<Rightarrow> u16" where
  "IDT_ATTRIBUTES_DPL attributes = drop_bit 13 attributes AND 0x03"

definition IDT_ATTRIBUTES_PRESENT :: "idt_attributes_t \<Rightarrow> u16" where
  "IDT_ATTRIBUTES_PRESENT attributes = drop_bit 15 attributes AND 0x01"

definition IDT_ATTRIBUTES_TYPE_INTERRUPT :: u16 where "IDT_ATTRIBUTES_TYPE_INTERRUPT = 0xe"
definition IDT_ATTRIBUTES_TYPE_TRAP :: u16 where "IDT_ATTRIBUTES_TYPE_TRAP = 0xf"

record idt_entry =
  offset_a :: u16
  segment_selector :: segment_selector_t
  attributes :: idt_attributes_t
  offset_b :: u16
  offset_c :: u32
  reserved :: u32

text \<open>The initialiser leaves \<open>reserved\<close> out, so C sets it to 0.\<close>

definition INIT_IDT_ENTRY :: "segment_selector_t \<Rightarrow> idt_attributes_t \<Rightarrow> u64 \<Rightarrow> idt_entry" where
  "INIT_IDT_ENTRY seg attr offset64 = \<lparr>
     offset_a = ucast (offset64 AND 0xffff),
     segment_selector = seg,
     attributes = attr,
     offset_b = ucast (drop_bit 16 offset64 AND 0xffff),
     offset_c = ucast (drop_bit 32 offset64 AND 0xffffffff),
     reserved = 0\<rparr>"

definition IDT_N_ENTRIES :: nat where "IDT_N_ENTRIES = 256"

text \<open>The size of the packed \<open>struct idt_entry\<close>.\<close>

definition sizeof_idt_entry :: u64 where "sizeof_idt_entry = 16"

record idt_descriptor =
  idt_size :: u16
  idt_offset :: u64

definition INIT_IDT_DESCRIPTOR :: "u64 \<Rightarrow> u64 \<Rightarrow> idt_descriptor" where
  "INIT_IDT_DESCRIPTOR idt_offset' n_entries = \<lparr>
     idt_size = ucast (n_entries * sizeof_idt_entry - 1),
     idt_offset = idt_offset'\<rparr>"

record isr_frame =
  isr_ip :: u64
  isr_cs :: u64
  isr_flags :: u64
  isr_sp :: u64
  isr_ss :: u64

subsection \<open>Page-structure entries and virtual addresses\<close>

type_synonym register_cr3 = u64
type_synonym pml4_entry_t = u64
type_synonym pdpt_entry_t = u64
type_synonym pdt_entry_t = u64
type_synonym pt_entry_t = u64
type_synonym flux_phyaddr = u64
type_synonym flux_virtaddr = u64

definition PSE_PRESENT :: "'a::len word" where "PSE_PRESENT = push_bit 0 1"
definition PSE_WRITEABLE :: "'a::len word" where "PSE_WRITEABLE = push_bit 1 1"
definition PSE_USER_MODE :: "'a::len word" where "PSE_USER_MODE = push_bit 2 1"
definition PSE_PWT :: "'a::len word" where "PSE_PWT = push_bit 3 1"
definition PSE_PCD :: "'a::len word" where "PSE_PCD = push_bit 4 1"
definition PSE_ACCESSED :: "'a::len word" where "PSE_ACCESSED = push_bit 5 1"
definition PSE_DIRTY :: "'a::len word" where "PSE_DIRTY = push_bit 6 1"
definition PSE_PAGE_SIZE :: "'a::len word" where "PSE_PAGE_SIZE = push_bit 7 1"
definition PSE_GLOBAL :: "'a::len word" where "PSE_GLOBAL = push_bit 8 1"
definition PSE_RESTART :: "'a::len word" where "PSE_RESTART = push_bit 11 1"

definition PSE_PTR :: "u64 \<Rightarrow> u64" where
  "PSE_PTR val = val AND 0x000ffffffffff000"

definition CR3_BASE_ADDR :: "u64 \<Rightarrow> u64" where
  "CR3_BASE_ADDR cr3' = cr3' AND 0x000ffffffffff000"

definition EXTRACT_PML4_INDEX :: "u64 \<Rightarrow> u64" where
  "EXTRACT_PML4_INDEX vaddr = drop_bit 39 vaddr AND 0x1ff"

definition EXTRACT_PDPT_INDEX :: "u64 \<Rightarrow> u64" where
  "EXTRACT_PDPT_INDEX vaddr = drop_bit 30 vaddr AND 0x1ff"

definition EXTRACT_PDT_INDEX :: "u64 \<Rightarrow> u64" where
  "EXTRACT_PDT_INDEX vaddr = drop_bit 21 vaddr AND 0x1ff"

definition EXTRACT_PT_INDEX :: "u64 \<Rightarrow> u64" where
  "EXTRACT_PT_INDEX vaddr = drop_bit 12 vaddr AND 0x1ff"

definition EXTRACT_OFFSET :: "u64 \<Rightarrow> u64" where
  "EXTRACT_OFFSET vaddr = vaddr AND 0xfff"

subsection \<open>The task state segment and the GDT\<close>

record tss_long =
  tss_0 :: u32
  rsp0 :: u64
  rsp1 :: u64
  rsp2 :: u64
  tss_1 :: u64
  ist1 :: u64
  ist2 :: u64
  ist3 :: u64
  ist4 :: u64
  ist5 :: u64
  ist6 :: u64
  ist7 :: u64
  tss_2 :: u64
  tss_3 :: u16
  io_map_base_address :: u16

record gdt_descriptor_long =
  limit_0_15 :: u16
  base_0_15 :: u16
  base_16_23 :: u8
  access_byte :: u8
  limit_16_19_and_flags :: u8
  base_24_31 :: u8

record gdtr_image =
  gdtr_limit :: u16
  gdtr_base :: u64

definition INIT_SEG_DESCRIPTOR :: "u64 \<Rightarrow> u64 \<Rightarrow> u32 \<Rightarrow> u32 \<Rightarrow> gdt_descriptor_long" where
  "INIT_SEG_DESCRIPTOR base limit access flags = \<lparr>
     limit_0_15 = ucast (limit AND 0xffff),
     base_0_15 = ucast (base AND 0xffff),
     base_16_23 = ucast (drop_bit 16 base AND 0xff),
     access_byte = ucast (access AND 0xff),
     limit_16_19_and_flags =
       ucast (drop_bit 16 limit AND 0xf) OR ucast (push_bit 4 (flags AND 0xf)),
     base_24_31 = ucast (drop_bit 24 base AND 0xff)\<rparr>"

definition SEG_AB_ACCESSED :: u32 where "SEG_AB_ACCESSED = push_bit 0 1"
definition SEG_AB_RW :: u32 where "SEG_AB_RW = push_bit 1 1"
definition SEG_AB_DC :: u32 where "SEG_AB_DC = push_bit 2 1"
definition SEG_AB_EXEC :: u32 where "SEG_AB_EXEC = push_bit 3 1"
definition SEG_AB_CODE_DATA :: u32 where "SEG_AB_CODE_DATA = push_bit 4 1"
definition SEG_AB_DPL :: "u32 \<Rightarrow> u32" where "SEG_AB_DPL n = push_bit 5 (n AND 0x3)"
definition SEG_AB_PRESENT :: u32 where "SEG_AB_PRESENT = push_bit 7 1"

definition SEG_FLAG_LONG :: u32 where "SEG_FLAG_LONG = push_bit 1 1"
definition SEG_FLAG_DB :: u32 where "SEG_FLAG_DB = push_bit 2 1"
definition SEG_FLAG_4K_BLOCKS :: u32 where "SEG_FLAG_4K_BLOCKS = push_bit 3 1"

text \<open>The size of the packed \<open>struct gdt_descriptor_long\<close>.\<close>

definition sizeof_gdt_descriptor_long :: u64 where "sizeof_gdt_descriptor_long = 8"

subsection \<open>How the processor reads the packed fields\<close>

text \<open>These are the specification side: the Intel manual's reading of the layouts.\<close>

definition idt_entry_isr :: "idt_entry \<Rightarrow> u64" where
  "idt_entry_isr e = ucast (offset_a e) OR push_bit 16 (ucast (offset_b e))
     OR push_bit 32 (ucast (offset_c e))"

definition seg_base :: "gdt_descriptor_long \<Rightarrow> u64" where
  "seg_base d = ucast (base_0_15 d) OR push_bit 16 (ucast (base_16_23 d))
     OR push_bit 24 (ucast (base_24_31 d))"

definition seg_limit :: "gdt_descriptor_long \<Rightarrow> u64" where
  "seg_limit d = ucast (limit_0_15 d) OR push_bit 16 (ucast (limit_16_19_and_flags d AND 0x0f))"

definition seg_flags :: "gdt_descriptor_long \<Rightarrow> u8" where
  "seg_flags d = drop_bit 4 (limit_16_19_and_flags d)"

lemmas idt_attribute_defs = INIT_IDT_ATTRIBUTES_def IDT_ATTRIBUTES_IST_def IDT_ATTRIBUTES_TYPE_def
  IDT_ATTRIBUTES_DPL_def IDT_ATTRIBUTES_PRESENT_def

lemmas selector_defs = INIT_SEGMENT_SELECTOR_def SEGMENT_SELECTOR_RPL_def
  SEGMENT_SELECTOR_TABLE_INDEX_def SEGMENT_SELECTOR_INDEX_def

lemma selector_rpl: "SEGMENT_SELECTOR_RPL (INIT_SEGMENT_SELECTOR rpl ti index) = rpl AND 3"
  unfolding selector_defs
  by (auto intro!: bit_word_eqI simp: bit_pack_simps mask_folds)

lemma selector_table_index:
  "SEGMENT_SELECTOR_TABLE_INDEX (INIT_SEGMENT_SELECTOR rpl ti index) = ti AND 1"
  unfolding selector_defs
  by (auto intro!: bit_word_eqI simp: bit_pack_simps mask_folds)

lemma selector_index:
  "index < 0x2000 \<Longrightarrow> SEGMENT_SELECTOR_INDEX (INIT_SEGMENT_SELECTOR rpl ti index) = index"
  unfolding selector_defs
  by (auto intro!: bit_word_eqI simp: bit_pack_simps mask_folds word_less_nat_alt
      dest: bit_less [where k = 13, simplified])

lemma attributes_dpl: "IDT_ATTRIBUTES_DPL (INIT_IDT_ATTRIBUTES dpl type ist) = dpl AND 3"
  unfolding idt_attribute_defs by (rule bit_word_eqI) (simp only: bit_pack_simps mask_folds, auto)

lemma attributes_type: "IDT_ATTRIBUTES_TYPE (INIT_IDT_ATTRIBUTES dpl type ist) = type AND 0xf"
  unfolding idt_attribute_defs by (rule bit_word_eqI) (simp only: bit_pack_simps mask_folds, auto)

lemma attributes_ist: "IDT_ATTRIBUTES_IST (INIT_IDT_ATTRIBUTES dpl type ist) = ist AND 7"
  unfolding idt_attribute_defs by (rule bit_word_eqI) (simp only: bit_pack_simps mask_folds, auto)

lemma attributes_present: "IDT_ATTRIBUTES_PRESENT (INIT_IDT_ATTRIBUTES dpl type ist) = 1"
  unfolding idt_attribute_defs by (rule bit_word_eqI) (simp only: bit_pack_simps mask_folds, auto)

text \<open>C39: the IDT attribute macros are inverse to each other: whatever privilege level,
  gate type and IST index are packed, the accessor macros read back their low 2, 4 and
  3 bits, and the entry is always marked present.\<close>

theorem idt_attributes_roundtrip:
  "IDT_ATTRIBUTES_DPL (INIT_IDT_ATTRIBUTES dpl type ist) = dpl AND 3 \<and>
   IDT_ATTRIBUTES_TYPE (INIT_IDT_ATTRIBUTES dpl type ist) = type AND 0xf \<and>
   IDT_ATTRIBUTES_IST (INIT_IDT_ATTRIBUTES dpl type ist) = ist AND 7 \<and>
   IDT_ATTRIBUTES_PRESENT (INIT_IDT_ATTRIBUTES dpl type ist) = 1"
  by (simp add: attributes_dpl attributes_type attributes_ist attributes_present)

lemma idt_entry_isr_INIT: "idt_entry_isr (INIT_IDT_ENTRY seg attr a) = a"
proof (rule bit_word_eqI)
  fix n assume "n < LENGTH(64)"
  then consider "n < 16" | "16 \<le> n" "n < 32" | "32 \<le> n" "n < 64" by fastforce
  then show "bit (idt_entry_isr (INIT_IDT_ENTRY seg attr a)) n \<longleftrightarrow> bit a n"
    by cases (auto simp: idt_entry_isr_def INIT_IDT_ENTRY_def bit_pack_simps mask_folds)
qed

lemma seg_base_INIT:
  assumes "b < 0x100000000"
  shows "seg_base (INIT_SEG_DESCRIPTOR b l access flags) = b"
proof (rule bit_word_eqI)
  fix n assume "n < LENGTH(64)"
  then consider "n < 16" | "16 \<le> n" "n < 24" | "24 \<le> n" "n < 32" | "32 \<le> n" "n < 64" by fastforce
  then show "bit (seg_base (INIT_SEG_DESCRIPTOR b l access flags)) n \<longleftrightarrow> bit b n"
    using assms
    by cases (auto simp: seg_base_def INIT_SEG_DESCRIPTOR_def bit_pack_simps mask_folds
        word_less_nat_alt dest: bit_less [where k = 32, simplified])
qed

lemma seg_limit_INIT:
  assumes "l < 0x100000"
  shows "seg_limit (INIT_SEG_DESCRIPTOR b l access flags) = l"
proof (rule bit_word_eqI)
  fix n assume "n < LENGTH(64)"
  then consider "n < 16" | "16 \<le> n" "n < 20" | "20 \<le> n" "n < 64" by fastforce
  then show "bit (seg_limit (INIT_SEG_DESCRIPTOR b l access flags)) n \<longleftrightarrow> bit l n"
    using assms
    by cases (auto simp: seg_limit_def INIT_SEG_DESCRIPTOR_def bit_pack_simps mask_folds
        word_less_nat_alt dest: bit_less [where k = 20, simplified])
qed

lemma seg_flags_INIT: "seg_flags (INIT_SEG_DESCRIPTOR b l access flags) = ucast flags AND 0xf"
  and access_byte_INIT: "access_byte (INIT_SEG_DESCRIPTOR b l access flags) = ucast access"
  unfolding seg_flags_def INIT_SEG_DESCRIPTOR_def
  by (auto intro!: bit_word_eqI simp: bit_pack_simps mask_folds)

text \<open>C40: a segment descriptor splits its base over three fields and its limit over
  two; read back the way the processor does, a 32-bit base, a 20-bit limit, the access
  byte and the flags nibble come back unchanged.\<close>

theorem seg_descriptor_roundtrip:
  assumes "b < 0x100000000" and "l < 0x100000"
  shows "seg_base (INIT_SEG_DESCRIPTOR b l access flags) = b \<and>
    seg_limit (INIT_SEG_DESCRIPTOR b l access flags) = l \<and>
    access_byte (INIT_SEG_DESCRIPTOR b l access flags) = ucast access \<and>
    seg_flags (INIT_SEG_DESCRIPTOR b l access flags) = ucast flags AND 0xf"
  using assms by (simp add: seg_base_INIT seg_limit_INIT seg_flags_INIT access_byte_INIT)

theorem seg_descriptor_roundtrip_witness:
  "seg_base (INIT_SEG_DESCRIPTOR 0x12345678 0xfffff 0x9a 0xa) = 0x12345678 \<and>
   seg_limit (INIT_SEG_DESCRIPTOR 0x12345678 0xfffff 0x9a 0xa) = 0xfffff"
  using seg_descriptor_roundtrip [of "0x12345678" "0xfffff" "0x9a" "0xa"] by simp

end
