(* ===== verification/Machine.thy ===== *)
theory Machine
  imports Byte_Memory Structures
begin

section \<open>The machine the kernel runs on\<close>

text \<open>
  The hardware and the boot loader, as far as the sources rely on them.

  \<^item> The devices behind the I/O ports are not part of the sources. What a port read
    returns is a parameter \<open>port_value\<close>: any function of the port and of everything
    done to the ports before. \<open>inb\<close> and \<open>outb\<close> record each access in \<open>io_trace\<close>,
    oldest first.
  \<^item> Memory accesses go through the page tables that are loaded. Until the kernel
    writes CR3 these are the boot loader's (\<open>aspace = None\<close>): the parameter
    \<open>boot_map\<close>, which the Limine protocol documents to map the first 4 GiB to
    themselves. Afterwards (\<open>aspace = Some root\<close>) the processor walks the tables
    rooted at \<open>root\<close>. An address that is not mapped is a page fault. A misaligned
    access to a \<open>uint64_t\<close> is undefined in C.
  \<^item> The answers of the boot loader (memory map, kernel address, higher half offset,
    modules) and the addresses the linker chooses are fields of \<open>env\<close>. A response
    pointer that the boot loader left NULL is \<open>None\<close>.
  \<^item> The sources declare a task state segment (\<open>tss_table\<close>) and never load it. What the
    task register holds is what the boot loader left there; \<open>ring0_stack\<close> is the stack
    it offers for privilege level 0, if there is one.
\<close>

subsection \<open>The boot loader's responses (\<open>limine.h\<close>)\<close>

record limine_memmap_entry =
  memmap_base :: u64
  memmap_length :: u64
  memmap_type :: u64

definition LIMINE_MEMMAP_USABLE :: u64 where "LIMINE_MEMMAP_USABLE = 0"
definition LIMINE_MEMMAP_RESERVED :: u64 where "LIMINE_MEMMAP_RESERVED = 1"
definition LIMINE_MEMMAP_ACPI_RECLAIMABLE :: u64 where "LIMINE_MEMMAP_ACPI_RECLAIMABLE = 2"
definition LIMINE_MEMMAP_ACPI_NVS :: u64 where "LIMINE_MEMMAP_ACPI_NVS = 3"
definition LIMINE_MEMMAP_BAD_MEMORY :: u64 where "LIMINE_MEMMAP_BAD_MEMORY = 4"
definition LIMINE_MEMMAP_BOOTLOADER_RECLAIMABLE :: u64 where
  "LIMINE_MEMMAP_BOOTLOADER_RECLAIMABLE = 5"
definition LIMINE_MEMMAP_KERNEL_AND_MODULES :: u64 where "LIMINE_MEMMAP_KERNEL_AND_MODULES = 6"
definition LIMINE_MEMMAP_FRAMEBUFFER :: u64 where "LIMINE_MEMMAP_FRAMEBUFFER = 7"

text \<open>The array \<open>entries\<close> of \<open>entry_count\<close> pointers is a list.\<close>

record limine_memmap_response =
  memmap_revision :: u64
  memmap_entries :: "limine_memmap_entry list"

record limine_hhdm_response =
  hhdm_revision :: u64
  hhdm_offset :: u64

record limine_kernel_address_response =
  kernel_address_revision :: u64
  physical_base :: u64
  virtual_base :: u64

text \<open>A file that the boot loader has loaded, with what it says of where it found it.\<close>

record limine_uuid =
  uuid_a :: u32
  uuid_b :: u16
  uuid_c :: u16
  uuid_d :: "u8 list"

record limine_file =
  file_revision :: u64
  file_address :: u64
  file_size :: u64
  file_path :: string
  file_cmdline :: string
  file_media_type :: u32
  file_unused :: u32
  tftp_ip :: u32
  tftp_port :: u32
  partition_index :: u32
  mbr_disk_id :: u32
  gpt_disk_uuid :: limine_uuid
  gpt_part_uuid :: limine_uuid
  part_uuid :: limine_uuid

definition LIMINE_MEDIA_TYPE_GENERIC :: u32 where "LIMINE_MEDIA_TYPE_GENERIC = 0"
definition LIMINE_MEDIA_TYPE_OPTICAL :: u32 where "LIMINE_MEDIA_TYPE_OPTICAL = 1"
definition LIMINE_MEDIA_TYPE_TFTP :: u32 where "LIMINE_MEDIA_TYPE_TFTP = 2"

record limine_module_response =
  module_revision :: u64
  module_files :: "limine_file list"

subsection \<open>I/O ports\<close>

datatype io_event = In u16 u8 | Out u16 u8

type_synonym device = "io_event list \<Rightarrow> u16 \<Rightarrow> u8"

subsection \<open>What is fixed during a run\<close>

text \<open>The interrupt service routines of \<open>idt.h\<close>, named by their handlers.\<close>

datatype isr = isr_DE | isr_NMI | isr_BP | isr_OF | isr_BR | isr_UD | isr_DF | isr_TS | isr_NP
  | isr_SS | isr_GP | isr_PF | isr_SYSCALL

record env =
  port_value :: device
  boot_cr3 :: u64
  boot_map :: "u64 \<Rightarrow> u64 option"
  memmap_response :: "limine_memmap_response option"
  hhdm_response :: "limine_hhdm_response option"
  kernel_address_response :: "limine_kernel_address_response option"
  module_response :: "limine_module_response option"
  isr_address :: "isr \<Rightarrow> u64"
  idt_table_address :: u64
  gdt_table_address :: u64
  task_pml4_address :: u64
  ring0_stack :: "u64 option"

text \<open>\<open>__FLUX_BASE_VIRT\<close>, which the linker script sets.\<close>

definition FLUX_BASE_VIRT :: u64 where "FLUX_BASE_VIRT = 0xffffffff80000000"

subsection \<open>State\<close>

record machine =
  io_trace :: "io_event list"
  ram :: ram
  aspace :: "u64 option"

subsection \<open>The I/O instructions (\<open>io.h\<close>)\<close>

definition inb :: "env \<Rightarrow> u16 \<Rightarrow> (u8, 'z machine_scheme) kmon" where
  "inb E port = (\<lambda>s. let v = port_value E (io_trace s) port in
     Some (Ret v (s\<lparr>io_trace := io_trace s @ [In port v]\<rparr>)))"

definition outb :: "u16 \<Rightarrow> u8 \<Rightarrow> (unit, 'z machine_scheme) kmon" where
  "outb port val = modify (\<lambda>s. s\<lparr>io_trace := io_trace s @ [Out port val]\<rparr>)"

subsection \<open>Address translation\<close>

text \<open>
  Following the pointers in the tables, over the \<open>uint64_t\<close> view \<open>w\<close> of memory, as the
  kernel's code does: an entry leads on when its present bit is set.
\<close>

fun walk :: "(u64 \<Rightarrow> u64) \<Rightarrow> u64 \<Rightarrow> u64 list \<Rightarrow> u64 option" where
  "walk w t [] = Some t"
| "walk w t (i # is) =
     (let e = w (slot t i) in
      if e AND PSE_PRESENT \<noteq> 0 then walk w (PSE_PTR e) is else None)"

definition page_path :: "u64 \<Rightarrow> u64 list" where
  "page_path va = [EXTRACT_PML4_INDEX va, EXTRACT_PDPT_INDEX va, EXTRACT_PDT_INDEX va,
     EXTRACT_PT_INDEX va]"

text \<open>Bits 48 to 63 of a usable virtual address repeat bit 47.\<close>

definition canonical :: "u64 \<Rightarrow> bool" where
  "canonical va \<longleftrightarrow> drop_bit 47 va = 0 \<or> drop_bit 47 va = 0x1ffff"

text \<open>
  The processor's walk also looks at bit 7 of the entries above the last level: an entry of a
  page-directory-pointer table or a page directory with this bit maps a page of 1 GiB or
  2 MiB, in a PML4 table the bit is reserved. The result is the page, the number of bits of an
  offset in it, and the rights that all entries on the way have in common.
\<close>

fun page_walk :: "(u64 \<Rightarrow> u64) \<Rightarrow> u64 \<Rightarrow> u64 list \<Rightarrow> (u64 \<times> nat \<times> u64) option" where
  "page_walk w t [] = Some (t, 12, - 1)"
| "page_walk w t (i # is) =
     (let e = w (slot t i); k = 12 + 9 * length is in
      if e AND PSE_PRESENT = 0 then None
      else if is \<noteq> [] \<and> e AND PSE_PAGE_SIZE \<noteq> 0
      then (if length is \<le> 2 then Some (PSE_PTR e AND NOT (mask k), k, e) else None)
      else map_option (\<lambda>(a, k, r). (a, k, e AND r)) (page_walk w (PSE_PTR e) is))"

definition page_at :: "ram \<Rightarrow> u64 \<Rightarrow> u64 \<Rightarrow> (u64 \<times> nat \<times> u64) option" where
  "page_at m root va = page_walk (rd64 m) (CR3_BASE_ADDR root) (page_path va)"

definition translate :: "ram \<Rightarrow> u64 \<Rightarrow> u64 \<Rightarrow> u64 option" where
  "translate m root va =
     (if canonical va then map_option (\<lambda>(a, k, r). a + (va AND mask k)) (page_at m root va) else None)"

text \<open>User mode reads a page when the user bit is set in all entries on the way to it, and writes
  to it when the writeable bit is set in all of them as well.\<close>

definition rights :: "ram \<Rightarrow> u64 \<Rightarrow> u64 \<Rightarrow> u64" where
  "rights m root va = (case page_at m root va of None \<Rightarrow> 0 | Some (a, k, r) \<Rightarrow> r)"

definition user_reads :: "ram \<Rightarrow> u64 \<Rightarrow> u64 \<Rightarrow> bool" where
  "user_reads m root va \<longleftrightarrow> translate m root va \<noteq> None \<and> rights m root va AND PSE_USER_MODE \<noteq> 0"

definition user_writes :: "ram \<Rightarrow> u64 \<Rightarrow> u64 \<Rightarrow> bool" where
  "user_writes m root va \<longleftrightarrow> user_reads m root va \<and> rights m root va AND PSE_WRITEABLE \<noteq> 0"

lemma translate_canonical: "translate m root va \<noteq> None \<Longrightarrow> canonical va"
  by (simp add: translate_def split: if_splits)

definition phys_addr :: "env \<Rightarrow> 'z machine_scheme \<Rightarrow> u64 \<Rightarrow> u64 option" where
  "phys_addr E s va = (case aspace s of
       None \<Rightarrow> boot_map E va
     | Some root \<Rightarrow> translate (ram s) root va)"

subsection \<open>Reading and writing through pointers\<close>

definition load64 :: "env \<Rightarrow> u64 \<Rightarrow> (u64, 'z machine_scheme) kmon" where
  "load64 E p = (\<lambda>s.
     if \<not> aligned 8 p then Some (Stop Undefined s)
     else case phys_addr E s p of
       None \<Rightarrow> Some (Stop (Page_Fault p) s)
     | Some a \<Rightarrow> Some (Ret (rd64 (ram s) a) s))"

definition store64 :: "env \<Rightarrow> u64 \<Rightarrow> u64 \<Rightarrow> (unit, 'z machine_scheme) kmon" where
  "store64 E p v = (\<lambda>s.
     if \<not> aligned 8 p then Some (Stop Undefined s)
     else case phys_addr E s p of
       None \<Rightarrow> Some (Stop (Page_Fault p) s)
     | Some a \<Rightarrow> Some (Ret () (s\<lparr>ram := wr64 (ram s) a v\<rparr>)))"

definition store8 :: "env \<Rightarrow> u64 \<Rightarrow> u8 \<Rightarrow> (unit, 'z machine_scheme) kmon" where
  "store8 E p v = (\<lambda>s. case phys_addr E s p of
       None \<Rightarrow> Some (Stop (Page_Fault p) s)
     | Some a \<Rightarrow> Some (Ret () (s\<lparr>ram := (ram s)(a := v)\<rparr>)))"

subsection \<open>Facts about entries and indices\<close>

lemma bit_ptr_mask: "bit (0x000ffffffffff000 :: u64) n \<longleftrightarrow> 12 \<le> n \<and> n < 52"
proof -
  have "(0x000ffffffffff000 :: u64) = push_bit 12 (mask 40)" by (simp add: mask_numeral)
  then show ?thesis by (auto simp only: bit_push_bit_iff bit_mask_iff) auto
qed

lemma bit_PSE_PTR: "bit (PSE_PTR x) n \<longleftrightarrow> bit x n \<and> 12 \<le> n \<and> n < 52"
  by (simp only: PSE_PTR_def bit_and_iff bit_ptr_mask)

lemma page_aligned_bits: "page_aligned a \<longleftrightarrow> (\<forall>n<12. \<not> bit a n)"
proof -
  have "page_aligned a \<longleftrightarrow> take_bit 12 a = 0"
    by (simp add: aligned_def dvd_eq_mod_eq_0 take_bit_eq_mod word_unat_eq_iff unat_mod)
  also have "\<dots> \<longleftrightarrow> (\<forall>n<12. \<not> bit a n)"
    by (auto simp: bit_eq_iff bit_take_bit_iff)
  finally show ?thesis .
qed

lemma PSE_PTR_aligned [simp]: "page_aligned (PSE_PTR x)"
  by (simp add: page_aligned_bits bit_PSE_PTR)

text \<open>A frame address that a page-structure entry can hold.\<close>

definition frame_addr :: "u64 \<Rightarrow> bool" where
  "frame_addr a \<longleftrightarrow> page_aligned a \<and> unat a < 2 ^ 52"

lemma frame_addr_aligned [simp]: "frame_addr a \<Longrightarrow> page_aligned a"
  by (simp add: frame_addr_def)

text \<open>Entry flags that stay below the address bits and do not make a large page.\<close>

definition entry_flags :: "u32 \<Rightarrow> bool" where
  "entry_flags f \<longleftrightarrow> unat f < 2 ^ 12 \<and> \<not> bit f 7"

lemma PSE_PTR_frame: "frame_addr a \<Longrightarrow> PSE_PTR a = a"
  using bit_less [of a 52]
  by (intro bit_word_eqI) (auto simp: bit_PSE_PTR frame_addr_def page_aligned_bits not_less)

lemma PSE_PTR_idem [simp]: "PSE_PTR (PSE_PTR x) = PSE_PTR x"
  by (rule bit_word_eqI) (auto simp: bit_PSE_PTR)

lemma frame_addr_PSE_PTR [simp]: "frame_addr (PSE_PTR x)"
proof -
  have "take_bit 52 (PSE_PTR x) = PSE_PTR x"
    by (rule bit_word_eqI) (auto simp: bit_take_bit_iff bit_PSE_PTR)
  then have "unat (PSE_PTR x) = unat (PSE_PTR x) mod 2 ^ 52"
    by (metis take_bit_eq_mod unsigned_take_bit_eq)
  then have "unat (PSE_PTR x) < 2 ^ 52"
    by (metis mod_less_divisor zero_less_numeral zero_less_power)
  then show ?thesis by (simp add: frame_addr_def)
qed

lemma PSE_PTR_low: "page_aligned w \<Longrightarrow> PSE_PTR w = take_bit 52 w"
  by (rule bit_word_eqI) (auto simp: bit_take_bit_iff bit_PSE_PTR page_aligned_bits intro: leI)

lemma PSE_PTR_entry:
  assumes "entry_flags f"
  shows "PSE_PTR (PSE_PTR p OR PSE_PRESENT OR ucast f) = PSE_PTR p"
proof (rule bit_word_eqI)
  fix n
  have "\<not> bit f n" if "12 \<le> n"
    using that bit_less [of f 12 n] assms by (auto simp: entry_flags_def)
  then show "bit (PSE_PTR (PSE_PTR p OR PSE_PRESENT OR ucast f)) n \<longleftrightarrow> bit (PSE_PTR p) n"
    by (auto simp: bit_PSE_PTR bit_or_iff bit_word_ucast_iff PSE_PRESENT_def bit_1_iff)
qed

lemma entry_present: "(PSE_PTR p OR PSE_PRESENT OR f) AND PSE_PRESENT \<noteq> 0"
  by (simp add: PSE_PRESENT_def word_and_1_neq_0 bit_or_iff bit_1_iff)

lemma zero_not_present [simp]: "0 AND PSE_PRESENT = (0 :: u64)"
  by simp

lemma page_aligned_not_present: "page_aligned a \<Longrightarrow> a AND PSE_PRESENT = 0"
  using word_and_1_neq_0 [of a] by (auto simp: PSE_PRESENT_def page_aligned_bits)

lemma extract_index_less:
  "EXTRACT_PML4_INDEX va < 512" "EXTRACT_PDPT_INDEX va < 512"
  "EXTRACT_PDT_INDEX va < 512" "EXTRACT_PT_INDEX va < 512"
proof -
  have "x AND 0x1ff < 512" for x :: u64
  proof -
    have "x AND 0x1ff \<le> 0x1ff" by (rule word_and_le1)
    then show ?thesis by (rule order_le_less_trans) simp
  qed
  then show "EXTRACT_PML4_INDEX va < 512" "EXTRACT_PDPT_INDEX va < 512"
    "EXTRACT_PDT_INDEX va < 512" "EXTRACT_PT_INDEX va < 512"
    by (simp_all add: EXTRACT_PML4_INDEX_def EXTRACT_PDPT_INDEX_def EXTRACT_PDT_INDEX_def
        EXTRACT_PT_INDEX_def)
qed

lemma page_path_less: "\<forall>i \<in> set (page_path va). i < 512"
  by (simp add: page_path_def extract_index_less)

lemma length_page_path [simp]: "length (page_path va) = 4"
  by (simp add: page_path_def)

text \<open>The path of an address is its bits 12 to 47: addresses with the same path are in
  the same page, up to the sign bits.\<close>

lemma page_path_eq_iff:
  "page_path a = page_path b \<longleftrightarrow> (\<forall>n. 12 \<le> n \<and> n < 48 \<longrightarrow> bit a n = bit b n)"
proof
  assume eq: "page_path a = page_path b"
  show "\<forall>n. 12 \<le> n \<and> n < 48 \<longrightarrow> bit a n = bit b n"
  proof (intro allI impI)
    fix n :: nat assume n: "12 \<le> n \<and> n < 48"
    have idx: "bit (drop_bit k x AND (0x1ff :: u64)) (n - k) \<longleftrightarrow> bit x n"
      if "k \<le> n" "n < k + 9" for k x
      using that by (auto simp: mask_folds bit_and_iff bit_drop_bit_eq bit_mask_iff)
    have same: "bit a n = bit b n"
      if "k \<le> n" "n < k + 9" "drop_bit k a AND 0x1ff = drop_bit k b AND 0x1ff" for k
      using idx [OF that(1,2), of a] idx [OF that(1,2), of b] that(3) by (simp only:)
    have e: "drop_bit 39 a AND 0x1ff = drop_bit 39 b AND 0x1ff"
      "drop_bit 30 a AND 0x1ff = drop_bit 30 b AND 0x1ff"
      "drop_bit 21 a AND 0x1ff = drop_bit 21 b AND 0x1ff"
      "drop_bit 12 a AND 0x1ff = drop_bit 12 b AND 0x1ff"
      using eq by (simp_all only: page_path_def EXTRACT_PML4_INDEX_def EXTRACT_PDPT_INDEX_def
          EXTRACT_PDT_INDEX_def EXTRACT_PT_INDEX_def list.inject)
    consider "39 \<le> n" "n < 48" | "30 \<le> n" "n < 39" | "21 \<le> n" "n < 30" | "12 \<le> n" "n < 21"
      using n by fastforce
    then show "bit a n = bit b n"
      by cases (rule same [OF _ _ e(1)] same [OF _ _ e(2)] same [OF _ _ e(3)] same [OF _ _ e(4)];
        simp; fail)+
  qed
next
  assume eq: "\<forall>n. 12 \<le> n \<and> n < 48 \<longrightarrow> bit a n = bit b n"
  have "drop_bit k a AND 0x1ff = drop_bit k b AND (0x1ff :: u64)" if "12 \<le> k" "k \<le> 39" for k
    using that eq
    by (intro bit_word_eqI) (auto simp: mask_folds bit_and_iff bit_drop_bit_eq bit_mask_iff)
  then show "page_path a = page_path b"
    by (simp add: page_path_def EXTRACT_PML4_INDEX_def EXTRACT_PDPT_INDEX_def
        EXTRACT_PDT_INDEX_def EXTRACT_PT_INDEX_def)
qed

lemma walk_append:
  "walk w t (p @ q) = (case walk w t p of None \<Rightarrow> None | Some t' \<Rightarrow> walk w t' q)"
  by (induction p arbitrary: t) (simp_all add: Let_def)

lemma walk_aligned: "page_aligned t \<Longrightarrow> walk w t p = Some t' \<Longrightarrow> page_aligned t'"
proof (induction p arbitrary: t)
  case (Cons i p)
  then show ?case by (auto simp: Let_def split: if_splits intro: Cons.IH [OF PSE_PTR_aligned])
qed simp

end
