(* ===== verification/Serial.thy ===== *)
theory Serial
  imports Machine
begin

section \<open>The serial driver (\<open>arch/x64/serial.h\<close>, \<open>arch/x64/serial.c\<close>)\<close>

text \<open>
  The eight COM ports and the operations on one port: programming it
  (\<open>com_port_setup\<close>), sending and receiving. \<open>serial_init\<close>, which prints, comes
  after \<open>printk\<close> in \<open>Serial_Console\<close>. A \<open>struct com_port *\<close> is an index into
  \<open>com_ports\<close>, since that array holds every port the kernel has.
\<close>

definition COM_PORT_STATUS_READY :: u8 where "COM_PORT_STATUS_READY = 0"
definition COM_PORT_STATUS_BROKEN :: u8 where "COM_PORT_STATUS_BROKEN = 1"
definition COM_PORT_STATUS_BUSY :: u8 where "COM_PORT_STATUS_BUSY = 2"

definition COM_PORT_OFFSET_INT_ID :: u16 where "COM_PORT_OFFSET_INT_ID = 2"
definition COM_PORT_OFFSET_LINE_CTRL :: u16 where "COM_PORT_OFFSET_LINE_CTRL = 3"
definition COM_PORT_OFFSET_MODEM_CTRL :: u16 where "COM_PORT_OFFSET_MODEM_CTRL = 4"
definition COM_PORT_OFFSET_LINE_STAT :: u16 where "COM_PORT_OFFSET_LINE_STAT = 5"
definition COM_PORT_OFFSET_DATA :: u16 where "COM_PORT_OFFSET_DATA = 0"
definition COM_PORT_OFFSET_INT_ENABLE :: u16 where "COM_PORT_OFFSET_INT_ENABLE = 1"
definition COM_PORT_OFFSET_BAUD_DIVISOR_LOW :: u16 where "COM_PORT_OFFSET_BAUD_DIVISOR_LOW = 0"
definition COM_PORT_OFFSET_BAUD_DIVISOR_HIGH :: u16 where "COM_PORT_OFFSET_BAUD_DIVISOR_HIGH = 1"

lemmas com_port_offsets = COM_PORT_OFFSET_INT_ID_def COM_PORT_OFFSET_LINE_CTRL_def
  COM_PORT_OFFSET_MODEM_CTRL_def COM_PORT_OFFSET_LINE_STAT_def COM_PORT_OFFSET_DATA_def
  COM_PORT_OFFSET_INT_ENABLE_def COM_PORT_OFFSET_BAUD_DIVISOR_LOW_def
  COM_PORT_OFFSET_BAUD_DIVISOR_HIGH_def

lemmas com_port_statuses = COM_PORT_STATUS_READY_def COM_PORT_STATUS_BROKEN_def
  COM_PORT_STATUS_BUSY_def

definition LINE_STAT_DR :: u8 where "LINE_STAT_DR = 0x01"
definition LINE_STAT_THRE :: u8 where "LINE_STAT_THRE = 0x20"

definition STOP_BITS_1 :: u8 where "STOP_BITS_1 = 0"
definition STOP_BITS_2 :: u8 where "STOP_BITS_2 = 1"

definition PARITY_NONE :: u8 where "PARITY_NONE = 0x0"
definition PARITY_ODD :: u8 where "PARITY_ODD = 0x1"
definition PARITY_EVEN :: u8 where "PARITY_EVEN = 0x3"
definition PARITY_MARK :: u8 where "PARITY_MARK = 0x5"

definition SET_LINE_CTRL :: "u8 \<Rightarrow> u8 \<Rightarrow> u8 \<Rightarrow> u8" where
  "SET_LINE_CTRL char_len stop' parity' =
     ((char_len - 5) AND 0x3) OR push_bit 2 stop' OR push_bit 3 parity'"

definition COM_PORT_COUNT :: nat where "COM_PORT_COUNT = 8"

record com_port =
  io_port_base :: u16
  port_status :: u8

definition INIT_COM_PORT :: "u16 \<Rightarrow> com_port" where
  "INIT_COM_PORT base = \<lparr>io_port_base = base, port_status = COM_PORT_STATUS_BUSY\<rparr>"

record serial_state = machine +
  com_ports :: "com_port list"
  primary_com_port :: "nat option"

text \<open>The initial value of the array.\<close>

definition initial_com_ports :: "com_port list" where
  "initial_com_ports = map INIT_COM_PORT
     [0x3f8, 0x2f8, 0x3e8, 0x2e8, 0x5f8, 0x4f8, 0x5e8, 0x4e8]"

subsection \<open>Operations\<close>

definition set_port_status :: "nat \<Rightarrow> u8 \<Rightarrow> (unit, 'z serial_state_scheme) kmon" where
  "set_port_status i st = modify (\<lambda>s. s\<lparr>com_ports :=
     (com_ports s)[i := (com_ports s ! i)\<lparr>port_status := st\<rparr>]\<rparr>)"

definition com_port_setup :: "env \<Rightarrow> nat \<Rightarrow> u16 \<Rightarrow> (int, 'z serial_state_scheme) kmon" where
  "com_port_setup E i divisor =
     andthen (gets (\<lambda>s. io_port_base (com_ports s ! i))) (\<lambda>base.
     andthen (outb (base + COM_PORT_OFFSET_INT_ENABLE) 0x00) (\<lambda>_.
     andthen (outb (base + COM_PORT_OFFSET_LINE_CTRL) 0x80) (\<lambda>_.
     andthen (outb (base + COM_PORT_OFFSET_BAUD_DIVISOR_LOW) (ucast (divisor AND 0xff))) (\<lambda>_.
     andthen (outb (base + COM_PORT_OFFSET_BAUD_DIVISOR_HIGH)
       (ucast (drop_bit 8 divisor AND 0xff))) (\<lambda>_.
     andthen (outb (base + COM_PORT_OFFSET_LINE_CTRL)
       (SET_LINE_CTRL 8 STOP_BITS_1 PARITY_NONE)) (\<lambda>_.
     andthen (outb (base + COM_PORT_OFFSET_INT_ID) 0xc7) (\<lambda>_.
     andthen (outb (base + COM_PORT_OFFSET_MODEM_CTRL) 0x0b) (\<lambda>_.
     andthen (outb (base + COM_PORT_OFFSET_MODEM_CTRL) 0x1e) (\<lambda>_.
     andthen (outb (base + COM_PORT_OFFSET_DATA) 0xc4) (\<lambda>_.
     andthen (inb E (base + COM_PORT_OFFSET_DATA)) (\<lambda>v.
     if v \<noteq> 0xc4
     then andthen (set_port_status i COM_PORT_STATUS_BROKEN) (\<lambda>_. ret (-1))
     else andthen (set_port_status i COM_PORT_STATUS_READY) (\<lambda>_.
          andthen (outb (base + COM_PORT_OFFSET_MODEM_CTRL) 0x0f) (\<lambda>_.
          ret 0)))))))))))))"

definition can_send :: "env \<Rightarrow> com_port \<Rightarrow> (bool, 'z machine_scheme) kmon" where
  "can_send E port =
     andthen (inb E (io_port_base port + COM_PORT_OFFSET_LINE_STAT)) (\<lambda>v.
     ret (v AND LINE_STAT_THRE \<noteq> 0))"

definition can_read :: "env \<Rightarrow> com_port \<Rightarrow> (bool, 'z machine_scheme) kmon" where
  "can_read E port =
     andthen (inb E (io_port_base port + COM_PORT_OFFSET_LINE_STAT)) (\<lambda>v.
     ret (v AND LINE_STAT_DR \<noteq> 0))"

definition com_send :: "env \<Rightarrow> com_port \<Rightarrow> char \<Rightarrow> (unit, 'z machine_scheme) kmon" where
  "com_send E port c =
     when_do (port_status port = COM_PORT_STATUS_READY)
       (andthen (poll (can_send E port)) (\<lambda>_.
        outb (io_port_base port + COM_PORT_OFFSET_DATA) (of_char c)))"

text \<open>A C string is the list of the characters before its terminating NUL.\<close>

definition com_sends :: "env \<Rightarrow> com_port \<Rightarrow> string \<Rightarrow> (unit, 'z machine_scheme) kmon" where
  "com_sends E port str = for_each (com_send E port) str"

definition com_read :: "env \<Rightarrow> com_port \<Rightarrow> (u8, 'z machine_scheme) kmon" where
  "com_read E port =
     (if port_status port = COM_PORT_STATUS_READY
      then andthen (poll (can_read E port)) (\<lambda>_.
           inb E (io_port_base port + COM_PORT_OFFSET_DATA))
      else ret 0)"

text \<open>\<open>com_reads\<close> stores what it reads through the pointer \<open>buff\<close> until the delimiter.\<close>

partial_function (option) com_reads ::
  "env \<Rightarrow> com_port \<Rightarrow> u64 \<Rightarrow> u8 \<Rightarrow> 'z machine_scheme \<Rightarrow> (unit, 'z machine_scheme) outcome option"
  where
  "com_reads E port buff delim s =
     Option.bind (com_read E port s) (\<lambda>r. case r of
       Stop h s1 \<Rightarrow> Some (Stop h s1)
     | Ret c s1 \<Rightarrow>
         (if c = delim then Some (Ret () s1)
          else Option.bind (store8 E buff c s1) (\<lambda>r1. case r1 of
            Stop h s2 \<Rightarrow> Some (Stop h s2)
          | Ret _ s2 \<Rightarrow> com_reads E port (buff + 1) delim s2)))"

subsection \<open>Polling the line status\<close>

text \<open>What one read of the line status register does, and what it says.\<close>

definition line_stat :: "env \<Rightarrow> com_port \<Rightarrow> io_event list \<Rightarrow> u8" where
  "line_stat E port t = port_value E t (io_port_base port + COM_PORT_OFFSET_LINE_STAT)"

definition after_poll :: "env \<Rightarrow> com_port \<Rightarrow> io_event list \<Rightarrow> io_event list" where
  "after_poll E port t =
     t @ [In (io_port_base port + COM_PORT_OFFSET_LINE_STAT) (line_stat E port t)]"

lemma can_send_eq:
  "can_send E port s = Some (Ret (line_stat E port (io_trace s) AND LINE_STAT_THRE \<noteq> 0)
     (s\<lparr>io_trace := after_poll E port (io_trace s)\<rparr>))"
  by (simp add: can_send_def inb_def after_poll_def line_stat_def Let_def kmon_simps)

lemma funpow_io_trace:
  "((\<lambda>s. s\<lparr>io_trace := f (io_trace s)\<rparr>) ^^ n) s = s\<lparr>io_trace := (f ^^ n) (io_trace s)\<rparr>"
  by (induction n) simp_all

text \<open>Polling appends one read of the line status register per round.\<close>

lemma after_poll_funpow:
  "\<exists>ps. (after_poll E port ^^ n) t = t @ ps \<and> length ps = n \<and>
     (\<forall>k<n. ps ! k = In (io_port_base port + COM_PORT_OFFSET_LINE_STAT)
        (line_stat E port ((after_poll E port ^^ k) t)))"
proof (induction n)
  case 0
  then show ?case by simp
next
  case (Suc n)
  then obtain ps where "(after_poll E port ^^ n) t = t @ ps" "length ps = n"
    "\<forall>k<n. ps ! k = In (io_port_base port + COM_PORT_OFFSET_LINE_STAT)
        (line_stat E port ((after_poll E port ^^ k) t))" by blast
  then show ?case
    by (intro exI [of _ "ps @ [In (io_port_base port + COM_PORT_OFFSET_LINE_STAT)
        (line_stat E port (t @ ps))]"])
      (auto simp: after_poll_def [of E port "t @ ps"] nth_append less_Suc_eq)
qed

lemma com_send_ready:
  assumes "port_status port = COM_PORT_STATUS_READY"
    and "line_stat E port ((after_poll E port ^^ n) (io_trace s)) AND LINE_STAT_THRE \<noteq> 0"
    and "\<forall>k<n. line_stat E port ((after_poll E port ^^ k) (io_trace s)) AND LINE_STAT_THRE = 0"
  shows "com_send E port c s = Some (Ret () (s\<lparr>io_trace :=
     (after_poll E port ^^ Suc n) (io_trace s) @
       [Out (io_port_base port + COM_PORT_OFFSET_DATA) (of_char c)]\<rparr>))"
proof -
  have "poll (can_send E port) s = Some (Ret ()
      (((\<lambda>s. s\<lparr>io_trace := after_poll E port (io_trace s)\<rparr>) ^^ Suc n) s))"
    by (rule poll_stops [where b = "\<lambda>s. line_stat E port (io_trace s) AND LINE_STAT_THRE \<noteq> 0"])
      (use assms(2,3) in \<open>simp_all add: can_send_eq funpow_io_trace\<close>)
  then show ?thesis
    using assms(1) by (simp add: com_send_def outb_def andthen_Ret modify_apply funpow_io_trace
        del: funpow.simps)
qed

lemma com_send_never:
  assumes "port_status port = COM_PORT_STATUS_READY"
    and "\<And>n. line_stat E port ((after_poll E port ^^ n) (io_trace s)) AND LINE_STAT_THRE = 0"
  shows "com_send E port c s = None"
proof -
  have "poll (can_send E port) s = None"
    by (rule poll_diverges [where b = "\<lambda>s. line_stat E port (io_trace s) AND LINE_STAT_THRE \<noteq> 0"
          and f = "\<lambda>s. s\<lparr>io_trace := after_poll E port (io_trace s)\<rparr>"])
      (simp_all add: can_send_eq funpow_io_trace assms(2))
  then show ?thesis using assms(1) by (simp add: com_send_def andthen_None)
qed

lemma com_send_not_ready: "port_status port \<noteq> COM_PORT_STATUS_READY \<Longrightarrow> com_send E port c = ret ()"
  by (simp add: com_send_def)

text \<open>A device behind the port that always becomes ready to take a byte if it is polled
  for long enough.\<close>

definition sends_eventually :: "env \<Rightarrow> com_port \<Rightarrow> io_event list \<Rightarrow> bool" where
  "sends_eventually E port t \<longleftrightarrow>
     (\<exists>n. line_stat E port ((after_poll E port ^^ n) t) AND LINE_STAT_THRE \<noteq> 0)"

lemma sends_eventually_least:
  assumes "sends_eventually E port t"
  obtains n where "line_stat E port ((after_poll E port ^^ n) t) AND LINE_STAT_THRE \<noteq> 0"
    and "\<forall>k<n. line_stat E port ((after_poll E port ^^ k) t) AND LINE_STAT_THRE = 0"
  using assms unfolding sends_eventually_def
  by (subst (asm) exists_least_iff) auto

lemma com_send_shape:
  assumes "port_status port = COM_PORT_STATUS_READY" and "sends_eventually E port (io_trace s)"
  shows "\<exists>ps v. com_send E port c s = Some (Ret () (s\<lparr>io_trace := io_trace s @ ps @
        [In (io_port_base port + 5) v, Out (io_port_base port) (of_char c)]\<rparr>)) \<and>
      v AND LINE_STAT_THRE \<noteq> 0 \<and>
      (\<forall>e \<in> set ps. \<exists>w. e = In (io_port_base port + 5) w \<and> w AND LINE_STAT_THRE = 0)"
proof -
  obtain n where n: "line_stat E port ((after_poll E port ^^ n) (io_trace s)) AND LINE_STAT_THRE \<noteq> 0"
      "\<forall>k<n. line_stat E port ((after_poll E port ^^ k) (io_trace s)) AND LINE_STAT_THRE = 0"
    using assms(2) by (rule sends_eventually_least)
  obtain ps where ps: "(after_poll E port ^^ n) (io_trace s) = io_trace s @ ps" "length ps = n"
      "\<forall>k<n. ps ! k = In (io_port_base port + COM_PORT_OFFSET_LINE_STAT)
        (line_stat E port ((after_poll E port ^^ k) (io_trace s)))"
    using after_poll_funpow by blast
  have "\<exists>w. e = In (io_port_base port + 5) w \<and> w AND LINE_STAT_THRE = 0" if "e \<in> set ps" for e
    using that ps(2,3) n(2) by (auto simp: in_set_conv_nth com_port_offsets)
  moreover have "com_send E port c s = Some (Ret () (s\<lparr>io_trace := io_trace s @ ps @
      [In (io_port_base port + 5) (line_stat E port (io_trace s @ ps)),
       Out (io_port_base port) (of_char c)]\<rparr>))"
    using com_send_ready [OF assms(1) n] ps(1)
    by (simp add: after_poll_def [of E port "io_trace s @ ps"] com_port_offsets)
  ultimately show ?thesis using n(1) ps(1) by auto
qed

text \<open>C35: sending a character on a ready port. If the line status ever reports an empty
  transmit register, \<open>com_send\<close> returns, having read only the line status register
  until the first report and then written exactly the character to the data register;
  otherwise it never returns.\<close>

theorem com_send_behaviour:
  assumes "port_status port = COM_PORT_STATUS_READY"
  shows "if sends_eventually E port (io_trace s)
    then \<exists>ps v. com_send E port c s = Some (Ret () (s\<lparr>io_trace := io_trace s @ ps @
        [In (io_port_base port + 5) v, Out (io_port_base port) (of_char c)]\<rparr>)) \<and>
      v AND LINE_STAT_THRE \<noteq> 0 \<and>
      (\<forall>e \<in> set ps. \<exists>w. e = In (io_port_base port + 5) w \<and> w AND LINE_STAT_THRE = 0)
    else com_send E port c s = None"
proof (cases "sends_eventually E port (io_trace s)")
  case True
  then show ?thesis by (simp add: com_send_shape [OF assms])
next
  case False
  then show ?thesis by (auto simp: sends_eventually_def intro!: com_send_never [OF assms])
qed

text \<open>A device whose transmit register is always empty.\<close>

definition idle_env :: env where
  "idle_env = \<lparr>port_value = (\<lambda>t p. if p AND 7 = 0 then 0xc4 else 0x60), boot_cr3 = 0, boot_map = Some,
     memmap_response = None, hhdm_response = None, kernel_address_response = None,
     module_response = None, isr_address = (\<lambda>_. 0), idt_table_address = 0, gdt_table_address = 0,
     task_pml4_address = 0, ring0_stack = None\<rparr>"

lemma idle_sends_at_once: "line_stat idle_env \<lparr>io_port_base = 0x3f8, port_status = st\<rparr> t = 0x60"
  by (simp add: line_stat_def idle_env_def com_port_offsets)

theorem com_send_behaviour_witness:
  "\<exists>s'. com_send idle_env \<lparr>io_port_base = 0x3f8, port_status = COM_PORT_STATUS_READY\<rparr> CHR ''A''
     \<lparr>io_trace = [], ram = (\<lambda>_. 0), aspace = None\<rparr> = Some (Ret () s') \<and>
     last (io_trace s') = Out 0x3f8 65"
proof -
  let ?p = "\<lparr>io_port_base = 0x3f8, port_status = COM_PORT_STATUS_READY\<rparr>"
  have "sends_eventually idle_env ?p []"
    unfolding sends_eventually_def
    by (rule exI [of _ 0]) (simp add: idle_sends_at_once LINE_STAT_THRE_def)
  then show ?thesis
    using com_send_behaviour [of ?p idle_env "\<lparr>io_trace = [], ram = (\<lambda>_. 0), aspace = None\<rparr>" "CHR ''A''"]
    by (auto simp: of_char_def)
qed

subsection \<open>What the port has been programmed to\<close>

text \<open>
  The specification of \<open>com_port_setup\<close>: the programmable registers of a 16550 UART at
  an I/O base, and how a write changes them. Bit 7 of the line control register (DLAB)
  turns the first two registers into the baud rate divisor.
\<close>

record uart =
  ier :: u8
  fcr :: u8
  lcr :: u8
  mcr :: u8
  dll :: u8
  dlm :: u8

fun uart_event :: "u16 \<Rightarrow> io_event \<Rightarrow> uart \<Rightarrow> uart" where
  "uart_event base (In p v) u = u"
| "uart_event base (Out p v) u =
     (if p = base then (if bit (lcr u) 7 then u\<lparr>dll := v\<rparr> else u)
      else if p = base + 1 then (if bit (lcr u) 7 then u\<lparr>dlm := v\<rparr> else u\<lparr>ier := v\<rparr>)
      else if p = base + 2 then u\<lparr>fcr := v\<rparr>
      else if p = base + 3 then u\<lparr>lcr := v\<rparr>
      else if p = base + 4 then u\<lparr>mcr := v\<rparr>
      else u)"

definition uart_divisor :: "uart \<Rightarrow> u16" where
  "uart_divisor u = ucast (dll u) OR push_bit 8 (ucast (dlm u))"

lemma divisor_bytes:
  "ucast (ucast (d AND 0xff) :: u8) OR push_bit 8 (ucast (ucast (drop_bit 8 d AND 0xff) :: u8)) = d"
  for d :: u16
proof (rule bit_word_eqI)
  fix n assume "n < LENGTH(16)"
  then consider "n < 8" | "8 \<le> n" "n < 16" by fastforce
  then show "bit (ucast (ucast (d AND 0xff) :: u8) OR
      push_bit 8 (ucast (ucast (drop_bit 8 d AND 0xff) :: u8)) :: u16) n \<longleftrightarrow> bit d n"
    by cases (auto simp: bit_pack_simps mask_folds)
qed

text \<open>The events of the setup up to the loopback test.\<close>

definition setup_events :: "u16 \<Rightarrow> u16 \<Rightarrow> io_event list" where
  "setup_events base d =
     [Out (base + 1) 0, Out (base + 3) 0x80, Out base (ucast (d AND 0xff)),
      Out (base + 1) (ucast (drop_bit 8 d AND 0xff)), Out (base + 3) 3, Out (base + 2) 0xc7,
      Out (base + 4) 0x0b, Out (base + 4) 0x1e, Out base 0xc4]"

lemma com_port_setup_eq:
  "com_port_setup E i d s =
    (let base = io_port_base (com_ports s ! i);
         t = io_trace s @ setup_events base d;
         v = port_value E t base;
         set_st = (\<lambda>st. (com_ports s)[i := (com_ports s ! i)\<lparr>port_status := st\<rparr>])
     in if v = 0xc4
        then Some (Ret 0 (s\<lparr>io_trace := t @ [In base v, Out (base + 4) 0x0f],
               com_ports := set_st COM_PORT_STATUS_READY\<rparr>))
        else Some (Ret (-1) (s\<lparr>io_trace := t @ [In base v],
               com_ports := set_st COM_PORT_STATUS_BROKEN\<rparr>)))"
  by (simp add: com_port_setup_def set_port_status_def inb_def outb_def kmon_simps Let_def
      com_port_offsets setup_events_def SET_LINE_CTRL_def STOP_BITS_1_def PARITY_NONE_def)

text \<open>C34: programming a port. Whatever state the UART was in, after \<open>com_port_setup\<close> its
  baud divisor is the one given and its line is 8 bits, one stop bit, no parity with the
  divisor latch closed; interrupts are off if the latch was closed before. The call
  returns 0 and marks the port ready exactly when the test byte came back, leaving
  loopback mode; otherwise it returns -1 and marks the port broken, and the UART stays in
  loopback. No other port changes.\<close>

theorem com_port_setup_programs:
  assumes "i < length (com_ports s)"
  shows "\<exists>r s' evs. com_port_setup E i d s = Some (Ret r s') \<and> io_trace s' = io_trace s @ evs \<and>
    (let base = io_port_base (com_ports s ! i); u' = fold (uart_event base) evs u;
         echo = port_value E (io_trace s @ setup_events base d) base in
      uart_divisor u' = d \<and> lcr u' = 3 \<and> (\<not> bit (lcr u) 7 \<longrightarrow> ier u' = 0) \<and>
      (if echo = 0xc4
       then r = 0 \<and> port_status (com_ports s' ! i) = COM_PORT_STATUS_READY \<and> mcr u' = 0x0f
       else r = -1 \<and> port_status (com_ports s' ! i) = COM_PORT_STATUS_BROKEN \<and> mcr u' = 0x1e) \<and>
      length (com_ports s') = length (com_ports s) \<and>
      (\<forall>j. j \<noteq> i \<longrightarrow> com_ports s' ! j = com_ports s ! j))"
proof -
  define base where "base = io_port_base (com_ports s ! i)"
  define echo where "echo = port_value E (io_trace s @ setup_events base d) base"
  define u1 where "u1 = fold (uart_event base) (setup_events base d) u"
  have u1: "uart_divisor u1 = d" "lcr u1 = 3" "\<not> bit (lcr u) 7 \<longrightarrow> ier u1 = 0" "mcr u1 = 0x1e"
    by (auto simp: u1_def setup_events_def uart_divisor_def divisor_bytes)
  have mcr: "uart_divisor (u1\<lparr>mcr := v\<rparr>) = uart_divisor u1" for v
    by (simp add: uart_divisor_def)
  note run = com_port_setup_eq [of E i d s, unfolded Let_def, folded base_def, folded echo_def]
  have evs: "fold (uart_event base) (setup_events base d @ [In base echo]) u = u1"
    "fold (uart_event base) (setup_events base d @ [In base echo, Out (base + 4) 0x0f]) u =
      u1\<lparr>mcr := 0x0f\<rparr>"
    by (simp_all add: u1_def)
  show ?thesis
  proof (cases "echo = 0xc4")
    case True
    show ?thesis
      using assms True
      by (intro exI conjI, subst run, simp, simp,
          simp add: Let_def u1 mcr flip: base_def echo_def u1_def)
  next
    case False
    show ?thesis
      using assms False
      by (intro exI conjI, subst run, simp, simp,
          simp add: Let_def u1 mcr flip: base_def echo_def u1_def)
  qed
qed

theorem com_port_setup_programs_witness:
  "\<exists>r s' evs. com_port_setup idle_env 0 3
       \<lparr>io_trace = [], ram = (\<lambda>_. 0), aspace = None, com_ports = initial_com_ports,
        primary_com_port = None\<rparr> = Some (Ret r s') \<and> r = 0 \<and>
     uart_divisor (fold (uart_event 0x3f8) evs
       \<lparr>ier = 0, fcr = 0, lcr = 0x80, mcr = 0, dll = 0, dlm = 0\<rparr>) = 3"
  using com_port_setup_programs [of 0 "\<lparr>io_trace = [], ram = (\<lambda>_. 0), aspace = None,
      com_ports = initial_com_ports, primary_com_port = None\<rparr>" idle_env 3
      "\<lparr>ier = 0, fcr = 0, lcr = 0x80, mcr = 0, dll = 0, dlm = 0\<rparr>"]
  by (auto simp: initial_com_ports_def INIT_COM_PORT_def idle_env_def Let_def)

end
