(* ===== verification/Config.thy ===== *)
theory Config
  imports Flux_Prelude
begin

section \<open>The configuration (\<open>config.h\<close>)\<close>

text \<open>
  The switches that the preprocessor looks at, with the values of this configuration of the
  kernel. Code between \<open>#ifdef\<close> and \<open>#endif\<close> is modelled under the switch it depends on.
  \<open>DEBUG_PRINT_ON_NEW_PAGE_STRUCTURE\<close> is mentioned in \<open>config.h\<close> and used nowhere.
\<close>

definition PRINTK_COLOUR :: bool where "PRINTK_COLOUR = True"
definition PRETTY_LOGO :: bool where "PRETTY_LOGO = False"
definition DEBUG_PRINT_MEMMAP_ENTRIES :: bool where "DEBUG_PRINT_MEMMAP_ENTRIES = False"
definition DEBUG_SHOW_PMEM_ALLOCATIONS :: bool where "DEBUG_SHOW_PMEM_ALLOCATIONS = False"
definition DEBUG_PRINT_ON_PAGE_MAP :: bool where "DEBUG_PRINT_ON_PAGE_MAP = False"

lemma configuration [simp]:
  "PRINTK_COLOUR" "\<not> PRETTY_LOGO" "\<not> DEBUG_PRINT_MEMMAP_ENTRIES" "\<not> DEBUG_SHOW_PMEM_ALLOCATIONS"
  "\<not> DEBUG_PRINT_ON_PAGE_MAP"
  by (simp_all add: PRINTK_COLOUR_def PRETTY_LOGO_def DEBUG_PRINT_MEMMAP_ENTRIES_def
      DEBUG_SHOW_PMEM_ALLOCATIONS_def DEBUG_PRINT_ON_PAGE_MAP_def)

lemmas switched_off = configuration when_do_False ret_andthen

end
