(* ===== verification/Printk.thy ===== *)
theory Printk
  imports Serial Config
begin

section \<open>Kernel printing (\<open>generic/printk.c\<close>, \<open>generic/debug.h\<close>)\<close>

text \<open>
  \<open>printk\<close> and its helpers send one character after the other to the primary COM
  port. The first part translates them; the second states what text each of them
  prints, as a plain string, and proves that the code prints exactly that text; the
  locale \<open>char_sink\<close> is the interface between the two: what a \<open>KPUTC\<close> that always
  comes back promises, and what any program that only puts characters then does.
\<close>

definition KPUTC :: "env \<Rightarrow> char \<Rightarrow> (unit, 'z serial_state_scheme) kmon" where
  "KPUTC E ch =
     andthen (gets primary_com_port) (\<lambda>p. deref p (\<lambda>i.
     andthen (gets (\<lambda>s. com_ports s ! i)) (\<lambda>port.
     com_send E port ch)))"

definition kputs :: "env \<Rightarrow> string \<Rightarrow> (unit, 'z serial_state_scheme) kmon" where
  "kputs E str = for_each (KPUTC E) str"

subsection \<open>Numbers\<close>

definition hexdigits :: string where "hexdigits = ''0123456789abcdef''"

text \<open>The loop over \<open>i = 15, ..., 0\<close>; the argument \<open>Suc i\<close> is one more than the counter.\<close>

fun kputhex_loop :: "env \<Rightarrow> u64 \<Rightarrow> bool \<Rightarrow> bool \<Rightarrow> nat \<Rightarrow> (unit, 'z serial_state_scheme) kmon" where
  "kputhex_loop E x leading spacers 0 = ret ()"
| "kputhex_loop E x leading spacers (Suc i) =
     (let ind = drop_bit (4 * i) x AND 0xf;
          leading' = (if ind \<noteq> 0 \<and> \<not> leading then True else leading)
      in andthen (when_do leading'
           (andthen (when_do (spacers \<and> i \<noteq> 15 \<and> (i + 1) mod 4 = 0) (KPUTC E CHR '','')) (\<lambda>_.
            KPUTC E (hexdigits ! unat ind)))) (\<lambda>_.
         kputhex_loop E x leading' spacers i))"

definition kputhex :: "env \<Rightarrow> u64 \<Rightarrow> bool \<Rightarrow> bool \<Rightarrow> (unit, 'z serial_state_scheme) kmon" where
  "kputhex E x leading spacers = kputhex_loop E x leading spacers 16"

text \<open>The first loop of \<open>kputdec\<close> stores digits from \<open>buf[19]\<close> downwards; a store below
  \<open>buf[0]\<close> would be undefined (\<open>None\<close>). The argument \<open>Suc i\<close> is one more than the
  index.\<close>

fun kputdec_fill :: "nat \<Rightarrow> u64 \<Rightarrow> u8 list \<Rightarrow> u8 list option" where
  "kputdec_fill 0 x buf = (if x = 0 then Some buf else None)"
| "kputdec_fill (Suc i) x buf =
     (if x = 0 then Some buf
      else kputdec_fill i (x div 10) (buf[i := ucast (x mod 10)]))"

text \<open>The second loop, over \<open>i = 0, ..., 19\<close>, with \<open>Suc n = 20 - i\<close> rounds left.\<close>

fun kputdec_out :: "env \<Rightarrow> u8 list \<Rightarrow> bool \<Rightarrow> nat \<Rightarrow> (unit, 'z serial_state_scheme) kmon" where
  "kputdec_out E buf leading 0 = ret ()"
| "kputdec_out E buf leading (Suc n) =
     (let i = 19 - n;
          leading' = (if buf ! i \<noteq> 0 \<and> \<not> leading then True else leading)
      in andthen (when_do (leading' \<or> i = 19)
           (KPUTC E (char_of (48 + unat (buf ! i))))) (\<lambda>_.
         kputdec_out E buf leading' n))"

definition kputdec :: "env \<Rightarrow> u64 \<Rightarrow> (unit, 'z serial_state_scheme) kmon" where
  "kputdec E x = (case kputdec_fill 20 x (replicate 20 0) of
       None \<Rightarrow> stop Undefined
     | Some buf \<Rightarrow> kputdec_out E buf False 20)"

subsection \<open>Formats\<close>

text \<open>
  The variable arguments: integers as the 64-bit values they are passed as, and
  pointers to C strings. Reading an argument that is not there or has the other type is
  undefined. As in C, nothing is printed for an unknown conversion, \<open>%%\<close> included, and
  a format that ends in \<open>%\<close> ends the call.
\<close>

datatype varg = VInt u64 | VStr string

fun printk :: "env \<Rightarrow> string \<Rightarrow> varg list \<Rightarrow> (unit, 'z serial_state_scheme) kmon" where
  "printk E [] args = ret ()"
| "printk E (c # fmt) args =
     (if c \<noteq> CHR ''%'' then andthen (KPUTC E c) (\<lambda>_. printk E fmt args)
      else case fmt of
        [] \<Rightarrow> ret ()
      | f # rest \<Rightarrow>
          (if f = CHR ''x'' then
             (case args of VInt v # as \<Rightarrow> andthen (kputhex E v False False) (\<lambda>_. printk E rest as)
              | _ \<Rightarrow> stop Undefined)
           else if f = CHR ''d'' then
             (case args of VInt v # as \<Rightarrow> andthen (kputdec E v) (\<lambda>_. printk E rest as)
              | _ \<Rightarrow> stop Undefined)
           else if f = CHR ''u'' then
             (case args of VInt v # as \<Rightarrow> andthen (kputdec E v) (\<lambda>_. printk E rest as)
              | _ \<Rightarrow> stop Undefined)
           else if f = CHR ''p'' then
             (case args of VInt v # as \<Rightarrow> andthen (kputhex E v True True) (\<lambda>_. printk E rest as)
              | _ \<Rightarrow> stop Undefined)
           else if f = CHR ''c'' then
             (case args of VInt v # as \<Rightarrow>
                andthen (KPUTC E (char_of (unat v mod 256))) (\<lambda>_. printk E rest as)
              | _ \<Rightarrow> stop Undefined)
           else if f = CHR ''s'' then
             (case args of VStr str # as \<Rightarrow> andthen (kputs E str) (\<lambda>_. printk E rest as)
              | _ \<Rightarrow> stop Undefined)
           else printk E rest args))"

declare printk.simps(2) [simp del]

subsection \<open>Colours, traces, assertions\<close>

text \<open>\<open>PRINTK_COLOUR\<close> is defined in \<open>config.h\<close>, so the escape sequences are sent.\<close>

definition ESC :: char where "ESC = CHR 0x1B"
definition NL :: string where "NL = [CHR 0x0A]"
definition TAB :: string where "TAB = [CHR 0x09]"

definition PRST_COLOUR :: string where "PRST_COLOUR = ESC # ''[0m''"
definition PSTD :: "string \<Rightarrow> string" where
  "PSTD s = (if PRINTK_COLOUR then ESC # ''[37m'' @ s else s)"
definition PGOOD :: "string \<Rightarrow> string" where
  "PGOOD s = (if PRINTK_COLOUR then ESC # ''[32m'' @ s @ PRST_COLOUR else s)"
definition PWARN :: "string \<Rightarrow> string" where
  "PWARN s = (if PRINTK_COLOUR then ESC # ''[33m'' @ s @ PRST_COLOUR else s)"
definition PBAD :: "string \<Rightarrow> string" where
  "PBAD s = (if PRINTK_COLOUR then ESC # ''[31m'' @ s @ PRST_COLOUR else s)"
definition PACCENT :: "string \<Rightarrow> string" where
  "PACCENT s = (if PRINTK_COLOUR then ESC # ''[36m'' @ s @ PRST_COLOUR else s)"

definition SYSTEM_PAGING :: string where "SYSTEM_PAGING = PACCENT ''( PAGE)'' @ '' ''"
definition SYSTEM_GDT :: string where "SYSTEM_GDT = PACCENT ''(  GDT)'' @ '' ''"
definition SYSTEM_PMEM :: string where "SYSTEM_PMEM = PACCENT ''( PMEM)'' @ '' ''"
definition SYSTEM_SCHED :: string where "SYSTEM_SCHED = PACCENT ''(SCHED)'' @ '' ''"
definition SYSTEM_SERIAL :: string where "SYSTEM_SERIAL = PACCENT ''( SERI)'' @ '' ''"

text \<open>A place in the sources: \<open>__FILE__\<close>, \<open>__LINE__\<close> and \<open>__PRETTY_FUNCTION__\<close> of a macro's
  use.\<close>

type_synonym srcloc = "string \<times> u64 \<times> string"

definition TRACE :: "env \<Rightarrow> srcloc \<Rightarrow> string \<Rightarrow> (unit, 'z serial_state_scheme) kmon" where
  "TRACE E loc msg = (case loc of (file, line, func) \<Rightarrow>
     printk E (''*** '' @ msg @ '' at %s:%d [%s]'' @ NL) [VStr file, VInt line, VStr func])"

definition ASSERT :: "env \<Rightarrow> srcloc \<Rightarrow> string \<Rightarrow> bool \<Rightarrow> (unit, 'z serial_state_scheme) kmon" where
  "ASSERT E loc txt x =
     (if \<not> x then andthen (TRACE E loc (PBAD (''Assertion ('' @ txt @ '') failed''))) (\<lambda>_. stop Spin)
      else ret ())"

definition ERROR :: "env \<Rightarrow> srcloc \<Rightarrow> string \<Rightarrow> (unit, 'z serial_state_scheme) kmon" where
  "ERROR E loc msg = andthen (TRACE E loc (PBAD msg)) (\<lambda>_. stop Spin)"

definition WARN :: "env \<Rightarrow> string \<Rightarrow> (unit, 'z serial_state_scheme) kmon" where
  "WARN E msg = printk E (PWARN (''??? '' @ msg)) []"

lemma ASSERT_True [simp]: "ASSERT E loc txt True = ret ()"
  by (simp add: ASSERT_def)

section \<open>What is printed\<close>

subsection \<open>Positional numerals\<close>

text \<open>The value of a text of digits, most significant first.\<close>

definition digit_value :: "char \<Rightarrow> nat" where
  "digit_value c = length (takeWhile (\<lambda>d. d \<noteq> c) hexdigits)"

definition numeral_value :: "nat \<Rightarrow> string \<Rightarrow> nat" where
  "numeral_value b t = foldl (\<lambda>a c. b * a + digit_value c) 0 t"

lemma hexdigits_nth_value: "k < 16 \<Longrightarrow> digit_value (hexdigits ! k) = k"
proof -
  have "\<forall>k \<in> set [0..<16]. digit_value (hexdigits ! k) = k"
    by (simp add: upt_rec digit_value_def hexdigits_def)
  then show "k < 16 \<Longrightarrow> digit_value (hexdigits ! k) = k" by simp
qed

lemma hexdigits_nth_zero: "k < 16 \<Longrightarrow> hexdigits ! k = CHR ''0'' \<longleftrightarrow> k = 0"
  using hexdigits_nth_value [of k] by (auto simp: digit_value_def hexdigits_def)

lemma decimal_digit: "k < 10 \<Longrightarrow> char_of (48 + k) = hexdigits ! k"
proof -
  have "\<forall>k \<in> set [0..<10]. char_of (48 + k) = hexdigits ! k"
    by code_simp
  then show "k < 10 \<Longrightarrow> char_of (48 + k) = hexdigits ! k" by simp
qed

lemma foldl_numeral:
  "foldl (\<lambda>a c. b * a + digit_value c) a t = a * b ^ length t + numeral_value b t"
proof (induction t arbitrary: a)
  case Nil
  then show ?case by (simp add: numeral_value_def)
next
  case (Cons c t)
  show ?case
    using Cons.IH [of "b * a + digit_value c"] Cons.IH [of "digit_value c"]
    by (simp add: numeral_value_def algebra_simps)
qed

lemma numeral_value_append:
  "numeral_value b (t @ u) = numeral_value b t * b ^ length u + numeral_value b u"
  using foldl_numeral [of b "numeral_value b t" u] by (simp add: numeral_value_def)

lemma numeral_value_drop_zeros: "numeral_value b (dropWhile (\<lambda>c. c = CHR ''0'') t) = numeral_value b t"
  by (induction t) (auto simp: numeral_value_def digit_value_def hexdigits_def)

subsection \<open>Hexadecimal\<close>

definition nibble :: "u64 \<Rightarrow> nat \<Rightarrow> char" where
  "nibble x i = hexdigits ! unat (drop_bit (4 * i) x AND 0xf)"

definition hex_text :: "u64 \<Rightarrow> string" where
  "hex_text x = dropWhile (\<lambda>c. c = CHR ''0'') (map (nibble x) (rev [0..<16]))"

definition pointer_text :: "u64 \<Rightarrow> string" where
  "pointer_text x = map (nibble x) (rev [12..<16]) @ '','' @ map (nibble x) (rev [8..<12])
     @ '','' @ map (nibble x) (rev [4..<8]) @ '','' @ map (nibble x) (rev [0..<4])"

lemma unat_nibble: "unat (drop_bit (4 * i) x AND 0xf) = unat x div 16 ^ i mod 16" for x :: u64
proof -
  have "drop_bit (4 * i) x AND 0xf = take_bit 4 (drop_bit (4 * i) x)"
    by (simp add: mask_folds take_bit_eq_mask)
  then have "unat (drop_bit (4 * i) x AND 0xf) = take_bit 4 (drop_bit (4 * i) (unat x))"
    by (simp only: unsigned_take_bit_eq unat_drop_bit_eq)
  also have "\<dots> = unat x div 16 ^ i mod 16"
    by (simp add: take_bit_eq_mod drop_bit_eq_div power_mult)
  finally show ?thesis .
qed

lemma unat_nibble_less: "unat (drop_bit (4 * i) x AND 0xf) < 16" for x :: u64
  by (simp add: unat_nibble)

lemma nibble_zero: "nibble x i = CHR ''0'' \<longleftrightarrow> drop_bit (4 * i) x AND 0xf = 0"
  by (simp only: nibble_def hexdigits_nth_zero [OF unat_nibble_less] unat_eq_0)

lemma numeral_value_nibbles: "numeral_value 16 (map (nibble x) (rev [0..<n])) = unat x mod 16 ^ n"
proof (induction n)
  case 0
  then show ?case by (simp add: numeral_value_def)
next
  case (Suc n)
  have "numeral_value 16 (map (nibble x) (rev [0..<Suc n])) =
      numeral_value 16 [nibble x n] * 16 ^ n + unat x mod 16 ^ n"
    using numeral_value_append [of 16 "[nibble x n]" "map (nibble x) (rev [0..<n])"] Suc.IH by simp
  also have "numeral_value 16 [nibble x n] = unat x div 16 ^ n mod 16"
    using hexdigits_nth_value [OF unat_nibble_less, of n x]
    by (simp add: numeral_value_def nibble_def unat_nibble)
  also have "\<dots> * 16 ^ n + unat x mod 16 ^ n = unat x mod 16 ^ Suc n"
    using mod_mult2_eq [of "unat x" "16 ^ n" 16] by (simp add: mult.commute)
  finally show ?case .
qed

lemma kputhex_loop_leading:
  "kputhex_loop E x True sp n = for_each (KPUTC E) (concat (map (\<lambda>i.
     (if sp \<and> i \<noteq> 15 \<and> (i + 1) mod 4 = 0 then '','' else []) @ [nibble x i]) (rev [0..<n])))"
proof (induction n)
  case (Suc n)
  have sep: "when_do b (KPUTC E CHR '','') = for_each (KPUTC E) (if b then '','' else [])" for b
    by simp
  show ?case
    by (simp only: kputhex_loop.simps Let_def Suc.IH sep upt_Suc le0 if_True rev_append rev.simps
        append.simps list.map concat.simps for_each_append for_each.simps andthen_assoc nibble_def
        when_do_True andthen_ret_unit ret_andthen simp_thms if_cancel)
qed simp

lemma kputhex_loop_plain:
  "kputhex_loop E x False False n =
     for_each (KPUTC E) (dropWhile (\<lambda>c. c = CHR ''0'') (map (nibble x) (rev [0..<n])))"
proof (induction n)
  case (Suc n)
  have one: "concat (map (\<lambda>i. [nibble x i]) ns) = map (nibble x) ns" for ns
    by (induction ns) simp_all
  show ?case
  proof (cases "drop_bit (4 * n) x AND 0xf = 0")
    case True
    then have "nibble x n = CHR ''0''" by (simp add: nibble_zero)
    with True Suc show ?thesis by (simp add: Let_def)
  next
    case False
    then have "nibble x n \<noteq> CHR ''0''" by (simp add: nibble_zero)
    with False show ?thesis
      by (simp add: Let_def kputhex_loop_leading one nibble_def)
  qed
qed simp

lemma kputhex_plain: "kputhex E x False False = for_each (KPUTC E) (hex_text x)"
  by (simp add: kputhex_def kputhex_loop_plain hex_text_def)

lemma rev_upt_16: "rev [0..<16] = [15, 14, 13, 12, 11, 10, 9, 8, 7, 6, 5, 4, 3, 2, 1, 0 :: nat]"
  by code_simp

lemma kputhex_pointer: "kputhex E x True True = for_each (KPUTC E) (pointer_text x)"
proof -
  have "rev [12..<16] = [15, 14, 13, 12 :: nat]" "rev [8..<12] = [11, 10, 9, 8 :: nat]"
    "rev [4..<8] = [7, 6, 5, 4 :: nat]" "rev [0..<4] = [3, 2, 1, 0 :: nat]"
    by code_simp+
  then show ?thesis
    by (simp add: kputhex_def kputhex_loop_leading pointer_text_def rev_upt_16)
qed

subsection \<open>Decimal\<close>

fun digits10 :: "nat \<Rightarrow> nat list" where
  "digits10 n = (if n = 0 then [] else digits10 (n div 10) @ [n mod 10])"

declare digits10.simps [simp del]

lemma digits10_0 [simp]: "digits10 0 = []"
  by (simp add: digits10.simps)

lemma digits10_pos: "0 < n \<Longrightarrow> digits10 n = digits10 (n div 10) @ [n mod 10]"
  by (simp add: digits10.simps [of n])

definition dec_text :: "nat \<Rightarrow> string" where
  "dec_text n = (if n = 0 then ''0'' else map (\<lambda>d. hexdigits ! d) (digits10 n))"

lemma digits10_less: "d \<in> set (digits10 n) \<Longrightarrow> d < 10"
proof (induction n rule: digits10.induct)
  case (1 n)
  then show ?case by (cases "n = 0") (auto simp: digits10_pos)
qed

lemma digits10_hd: "0 < n \<Longrightarrow> digits10 n \<noteq> [] \<and> hd (digits10 n) \<noteq> 0"
proof (induction n rule: digits10.induct)
  case (1 n)
  then show ?case
    by (cases "n div 10 = 0") (auto simp: digits10_pos hd_append div_eq_0_iff)
qed

lemma digits10_length: "n < 10 ^ k \<Longrightarrow> length (digits10 n) \<le> k"
proof (induction k arbitrary: n)
  case (Suc k)
  then show ?case by (cases "n = 0") (auto simp: digits10_pos)
qed simp

lemma numeral_value_dec_text: "numeral_value 10 (dec_text n) = n"
proof -
  have "numeral_value 10 (map (\<lambda>d. hexdigits ! d) (digits10 n)) = n" for n
  proof (induction n rule: digits10.induct)
    case (1 n)
    show ?case
    proof (cases "n = 0")
      case True
      then show ?thesis by (simp add: numeral_value_def)
    next
      case False
      have "numeral_value 10 [hexdigits ! (n mod 10)] = n mod 10"
        using hexdigits_nth_value [of "n mod 10"] by (simp add: numeral_value_def)
      with False 1 show ?thesis by (simp add: digits10_pos numeral_value_append)
    qed
  qed
  then show ?thesis by (simp add: dec_text_def numeral_value_def digit_value_def hexdigits_def)
qed

lemma kputdec_fill_digits:
  assumes "unat x < 10 ^ n"
  shows "kputdec_fill n x (replicate n 0 @ rest) =
    Some (replicate (n - length (digits10 (unat x))) 0 @ map of_nat (digits10 (unat x)) @ rest)"
  using assms
proof (induction n arbitrary: x rest)
  case 0
  then have "x = 0" by (simp add: unat_eq_0)
  then show ?case by simp
next
  case (Suc n)
  show ?case
  proof (cases "x = 0")
    case False
    have div: "unat (x div 10) = unat x div 10" and m: "unat (x mod 10) = unat x mod 10"
      by (simp_all add: unat_div unat_mod)
    have pos: "0 < unat x" using False by (simp add: unat_gt_0)
    have "unat (x div 10) < 10 ^ n" using Suc.prems div by simp
    then have IH: "kputdec_fill n (x div 10) (replicate n 0 @ ucast (x mod 10) # rest) =
        Some (replicate (n - length (digits10 (unat x div 10))) 0 @
          map of_nat (digits10 (unat x div 10)) @ ucast (x mod 10) # rest)"
      using Suc.IH by (simp only: div)
    have "ucast (x mod 10) = (of_nat (unat x mod 10) :: u8)"
      using m by (metis of_nat_unat)
    moreover have "(replicate (Suc n) 0 @ rest)[n := v] = replicate n 0 @ v # rest" for v :: u8
    proof -
      have "replicate (Suc n) (0 :: u8) @ rest = replicate n 0 @ 0 # rest"
        by (simp add: replicate_app_Cons_same)
      then show ?thesis by (simp only: list_update_append) simp
    qed
    ultimately show ?thesis
      using False IH by (simp add: digits10_pos [OF pos] del: replicate_Suc)
  qed simp
qed

text \<open>The printing loop skips leading zeros but always prints the last digit.\<close>

fun shown_digits :: "bool \<Rightarrow> u8 list \<Rightarrow> u8 list" where
  "shown_digits leading [] = []"
| "shown_digits leading (d # ds) =
     (let leading' = leading \<or> d \<noteq> 0
      in (if leading' \<or> ds = [] then [d] else []) @ shown_digits leading' ds)"

lemma shown_digits_True: "shown_digits True ds = ds"
  by (induction ds) simp_all

lemma shown_digits_zeros:
  "ds \<noteq> [] \<Longrightarrow> hd ds \<noteq> 0 \<Longrightarrow> shown_digits False (replicate k 0 @ ds) = ds"
  by (induction k) (cases ds, simp_all add: shown_digits_True)

lemma shown_digits_all_zero: "shown_digits False (replicate (Suc k) 0) = [0]"
  by (induction k) simp_all

lemma kputdec_out_shown:
  assumes "length buf = 20" and "n \<le> 20"
  shows "kputdec_out E buf leading n =
    for_each (\<lambda>d. KPUTC E (char_of (48 + unat d))) (shown_digits leading (drop (20 - n) buf))"
  using assms(2)
proof (induction n arbitrary: leading)
  case 0
  then show ?case using assms(1) by simp
next
  case (Suc n)
  have d: "drop (20 - Suc n) buf = buf ! (19 - n) # drop (20 - n) buf"
  proof -
    have "Suc (19 - n) = 20 - n" using Suc.prems by simp
    then show ?thesis
      using Suc.prems assms(1) Cons_nth_drop_Suc [of "19 - n" buf] by simp
  qed
  have "drop (20 - n) buf = [] \<longleftrightarrow> 19 - n = 19"
    using Suc.prems assms(1) by auto
  then show ?case
    using Suc by (simp only: d kputdec_out.simps shown_digits.simps Let_def for_each_append)
      (simp add: disj_commute)
qed

lemma kputdec_eq: "kputdec E x = for_each (KPUTC E) (dec_text (unat x))"
proof -
  let ?ds = "map of_nat (digits10 (unat x)) :: u8 list"
  let ?buf = "replicate (20 - length (digits10 (unat x))) 0 @ ?ds"
  have big: "unat x < 10 ^ 20"
    using unsigned_less [of x, where 'a = nat] by simp
  have len: "length (digits10 (unat x)) \<le> 20" using digits10_length [OF big] .
  have "kputdec E x = kputdec_out E ?buf False 20"
    using kputdec_fill_digits [OF big, of "[]"] by (simp add: kputdec_def)
  also have "\<dots> = for_each (\<lambda>d. KPUTC E (char_of (48 + unat d))) (shown_digits False ?buf)"
    using len by (subst kputdec_out_shown) simp_all
  also have "\<dots> = for_each (KPUTC E) (dec_text (unat x))"
  proof (cases "x = 0")
    case True
    then show ?thesis
      using shown_digits_all_zero [of 19] decimal_digit [of 0]
      by (simp add: dec_text_def hexdigits_def)
  next
    case False
    then have pos: "0 < unat x" by (simp add: unat_gt_0)
    have u: "unat (of_nat d :: u8) = d" if "d \<in> set (digits10 (unat x))" for d
      using digits10_less [OF that] by (simp add: unat_of_nat)
    have "?ds \<noteq> [] \<and> hd ?ds \<noteq> 0"
      using digits10_hd [OF pos] u [OF hd_in_set] by (auto simp: hd_map)
    then have "shown_digits False ?buf = ?ds" by (intro shown_digits_zeros) simp_all
    moreover have "map (\<lambda>d. char_of (48 + unat d)) ?ds = dec_text (unat x)"
      using pos u by (auto simp: dec_text_def decimal_digit digits10_less)
    ultimately show ?thesis by (metis for_each_map)
  qed
  finally show ?thesis .
qed

subsection \<open>Formats\<close>

text \<open>The text of a format and its arguments, or \<open>None\<close> when an argument is missing or has
  the wrong type.\<close>

fun render :: "string \<Rightarrow> varg list \<Rightarrow> string option" where
  "render [] args = Some []"
| "render (c # fmt) args =
     (if c \<noteq> CHR ''%'' then map_option ((#) c) (render fmt args)
      else case fmt of
        [] \<Rightarrow> Some []
      | f # rest \<Rightarrow>
          (case args of
             VInt v # as \<Rightarrow>
               (if f = CHR ''x'' then map_option ((@) (hex_text v)) (render rest as)
                else if f = CHR ''d'' \<or> f = CHR ''u''
                  then map_option ((@) (dec_text (unat v))) (render rest as)
                else if f = CHR ''p'' then map_option ((@) (pointer_text v)) (render rest as)
                else if f = CHR ''c''
                  then map_option ((#) (char_of (unat v mod 256))) (render rest as)
                else if f = CHR ''s'' then None
                else render rest args)
           | VStr t # as \<Rightarrow>
               (if f = CHR ''s'' then map_option ((@) t) (render rest as)
                else if f \<in> set ''xdupc'' then None
                else render rest args)
           | [] \<Rightarrow> if f \<in> set ''xdupcs'' then None else render rest args))"

declare render.simps(2) [simp del]

lemma render_plain [simp]:
  "c \<noteq> CHR ''%'' \<Longrightarrow> render (c # fmt) args = map_option ((#) c) (render fmt args)"
  by (simp add: render.simps(2))

lemma render_conversions [simp]:
  "render (CHR ''%'' # CHR ''x'' # rest) (VInt v # as) = map_option ((@) (hex_text v)) (render rest as)"
  "render (CHR ''%'' # CHR ''d'' # rest) (VInt v # as) =
     map_option ((@) (dec_text (unat v))) (render rest as)"
  "render (CHR ''%'' # CHR ''p'' # rest) (VInt v # as) =
     map_option ((@) (pointer_text v)) (render rest as)"
  "render (CHR ''%'' # CHR ''s'' # rest) (VStr t # as) = map_option ((@) t) (render rest as)"
  by (simp_all add: render.simps(2))

text \<open>The code prints the text, character by character.\<close>

lemma printk_render: "render fmt args = Some t \<Longrightarrow> printk E fmt args = for_each (KPUTC E) t"
proof (induction fmt args arbitrary: t rule: render.induct)
  case (1 args)
  then show ?case by simp
next
  case (2 c fmt args)
  show ?case
  proof (cases "c = CHR ''%''")
    case False
    with 2 show ?thesis by (auto simp: printk.simps(2) render.simps(2))
  next
    case True
    show ?thesis
    proof (cases fmt)
      case Nil
      with True "2.prems" show ?thesis by (simp add: printk.simps(2) render.simps(2))
    next
      case (Cons f rest)
      show ?thesis
      proof (cases args)
        case Nil
        with True Cons 2 show ?thesis
          by (auto simp: printk.simps(2) render.simps(2) split: if_splits)
      next
        case (Cons v as)
        with True \<open>fmt = f # rest\<close> 2 show ?thesis
          by (cases v) (auto simp: printk.simps(2) render.simps(2) kputhex_plain kputhex_pointer
              kputdec_eq kputs_def for_each_append split: if_splits)
      qed
    qed
  qed
qed

subsection \<open>The console interface\<close>

text \<open>
  What the printing code needs of a character sink: while it is \<open>ready\<close>, putting a
  character comes back with the sink still ready, the character added to what the
  outside has seen, and nothing else of the state touched (\<open>frame\<close>).
\<close>

locale char_sink =
  fixes putc :: "char \<Rightarrow> (unit, 's) kmon"
    and out :: "'s \<Rightarrow> string"
    and ready :: "'s \<Rightarrow> bool"
    and frame :: "'s \<Rightarrow> 's \<Rightarrow> bool"
  assumes putc: "ready s \<Longrightarrow>
      \<exists>s'. putc c s = Some (Ret () s') \<and> ready s' \<and> out s' = out s @ [c] \<and> frame s s'"
    and frame_refl: "frame s s"
    and frame_trans: "frame s s' \<Longrightarrow> frame s' s'' \<Longrightarrow> frame s s''"
begin

lemma puts:
  "ready s \<Longrightarrow> \<exists>s'. for_each putc t s = Some (Ret () s') \<and> ready s' \<and> out s' = out s @ t \<and> frame s s'"
proof (induction t arbitrary: s)
  case Nil
  then show ?case by (simp add: kmon_simps frame_refl)
next
  case (Cons c t)
  obtain s1 where s1: "putc c s = Some (Ret () s1)" "ready s1" "out s1 = out s @ [c]" "frame s s1"
    using putc [OF Cons.prems] by blast
  obtain s2 where "for_each putc t s1 = Some (Ret () s2)" "ready s2" "out s2 = out s1 @ t" "frame s1 s2"
    using Cons.IH [OF s1(2)] by blast
  with s1 show ?case by (auto simp: andthen_Ret intro: frame_trans)
qed

end

text \<open>What was sent to the data register of the primary port.\<close>

definition console_out :: "'z serial_state_scheme \<Rightarrow> string" where
  "console_out s = (case primary_com_port s of
       None \<Rightarrow> []
     | Some i \<Rightarrow> List.map_filter (\<lambda>e. case e of
           Out p v \<Rightarrow> if p = io_port_base (com_ports s ! i) then Some (char_of (unat v)) else None
         | In p v \<Rightarrow> None) (io_trace s))"

definition console_ready :: "env \<Rightarrow> 'z serial_state_scheme \<Rightarrow> bool" where
  "console_ready E s \<longleftrightarrow> (case primary_com_port s of
       None \<Rightarrow> False
     | Some i \<Rightarrow> port_status (com_ports s ! i) = COM_PORT_STATUS_READY \<and>
         (\<forall>t. sends_eventually E (com_ports s ! i) t))"

lemma console_ready_cong: "com_ports s' = com_ports s \<Longrightarrow> primary_com_port s' = primary_com_port s \<Longrightarrow>
    console_ready E s' = console_ready E s"
  by (cases "primary_com_port s") (simp_all add: console_ready_def)

lemma console_out_cong: "com_ports s' = com_ports s \<Longrightarrow> primary_com_port s' = primary_com_port s \<Longrightarrow>
    io_trace s' = io_trace s \<Longrightarrow> console_out s' = console_out s"
  unfolding console_out_def by (simp only:)

text \<open>Only the trace of I/O events differs, and only by new events.\<close>

definition only_io :: "'z machine_scheme \<Rightarrow> 'z machine_scheme \<Rightarrow> bool" where
  "only_io s s' \<longleftrightarrow> (\<exists>evs. s' = s\<lparr>io_trace := io_trace s @ evs\<rparr>)"

lemma only_io_refl [simp]: "only_io s s"
  unfolding only_io_def by (rule exI [of _ "[]"]) simp

lemma only_io_trans: "only_io s s' \<Longrightarrow> only_io s' s'' \<Longrightarrow> only_io s s''"
  unfolding only_io_def by fastforce

lemma unat_of_char: "char_of (unat (of_char c :: u8)) = c"
proof -
  have "(of_char c :: u8) = of_nat (of_char c)" by (simp add: of_nat_of_char)
  moreover have "(of_char c :: nat) < 256" by (rule nat_of_char_less_256)
  ultimately have "unat (of_char c :: u8) = of_char c"
    by (simp add: unat_of_nat)
  then show ?thesis by simp
qed

lemma map_filter_append: "List.map_filter f (xs @ ys) = List.map_filter f xs @ List.map_filter f ys"
  by (simp add: List.map_filter_def)

lemma KPUTC_ready:
  assumes "console_ready E s"
  shows "\<exists>s'. KPUTC E c s = Some (Ret () s') \<and> console_ready E s' \<and>
    console_out s' = console_out s @ [c] \<and> only_io s s'"
proof -
  obtain i where i: "primary_com_port s = Some i"
      "port_status (com_ports s ! i) = COM_PORT_STATUS_READY"
      "sends_eventually E (com_ports s ! i) (io_trace s)"
    using assms by (auto simp: console_ready_def split: option.splits)
  obtain ps v where send: "com_send E (com_ports s ! i) c s = Some (Ret () (s\<lparr>io_trace :=
        io_trace s @ ps @ [In (io_port_base (com_ports s ! i) + 5) v,
          Out (io_port_base (com_ports s ! i)) (of_char c)]\<rparr>))"
      and ps: "\<forall>e \<in> set ps. \<exists>w. e = In (io_port_base (com_ports s ! i) + 5) w"
    using com_send_shape [OF i(2,3)] by blast
  have "List.map_filter (\<lambda>e. case e of Out p v \<Rightarrow> if p = io_port_base (com_ports s ! i)
      then Some (char_of (unat v)) else None | In p v \<Rightarrow> None) ps = []"
    using ps by (induction ps) (auto simp: map_filter_simps)
  with i send assms show ?thesis
    by (auto simp: KPUTC_def kmon_simps console_ready_def console_out_def only_io_def
        map_filter_append map_filter_simps unat_of_char)
qed

interpretation console: char_sink "KPUTC E" console_out "console_ready E" only_io for E
  by unfold_locales (auto intro: KPUTC_ready only_io_trans)

lemma printk_ready:
  assumes "console_ready E s" and "render fmt args = Some t"
  shows "\<exists>s'. printk E fmt args s = Some (Ret () s') \<and> console_ready E s' \<and>
    console_out s' = console_out s @ t \<and> only_io s s'"
  using console.puts [OF assms(1), of t] by (simp add: printk_render [OF assms(2)])

lemma render_append_plain:
  "CHR ''%'' \<notin> set t \<Longrightarrow> render (t @ fmt) args = map_option ((@) t) (render fmt args)"
  by (cases "render fmt args"; induction t) auto

lemmas colour_defs = PSTD_def PGOOD_def PWARN_def PBAD_def PACCENT_def PRST_COLOUR_def ESC_def
  NL_def TAB_def SYSTEM_PAGING_def SYSTEM_GDT_def SYSTEM_PMEM_def SYSTEM_SCHED_def SYSTEM_SERIAL_def

definition trace_text :: "srcloc \<Rightarrow> string \<Rightarrow> string" where
  "trace_text loc msg = (case loc of (fl, line, func) \<Rightarrow>
     ''*** '' @ msg @ '' at '' @ fl @ '':'' @ dec_text (unat line) @ '' ['' @ func @ '']'' @ NL)"

lemma TRACE_ready:
  assumes "console_ready E s" and "CHR ''%'' \<notin> set msg"
  shows "\<exists>s'. TRACE E loc msg s = Some (Ret () s') \<and> console_ready E s' \<and>
    console_out s' = console_out s @ trace_text loc msg \<and> only_io s s'"
proof -
  obtain fl line func where loc: "loc = (fl, line, func)" by (cases loc)
  have "render (''*** '' @ msg @ '' at %s:%d [%s]'' @ NL) [VStr fl, VInt line, VStr func] =
      Some (trace_text loc msg)"
    using assms(2) by (simp add: render_append_plain loc trace_text_def NL_def)
  then show ?thesis
    using printk_ready [OF assms(1)] by (simp add: TRACE_def loc)
qed

lemma ERROR_ready:
  assumes "console_ready E s" and "CHR ''%'' \<notin> set msg"
  shows "\<exists>s'. ERROR E loc msg s = Some (Stop Spin s') \<and> console_ready E s' \<and>
    console_out s' = console_out s @ trace_text loc (PBAD msg) \<and> only_io s s'"
proof -
  have "CHR ''%'' \<notin> set (PBAD msg)" using assms(2) by (simp add: colour_defs)
  from TRACE_ready [OF assms(1) this, of loc] show ?thesis
    by (auto simp: ERROR_def andthen_Ret kmon_simps)
qed

lemma ASSERT_False_ready:
  assumes "console_ready E s" and "CHR ''%'' \<notin> set txt"
  shows "\<exists>s'. ASSERT E loc txt False s = Some (Stop Spin s') \<and> console_ready E s' \<and>
    console_out s' = console_out s @
      trace_text loc (PBAD (''Assertion ('' @ txt @ '') failed'')) \<and> only_io s s'"
proof -
  have "CHR ''%'' \<notin> set (PBAD (''Assertion ('' @ txt @ '') failed''))"
    using assms(2) by (simp add: colour_defs)
  from TRACE_ready [OF assms(1) this, of loc] show ?thesis
    by (auto simp: ASSERT_def andthen_Ret kmon_simps)
qed

text \<open>What printing keeps when it comes back, whatever the devices do: everything but
  the trace.\<close>

definition io_confined :: "('a, 'z machine_scheme) kmon \<Rightarrow> bool" where
  "io_confined m \<longleftrightarrow> (\<forall>s. case m s of
       None \<Rightarrow> True
     | Some (Ret a s') \<Rightarrow> only_io s s'
     | Some (Stop h s') \<Rightarrow> only_io s s')"

lemma io_confined_ret: "io_confined (ret a)"
  and io_confined_stop: "io_confined (stop h)"
  by (simp_all add: io_confined_def kmon_simps)

lemma io_confined_andthen:
  "io_confined m \<Longrightarrow> (\<And>a. io_confined (f a)) \<Longrightarrow> io_confined (andthen m f)"
  unfolding io_confined_def andthen_apply
  by (fastforce split: option.splits outcome.splits intro: only_io_trans)

section \<open>Properties\<close>

text \<open>C32: \<open>kputdec\<close> prints the decimal numeral of its argument, for every 64-bit value:
  the characters sent are digits whose value is the argument, without leading zeros, a
  single \<open>0\<close> for zero; in particular the 20-byte buffer is never written out of
  bounds.\<close>

theorem kputdec_prints:
  "\<exists>t. kputdec E x = for_each (KPUTC E) t \<and> numeral_value 10 t = unat x \<and>
     set t \<subseteq> set ''0123456789'' \<and> (if x = 0 then t = ''0'' else t \<noteq> [] \<and> hd t \<noteq> CHR ''0'')"
proof (intro exI conjI)
  have hx: "hexdigits ! d \<in> set ''0123456789''" if "d < 10" for d
  proof -
    have "\<forall>d \<in> set [0..<10]. hexdigits ! d \<in> set ''0123456789''"
      by (simp add: upt_rec hexdigits_def)
    then show ?thesis using that by simp
  qed
  show "kputdec E x = for_each (KPUTC E) (dec_text (unat x))" by (rule kputdec_eq)
  show "numeral_value 10 (dec_text (unat x)) = unat x" by (rule numeral_value_dec_text)
  show "set (dec_text (unat x)) \<subseteq> set ''0123456789''"
    using hx digits10_less by (auto simp: dec_text_def)
  show "if x = 0 then dec_text (unat x) = ''0''
      else dec_text (unat x) \<noteq> [] \<and> hd (dec_text (unat x)) \<noteq> CHR ''0''"
  proof (cases "x = 0")
    case True
    then show ?thesis by (simp add: dec_text_def)
  next
    case False
    then have pos: "0 < unat x" by (simp add: unat_gt_0)
    have "hd (digits10 (unat x)) < 16"
      using digits10_less [OF hd_in_set] digits10_hd [OF pos] by fastforce
    then show ?thesis
      using False pos digits10_hd [OF pos]
      by (simp add: dec_text_def hd_map hexdigits_nth_zero unat_gt_0)
  qed
qed

text \<open>C33: \<open>%x\<close> and \<open>%p\<close> print the hexadecimal numeral of their argument: the plain form
  without leading zeros (so nothing at all for zero), the pointer form as sixteen
  digits in four groups separated by commas.\<close>

theorem kputhex_prints:
  "(\<exists>t. kputhex E x False False = for_each (KPUTC E) t \<and> numeral_value 16 t = unat x \<and>
      set t \<subseteq> set hexdigits \<and> (if x = 0 then t = [] else t \<noteq> [] \<and> hd t \<noteq> CHR ''0'')) \<and>
   (\<exists>a b c d. kputhex E x True True = for_each (KPUTC E) (a @ '','' @ b @ '','' @ c @ '','' @ d) \<and>
      map length [a, b, c, d] = [4, 4, 4, 4] \<and> numeral_value 16 (a @ b @ c @ d) = unat x)"
proof
  have val: "numeral_value 16 (map (nibble x) (rev [0..<16])) = unat x"
    using unsigned_less [of x, where 'a = nat] by (simp only: numeral_value_nibbles) simp
  have hv: "numeral_value 16 (hex_text x) = unat x"
    using val by (simp add: hex_text_def numeral_value_drop_zeros)
  have len: "length hexdigits = 16" by (simp add: hexdigits_def)
  have sub: "set (hex_text x) \<subseteq> set hexdigits"
  proof
    fix c assume "c \<in> set (hex_text x)"
    then obtain i where "c = nibble x i"
      unfolding hex_text_def by (auto dest!: set_dropWhileD)
    then show "c \<in> set hexdigits"
      using nth_mem [of "unat (drop_bit (4 * i) x AND 0xf)" hexdigits] unat_nibble_less [of i x]
      by (simp add: nibble_def len)
  qed
  have hd: "hex_text x \<noteq> [] \<Longrightarrow> hd (hex_text x) \<noteq> CHR ''0''"
    unfolding hex_text_def by (rule hd_dropWhile)
  have z: "hex_text 0 = []"
    by (auto simp: hex_text_def dropWhile_eq_Nil_conv nibble_zero)
  have nz: "hex_text x \<noteq> []" if "x \<noteq> 0"
    using hv that by (auto simp: numeral_value_def unat_eq_0)
  show "\<exists>t. kputhex E x False False = for_each (KPUTC E) t \<and> numeral_value 16 t = unat x \<and>
      set t \<subseteq> set hexdigits \<and> (if x = 0 then t = [] else t \<noteq> [] \<and> hd t \<noteq> CHR ''0'')"
    using kputhex_plain hv sub hd z nz by (intro exI [of _ "hex_text x"]) auto
  have split: "map (nibble x) (rev [12..<16]) @ map (nibble x) (rev [8..<12]) @
      map (nibble x) (rev [4..<8]) @ map (nibble x) (rev [0..<4]) = map (nibble x) (rev [0..<16])"
  proof -
    have "rev [12..<16] @ rev [8..<12] @ rev [4..<8] @ rev [0..<4] = rev [0..<16 :: nat]"
      by code_simp
    then show ?thesis by (simp only: map_append [symmetric])
  qed
  show "\<exists>a b c d. kputhex E x True True = for_each (KPUTC E) (a @ '','' @ b @ '','' @ c @ '','' @ d) \<and>
      map length [a, b, c, d] = [4, 4, 4, 4] \<and> numeral_value 16 (a @ b @ c @ d) = unat x"
    by (rule exI [of _ "map (nibble x) (rev [12..<16])"], rule exI [of _ "map (nibble x) (rev [8..<12])"],
        rule exI [of _ "map (nibble x) (rev [4..<8])"], rule exI [of _ "map (nibble x) (rev [0..<4])"])
      (simp only: split val kputhex_pointer pointer_text_def, simp)
qed

text \<open>C26: \<open>printk\<close> on a working console. For every format and arguments that match it,
  the call returns, what the console has sent out grows by exactly the rendered text,
  the console still works, and nothing but the record of port accesses changes.\<close>

theorem printk_prints:
  assumes "console_ready E s" and "render fmt args = Some t"
  shows "\<exists>s'. printk E fmt args s = Some (Ret () s') \<and> console_out s' = console_out s @ t \<and>
    console_ready E s' \<and> only_io s s'"
  using printk_ready [OF assms] by blast

text \<open>A console on COM1 with an idle device, for witnesses.\<close>

definition idle_console :: serial_state where
  "idle_console = \<lparr>io_trace = [], ram = (\<lambda>_. 0), aspace = None,
     com_ports = [\<lparr>io_port_base = 0x3f8, port_status = COM_PORT_STATUS_READY\<rparr>],
     primary_com_port = Some 0\<rparr>"

lemma idle_sends: "sends_eventually idle_env \<lparr>io_port_base = 0x3f8, port_status = st\<rparr> t"
  unfolding sends_eventually_def
  by (rule exI [of _ 0]) (simp add: idle_sends_at_once LINE_STAT_THRE_def)

lemma idle_console_ready: "console_ready idle_env idle_console"
  using idle_sends by (auto simp: console_ready_def idle_console_def)

theorem printk_prints_witness:
  "\<exists>s'. printk idle_env ''%d modules at %x'' [VInt 3, VInt 0xbeef] idle_console = Some (Ret () s') \<and>
     console_out s' = ''3 modules at beef''"
proof -
  have r: "render ''%d modules at %x'' [VInt 3, VInt 0xbeef] = Some ''3 modules at beef''"
    by (simp add: dec_text_def digits10.simps hex_text_def nibble_def hexdigits_def rev_upt_16)
  show ?thesis
    using printk_prints [OF idle_console_ready r] by (auto simp: idle_console_def console_out_def)
qed

text \<open>\<open>%d\<close> is documented by its argument type (\<open>int64_t\<close>) as signed, but the digits of
  a negative number are those of its two's complement read as unsigned: -1 prints
  18446744073709551615. \<open>%x\<close> of zero prints nothing.\<close>

theorem printk_number_quirks:
  "printk E ''%d'' [VInt (- 1)] = kputs E ''18446744073709551615'' \<and>
   printk E ''[%x]'' [VInt 0] = kputs E ''[]''"
proof
  have "unat (- 1 :: u64) = 18446744073709551615"
    by (simp add: unsigned_minus_1_eq_mask mask_eq_exp_minus_1)
  then have "render ''%d'' [VInt (- 1)] = Some ''18446744073709551615''"
    by (simp add: dec_text_def digits10.simps hexdigits_def)
  then show "printk E ''%d'' [VInt (- 1)] = kputs E ''18446744073709551615''"
    by (simp add: printk_render kputs_def)
  have "hex_text 0 = []"
    by (auto simp: hex_text_def dropWhile_eq_Nil_conv nibble_zero)
  then have "render ''[%x]'' [VInt 0] = Some ''[]''" by simp
  then show "printk E ''[%x]'' [VInt 0] = kputs E ''[]''"
    by (simp add: printk_render kputs_def)
qed

end
