(* ===== verification/Serial_Console.thy ===== *)
theory Serial_Console
  imports Printk
begin

section \<open>Bringing up the console (\<open>serial_init\<close> of \<open>arch/x64/serial.c\<close>)\<close>

text \<open>
  \<open>serial_init\<close> programs the eight ports in order, makes the first one that works the
  primary port and reports each working port on the primary one. When no port works the
  processor halts.
\<close>

definition serial_init_port :: "env \<Rightarrow> nat \<Rightarrow> (unit, 'z serial_state_scheme) kmon" where
  "serial_init_port E i =
     andthen (com_port_setup E i 3) (\<lambda>r.
     if r = 0
     then andthen (gets primary_com_port) (\<lambda>p.
          andthen (when_do (p = None) (modify (\<lambda>s. s\<lparr>primary_com_port := Some i\<rparr>))) (\<lambda>_.
          andthen (gets (\<lambda>s. io_port_base (com_ports s ! i))) (\<lambda>base.
          printk E (SYSTEM_SERIAL @ PGOOD (''Detected as working UART com port (IO base %x)'' @ NL))
            [VInt (ucast base)])))
     else ret ())"

definition serial_init :: "env \<Rightarrow> (unit, 'z serial_state_scheme) kmon" where
  "serial_init E =
     andthen (for_each (serial_init_port E) [0..<COM_PORT_COUNT]) (\<lambda>_.
     andthen (gets primary_com_port) (\<lambda>p.
     if p = None then stop Hlt
     else printk E (SYSTEM_SERIAL @ ''Flux serial console initialised!'' @ NL) []))"

subsection \<open>The loop invariant\<close>

definition port_ready :: "'z serial_state_scheme \<Rightarrow> nat \<Rightarrow> bool" where
  "port_ready s i \<longleftrightarrow> port_status (com_ports s ! i) = COM_PORT_STATUS_READY"

text \<open>After \<open>n\<close> ports: they are each ready or broken, the primary port is the first ready
  one among them, and the I/O bases are those of the table \<open>ps\<close>.\<close>

definition ports_probed :: "com_port list \<Rightarrow> nat \<Rightarrow> 'z serial_state_scheme \<Rightarrow> bool" where
  "ports_probed ps n s \<longleftrightarrow>
     map io_port_base (com_ports s) = map io_port_base ps \<and>
     (\<forall>j<n. port_ready s j \<or> port_status (com_ports s ! j) = COM_PORT_STATUS_BROKEN) \<and>
     primary_com_port s = find (port_ready s) [0..<n]"

lemma sends_eventually_base:
  assumes "io_port_base p = io_port_base q"
  shows "sends_eventually E p = sends_eventually E q"
proof -
  have l: "line_stat E p = line_stat E q" by (rule ext) (simp add: line_stat_def assms)
  then have "after_poll E p = after_poll E q" by (rule_tac ext) (simp add: after_poll_def assms l)
  with l show ?thesis by (simp only: sends_eventually_def [abs_def])
qed

lemma port_ready_io [simp]: "port_ready (s\<lparr>io_trace := t\<rparr>) = port_ready s"
  by (rule ext) (simp add: port_ready_def)

lemma ports_probed_only_io: "only_io s s' \<Longrightarrow> ports_probed ps n s' = ports_probed ps n s"
  by (auto simp: only_io_def ports_probed_def)

text \<open>The driver changes nothing but the port table, the primary port and the trace.\<close>

definition serial_only :: "'z serial_state_scheme \<Rightarrow> 'z serial_state_scheme \<Rightarrow> bool" where
  "serial_only s s' \<longleftrightarrow> (\<exists>t ps p. s' = s\<lparr>io_trace := t, com_ports := ps, primary_com_port := p\<rparr>)"

lemma serial_onlyI: "s' = s\<lparr>io_trace := t, com_ports := ps, primary_com_port := p\<rparr> \<Longrightarrow> serial_only s s'"
  unfolding serial_only_def by blast

lemma serial_only_refl [simp]: "serial_only s s"
  by (rule serial_onlyI [where t = "io_trace s" and ps = "com_ports s" and p = "primary_com_port s"]) simp

lemma serial_only_trans: "serial_only s s' \<Longrightarrow> serial_only s' s'' \<Longrightarrow> serial_only s s''"
  unfolding serial_only_def by (elim exE, simp) blast

lemma serial_only_io: "only_io s s' \<Longrightarrow> serial_only s s'"
proof -
  assume "only_io s s'"
  then obtain evs where "s' = s\<lparr>io_trace := io_trace s @ evs\<rparr>" by (auto simp: only_io_def)
  then show ?thesis
    by (intro serial_onlyI [where t = "io_trace s @ evs" and ps = "com_ports s" and p = "primary_com_port s"]) simp
qed

lemma find_append: "find P (xs @ ys) = (case find P xs of None \<Rightarrow> find P ys | Some x \<Rightarrow> Some x)"
  by (induction xs) simp_all

lemma find_first: "find P [0..<n] = (if \<exists>i<n. P i then Some (LEAST i. P i) else None)"
proof (induction n)
  case 0
  then show ?case by simp
next
  case (Suc n)
  have "(LEAST i. P i) = n" if "P n" "\<forall>i<n. \<not> P i"
    using that by (intro Least_equality) (auto simp: not_less [symmetric])
  with Suc show ?case by (auto simp: find_append less_Suc_eq)
qed

lemma console_ready_probed:
  assumes "ports_probed ps n s" "n \<le> length ps" "primary_com_port s \<noteq> None"
    and "\<forall>i<length ps. \<forall>t. sends_eventually E (ps ! i) t"
  shows "console_ready E s"
proof -
  obtain i where i: "primary_com_port s = Some i" using assms(3) by blast
  with assms(1) have "find (port_ready s) [0..<n] = Some i" by (simp add: ports_probed_def)
  then have ready: "port_ready s i" and "i < n" by (auto simp: find_Some_iff)
  have "length (com_ports s) = length ps"
    using assms(1) by (auto simp: ports_probed_def dest: map_eq_imp_length_eq)
  then have "io_port_base (com_ports s ! i) = io_port_base (ps ! i)"
    using assms(1,2) \<open>i < n\<close> nth_map [of i "com_ports s" io_port_base] nth_map [of i ps io_port_base]
    by (simp add: ports_probed_def)
  then have "sends_eventually E (com_ports s ! i) = sends_eventually E (ps ! i)"
    by (rule sends_eventually_base)
  moreover have "i < length ps" using assms(2) \<open>i < n\<close> by simp
  ultimately show ?thesis
    using i ready assms(4) by (auto simp: console_ready_def port_ready_def)
qed

lemma ports_probed_next:
  assumes inv: "ports_probed ps n s" and n: "n < length ps"
    and ports: "com_ports s' = (com_ports s)[n := (com_ports s ! n)\<lparr>port_status := st\<rparr>]"
    and st: "st = COM_PORT_STATUS_READY \<or> st = COM_PORT_STATUS_BROKEN"
    and prim: "primary_com_port s' =
      (if primary_com_port s = None \<and> st = COM_PORT_STATUS_READY then Some n else primary_com_port s)"
  shows "ports_probed ps (Suc n) s'"
proof -
  have bases: "map io_port_base (com_ports s) = map io_port_base ps"
    using inv by (simp add: ports_probed_def)
  then have len: "length (com_ports s) = length ps" by (rule map_eq_imp_length_eq)
  have "map io_port_base (com_ports s') = map io_port_base ps"
    using bases n len nth_map [of n "com_ports s" io_port_base]
    by (simp add: ports map_update list_update_same_conv)
  moreover have ready: "port_ready s' j = (if j = n then st = COM_PORT_STATUS_READY else port_ready s j)"
    for j using n len by (simp add: port_ready_def ports nth_list_update)
  then have "find (port_ready s') [0..<n] = find (port_ready s) [0..<n]"
    by (intro find_cong) auto
  then have "primary_com_port s' = find (port_ready s') [0..<Suc n]"
    using inv prim ready by (simp add: ports_probed_def find_append split: option.splits)
  moreover have "port_ready s' j \<or> port_status (com_ports s' ! j) = COM_PORT_STATUS_BROKEN"
    if "j < Suc n" for j
    using that inv st ready n len
    by (auto simp: ports_probed_def ports nth_list_update less_Suc_eq)
  ultimately show ?thesis by (simp add: ports_probed_def)
qed

lemma detected_renders: "\<exists>t. render (SYSTEM_SERIAL @
    PGOOD (''Detected as working UART com port (IO base %x)'' @ NL)) [VInt v] = Some t"
  by (simp add: colour_defs)

lemma initialised_renders:
  "\<exists>t. render (SYSTEM_SERIAL @ ''Flux serial console initialised!'' @ NL) [] = Some t"
  by (simp add: colour_defs)

text \<open>A port that always returns the test byte.\<close>

definition echoes :: "env \<Rightarrow> com_port \<Rightarrow> bool" where
  "echoes E p \<longleftrightarrow> (\<forall>t. port_value E t (io_port_base p) = 0xc4)"

lemma port_ready_set:
  assumes "com_ports s' = (com_ports s)[n := (com_ports s ! n)\<lparr>port_status := st\<rparr>]" "n < length (com_ports s)"
  shows "port_ready s' j = (if j = n then st = COM_PORT_STATUS_READY else port_ready s j)"
  using assms by (simp add: port_ready_def nth_list_update)

text \<open>One round of the loop, for a port that fails its test and for one that passes it.\<close>

definition test_answer :: "env \<Rightarrow> nat \<Rightarrow> 'z serial_state_scheme \<Rightarrow> u8" where
  "test_answer E n s = (let base = io_port_base (com_ports s ! n) in
     port_value E (io_trace s @ setup_events base 3) base)"

lemma serial_init_port_broken:
  fixes s :: "'z serial_state_scheme"
  assumes inv: "ports_probed ps n s" and n: "n < length ps" and len: "n < length (com_ports s)"
    and bad: "test_answer E n s \<noteq> 0xc4"
  shows "\<exists>s'. serial_init_port E n s = Some (Ret () s') \<and> ports_probed ps (Suc n) s' \<and> serial_only s s' \<and>
    (\<forall>j<n. port_ready s' j = port_ready s j)"
proof -
  define base where "base = io_port_base (com_ports s ! n)"
  define t where "t = io_trace s @ setup_events base 3"
  define s1 where "s1 = s\<lparr>io_trace := t @ [In base (port_value E t base)],
      com_ports := (com_ports s)[n := (com_ports s ! n)\<lparr>port_status := COM_PORT_STATUS_BROKEN\<rparr>]\<rparr>"
  have "port_value E t base \<noteq> 0xc4" using bad by (simp add: test_answer_def Let_def base_def t_def)
  then have "serial_init_port E n s = Some (Ret () s1)"
    using com_port_setup_eq [of E n 3 s, unfolded Let_def, folded base_def, folded t_def]
    by (simp add: serial_init_port_def andthen_Ret kmon_simps s1_def)
  moreover have "ports_probed ps (Suc n) s1"
    by (rule ports_probed_next [OF inv n, of _ COM_PORT_STATUS_BROKEN])
      (simp_all add: s1_def com_port_statuses)
  moreover have "serial_only s s1"
    by (rule serial_onlyI [where t = "io_trace s1" and ps = "com_ports s1" and p = "primary_com_port s"]) (simp add: s1_def)
  moreover have "\<forall>j<n. port_ready s1 j = port_ready s j"
    using port_ready_set [of s1 s n COM_PORT_STATUS_BROKEN, OF _ len] by (simp add: s1_def)
  ultimately show ?thesis by blast
qed

lemma serial_init_port_working:
  fixes s :: "'z serial_state_scheme"
  assumes inv: "ports_probed ps n s" and n: "n < length ps" and len: "n < length (com_ports s)"
    and live: "\<forall>i<length ps. \<forall>t. sends_eventually E (ps ! i) t" and good: "test_answer E n s = 0xc4"
  shows "\<exists>s'. serial_init_port E n s = Some (Ret () s') \<and> ports_probed ps (Suc n) s' \<and> serial_only s s' \<and>
    (\<forall>j. port_ready s' j = (j = n \<or> port_ready s j))"
proof -
  define base where "base = io_port_base (com_ports s ! n)"
  define t where "t = io_trace s @ setup_events base 3"
  define s1 where "s1 = s\<lparr>io_trace := t @ [In base (port_value E t base), Out (base + 4) 0x0f],
      com_ports := (com_ports s)[n := (com_ports s ! n)\<lparr>port_status := COM_PORT_STATUS_READY\<rparr>]\<rparr>"
  define s2 where "s2 = (if primary_com_port s = None then s1\<lparr>primary_com_port := Some n\<rparr> else s1)"
  have "port_value E t base = 0xc4" using good by (simp add: test_answer_def Let_def base_def t_def)
  then have s1: "com_port_setup E n 3 s = Some (Ret 0 s1)"
    using com_port_setup_eq [of E n 3 s, unfolded Let_def, folded base_def, folded t_def] by (simp add: s1_def)
  have probed: "ports_probed ps (Suc n) s2"
    by (rule ports_probed_next [OF inv n, of _ COM_PORT_STATUS_READY]) (simp_all add: s1_def s2_def)
  have "primary_com_port s2 \<noteq> None" by (simp add: s1_def s2_def)
  then have "console_ready E s2"
    using console_ready_probed [OF probed _ _ live] n by simp
  then obtain s3 where s3: "printk E (SYSTEM_SERIAL @
      PGOOD (''Detected as working UART com port (IO base %x)'' @ NL))
        [VInt (ucast (io_port_base (com_ports s2 ! n)))] s2 = Some (Ret () s3)" "only_io s2 s3"
    using printk_ready detected_renders by blast
  have prim: "primary_com_port s1 = primary_com_port s" by (simp add: s1_def)
  have "serial_init_port E n s = Some (Ret () s3)"
    using s3(1)
    by (cases "primary_com_port s") (simp_all add: serial_init_port_def s1 kmon_simps prim s2_def)
  moreover have "serial_only s s2"
    by (rule serial_onlyI [where t = "io_trace s2" and ps = "com_ports s2" and p = "primary_com_port s2"]) (simp add: s1_def s2_def)
  moreover have "port_ready s2 j = (j = n \<or> port_ready s j)" for j
    using port_ready_set [of s2 s n COM_PORT_STATUS_READY, OF _ len] by (simp add: s2_def s1_def)
  moreover have "port_ready s3 = port_ready s2" using s3(2) by (auto simp: only_io_def)
  ultimately show ?thesis
    using probed ports_probed_only_io [OF s3(2)] serial_only_trans [OF _ serial_only_io [OF s3(2)]] by auto
qed

lemma serial_init_port_step:
  assumes inv: "ports_probed ps n s" and n: "n < length ps"
    and live: "\<forall>i<length ps. \<forall>t. sends_eventually E (ps ! i) t"
  shows "\<exists>s'. serial_init_port E n s = Some (Ret () s') \<and> ports_probed ps (Suc n) s' \<and> serial_only s s' \<and>
    (\<forall>j<n. port_ready s' j = port_ready s j) \<and> (echoes E (ps ! n) \<longrightarrow> port_ready s' n)"
proof -
  have bases: "map io_port_base (com_ports s) = map io_port_base ps" using inv by (simp add: ports_probed_def)
  then have len: "n < length (com_ports s)" using n by (metis length_map)
  have "io_port_base (com_ports s ! n) = io_port_base (ps ! n)"
    using bases n len nth_map [of n "com_ports s" io_port_base] nth_map [of n ps io_port_base] by simp
  then have "echoes E (ps ! n) \<Longrightarrow> test_answer E n s = 0xc4" by (simp add: echoes_def test_answer_def Let_def)
  then show ?thesis
    using serial_init_port_broken [OF inv n len] serial_init_port_working [OF inv n len live] by fastforce
qed

lemma serial_probe_loop:
  assumes "length (com_ports s) = COM_PORT_COUNT" and "primary_com_port s = None"
    and "\<forall>i<COM_PORT_COUNT. \<forall>t. sends_eventually E (com_ports s ! i) t"
  shows "\<exists>s1. for_each (serial_init_port E) [0..<COM_PORT_COUNT] s = Some (Ret () s1) \<and>
    ports_probed (com_ports s) COM_PORT_COUNT s1 \<and> serial_only s s1 \<and>
    (\<forall>i<COM_PORT_COUNT. echoes E (com_ports s ! i) \<longrightarrow> port_ready s1 i)"
proof -
  let ?I = "\<lambda>n s1. ports_probed (com_ports s) n s1 \<and> serial_only s s1 \<and>
    (\<forall>i<n. echoes E (com_ports s ! i) \<longrightarrow> port_ready s1 i)"
  have "\<exists>s1. for_each (serial_init_port E) [0..<COM_PORT_COUNT] s = Some (Ret () s1) \<and> ?I (length [0..<COM_PORT_COUNT]) s1"
  proof (rule for_each_inv)
    show "?I 0 s" using assms(2) by (simp add: ports_probed_def)
    show "\<exists>s'. serial_init_port E ([0..<COM_PORT_COUNT] ! n) s1 = Some (Ret () s') \<and> ?I (Suc n) s'"
      if n: "n < length [0..<COM_PORT_COUNT]" and inv: "?I n s1" for n s1
    proof -
      obtain s' where "serial_init_port E n s1 = Some (Ret () s')" "ports_probed (com_ports s) (Suc n) s'"
          "serial_only s1 s'" "\<forall>j<n. port_ready s' j = port_ready s1 j" "echoes E (com_ports s ! n) \<longrightarrow> port_ready s' n"
        using serial_init_port_step [of "com_ports s" n s1 E] inv n assms(1,3) by auto
      then show ?thesis using inv n serial_only_trans [of s s1 s'] by (auto simp: less_Suc_eq)
    qed
  qed
  then show ?thesis by simp
qed

text \<open>C27: choosing the console. Provided every port, if it answers the loopback test,
  becomes ready to send after finitely many polls, \<open>serial_init\<close> never gets lost in a
  busy wait: either it returns with every port classified as ready or broken and the
  first ready one, in table order, as the primary port, on which the console then works;
  or no port is ready and the processor halts. A port that always returns the test byte is
  found ready. Nothing but the ports' status, the primary
  port and the trace changes.\<close>

theorem serial_init_picks_first:
  assumes "length (com_ports s) = COM_PORT_COUNT" and "primary_com_port s = None"
    and "\<forall>i<COM_PORT_COUNT. \<forall>t. sends_eventually E (com_ports s ! i) t"
  shows "\<exists>s'. ports_probed (com_ports s) COM_PORT_COUNT s' \<and> serial_only s s' \<and>
    (\<forall>i<COM_PORT_COUNT. echoes E (com_ports s ! i) \<longrightarrow> port_ready s' i) \<and>
    (if \<exists>i<COM_PORT_COUNT. port_ready s' i
     then serial_init E s = Some (Ret () s') \<and> console_ready E s' \<and>
       primary_com_port s' = Some (LEAST i. port_ready s' i)
     else serial_init E s = Some (Stop Hlt s') \<and> primary_com_port s' = None)"
proof -
  obtain s1 where loop: "for_each (serial_init_port E) [0..<COM_PORT_COUNT] s = Some (Ret () s1)"
      and inv: "ports_probed (com_ports s) COM_PORT_COUNT s1" and only: "serial_only s s1"
      and echo: "\<forall>i<COM_PORT_COUNT. echoes E (com_ports s ! i) \<longrightarrow> port_ready s1 i"
    using serial_probe_loop [OF assms] by blast
  note rest = serial_init_def andthen_Ret [where m = "for_each (serial_init_port E) [0..<COM_PORT_COUNT]",
      OF loop] gets_andthen
  have prim: "primary_com_port s1 = (if \<exists>i<COM_PORT_COUNT. port_ready s1 i
      then Some (LEAST i. port_ready s1 i) else None)"
    using inv by (simp add: ports_probed_def find_first)
  show ?thesis
  proof (cases "\<exists>i<COM_PORT_COUNT. port_ready s1 i")
    case False
    then have none: "primary_com_port s1 = None" using prim by simp
    then have "serial_init E s = Some (Stop Hlt s1)" by (simp add: rest stop_apply)
    then show ?thesis using False inv only none echo by (intro exI [of _ s1]) (simp only: if_False simp_thms)
  next
    case True
    then have found: "primary_com_port s1 = Some (LEAST i. port_ready s1 i)" using prim by simp
    then have "console_ready E s1"
      using console_ready_probed [OF inv] assms(1,3) by simp
    then obtain s2 where s2: "printk E (SYSTEM_SERIAL @ ''Flux serial console initialised!'' @ NL) [] s1 =
        Some (Ret () s2)" "console_ready E s2" "only_io s1 s2"
      using printk_ready initialised_renders by blast
    have same: "port_ready s2 = port_ready s1" "primary_com_port s2 = primary_com_port s1"
      using s2(3) by (auto simp: only_io_def)
    have "serial_init E s = Some (Ret () s2)" using found s2(1) by (simp add: rest)
    then show ?thesis
      using True found s2(2) inv echo ports_probed_only_io [OF s2(3)] same serial_only_trans [OF only serial_only_io [OF s2(3)]]
      by (intro exI [of _ s2]) (simp only: if_True simp_thms)
  qed
qed

text \<open>The eight ports of the kernel on the idle device.\<close>

theorem serial_init_picks_first_witness:
  "\<exists>s'. ports_probed initial_com_ports COM_PORT_COUNT s' \<and>
    (if \<exists>i<COM_PORT_COUNT. port_ready s' i
     then serial_init idle_env \<lparr>io_trace = [], ram = (\<lambda>_. 0), aspace = None,
         com_ports = initial_com_ports, primary_com_port = None\<rparr> = Some (Ret () s')
     else serial_init idle_env \<lparr>io_trace = [], ram = (\<lambda>_. 0), aspace = None,
         com_ports = initial_com_ports, primary_com_port = None\<rparr> = Some (Stop Hlt s'))"
proof -
  let ?s = "\<lparr>io_trace = [], ram = (\<lambda>_. 0), aspace = None, com_ports = initial_com_ports,
    primary_com_port = None\<rparr>"
  have "sends_eventually idle_env (initial_com_ports ! i) t" if "i < COM_PORT_COUNT" for i t
  proof -
    have "\<forall>p \<in> set initial_com_ports. line_stat idle_env p t = 0x60"
      by (simp add: initial_com_ports_def INIT_COM_PORT_def line_stat_def idle_env_def com_port_offsets)
    moreover have "initial_com_ports ! i \<in> set initial_com_ports"
      using that by (intro nth_mem) (simp add: initial_com_ports_def COM_PORT_COUNT_def)
    ultimately show ?thesis
      unfolding sends_eventually_def by (intro exI [of _ 0]) (simp add: LINE_STAT_THRE_def)
  qed
  then have "\<forall>i<COM_PORT_COUNT. \<forall>t. sends_eventually idle_env (com_ports ?s ! i) t" by simp
  from serial_init_picks_first [OF _ _ this] show ?thesis
    by (auto simp: initial_com_ports_def COM_PORT_COUNT_def split: if_splits)
qed

end
