(* ===== verification/Pmem.thy ===== *)
theory Pmem
  imports Serial_Console
begin

section \<open>Physical memory frames (\<open>arch/x64/mem.c\<close>)\<close>

text \<open>
  The allocator of 4 KiB frames: a linked list threaded through the free frames
  themselves, the link in the first eight bytes of each. \<open>Kernel_Map\<close> holds the rest of
  \<open>mem.c\<close>, which needs the page tables. A \<open>struct frame_marker *\<close> is an address, NULL
  is 0.

  The specification of the allocator is a list of frames: taking one removes the head,
  giving one back puts it in front. The locale \<open>frame_pool\<close> is that contract.
\<close>

record pmem_state = serial_state +
  first_page_frame :: u64
  n_free_page_frames :: u64

text \<open>Linking a frame in front of the list, as the loop of \<open>find_free_frames\<close> and
  \<open>put_phys_block\<close> both do.\<close>

definition link_frame :: "env \<Rightarrow> u64 \<Rightarrow> (unit, 'z pmem_state_scheme) kmon" where
  "link_frame E new_block =
     andthen (gets first_page_frame) (\<lambda>p.
     andthen (store64 E new_block p) (\<lambda>_.
     modify (\<lambda>s. s\<lparr>first_page_frame := new_block\<rparr>)))"

text \<open>The counter is an \<open>unsigned long\<close>, the function returns an \<open>int\<close>.\<close>

definition find_free_frames :: "env \<Rightarrow> (u32, 'z pmem_state_scheme) kmon" where
  "find_free_frames E = deref (memmap_response E) (\<lambda>resp.
     andthen (with_local (0 :: u64) (for_each (\<lambda>entry.
       when_do (memmap_type entry = LIMINE_MEMMAP_USABLE)
         (for_step 4096 (memmap_length entry) (\<lambda>b_offset.
            andthen (on_state (link_frame E (memmap_base entry + b_offset))) (\<lambda>_.
            set_local (\<lambda>r. r + 1))) 0))
       (memmap_entries resp))) (\<lambda>r.
     ret (ucast r)))"

definition get_phys_block :: "env \<Rightarrow> (u64, 'z pmem_state_scheme) kmon" where
  "get_phys_block E =
     andthen (gets first_page_frame) (\<lambda>r.
     andthen (ASSERT E (''arch/x64/mem.c'', 136, ''get_phys_block'') ''ret != NULL'' (r \<noteq> 0)) (\<lambda>_.
     andthen (gets first_page_frame) (\<lambda>p.
     andthen (load64 E p) (\<lambda>next_frame.
     andthen (modify (\<lambda>s. s\<lparr>first_page_frame := next_frame\<rparr>)) (\<lambda>_.
     andthen (when_do DEBUG_SHOW_PMEM_ALLOCATIONS
       (printk E (SYSTEM_PMEM @ ''Allocated new physical block at 0x%p'' @ NL) [VInt r])) (\<lambda>_.
     andthen (modify (\<lambda>s. s\<lparr>n_free_page_frames := n_free_page_frames s - 1\<rparr>)) (\<lambda>_.
     ret r)))))))"

definition put_phys_block :: "env \<Rightarrow> u64 \<Rightarrow> (unit, 'z pmem_state_scheme) kmon" where
  "put_phys_block E b_addr =
     andthen (link_frame E b_addr) (\<lambda>_.
     modify (\<lambda>s. s\<lparr>n_free_page_frames := n_free_page_frames s + 1\<rparr>))"

definition get_consecutive_phys_blocks :: "env \<Rightarrow> u32 \<Rightarrow> (u64, 'z pmem_state_scheme) kmon" where
  "get_consecutive_phys_blocks E n =
     andthen (ERROR E (''arch/x64/mem.c'', 158, ''get_consecutive_phys_blocks'')
       ''Function not implemented!'') (\<lambda>_. stop Undefined)"

subsection \<open>The list threaded through memory\<close>

fun free_list :: "ram \<Rightarrow> u64 \<Rightarrow> u64 list \<Rightarrow> bool" where
  "free_list m h [] \<longleftrightarrow> h = 0"
| "free_list m h (f # fs) \<longleftrightarrow> h = f \<and> f \<noteq> 0 \<and> frame_addr f \<and> free_list m (rd64 m f) fs"

lemma frame_aligned_8 [simp]: "frame_addr f \<Longrightarrow> aligned 8 f"
  by (rule aligned_weaken [of 8 4096]) simp_all

lemma free_list_frames: "free_list m h fs \<Longrightarrow> f \<in> set fs \<Longrightarrow> f \<noteq> 0 \<and> frame_addr f"
  by (induction fs arbitrary: h) auto

lemma free_list_0 [simp]: "free_list m 0 fs \<longleftrightarrow> fs = []"
  by (cases fs) auto

lemma free_list_write:
  assumes "aligned 8 a" "a \<notin> set fs"
  shows "free_list (wr64 m a v) h fs = free_list m h fs"
  using assms(2)
proof (induction fs arbitrary: h)
  case Nil
  show ?case by simp
next
  case (Cons f fs)
  have IH: "free_list (wr64 m a v) k fs = free_list m k fs" for k
    using Cons.prems by (intro Cons.IH) simp
  have "rd64 (wr64 m a v) f = rd64 m f" if "frame_addr f"
    using Cons.prems assms(1) frame_aligned_8 [OF that] by (intro rd64_wr64_other) simp_all
  then show ?case by (simp only: free_list.simps IH cong: conj_cong)
qed

text \<open>A head address determines its list, so no frame is on it twice.\<close>

lemma free_list_unique: "free_list m h fs \<Longrightarrow> free_list m h gs \<Longrightarrow> fs = gs"
proof (induction fs arbitrary: h gs)
  case (Cons f fs)
  then show ?case by (cases gs) auto
qed simp

lemma free_list_suffix: "free_list m h (fs @ f # gs) \<Longrightarrow> free_list m f (f # gs)"
  by (induction fs arbitrary: h) auto

lemma free_list_distinct: "free_list m h fs \<Longrightarrow> distinct fs"
proof (induction fs arbitrary: h)
  case (Cons f fs)
  have "f \<notin> set fs"
  proof
    assume "f \<in> set fs"
    then obtain as bs where fs: "fs = as @ f # bs" by (auto dest: split_list)
    have "free_list m f (f # fs)" using Cons.prems by simp
    moreover have "free_list m f (f # bs)"
      using Cons.prems free_list_suffix [of m h "f # as" f bs] by (simp add: fs)
    ultimately have "f # fs = f # bs" by (rule free_list_unique)
    then show False by (simp add: fs)
  qed
  with Cons show ?case by auto
qed simp

subsection \<open>The invariant while the boot loader's page tables are loaded\<close>

text \<open>A frame the kernel can use: not at NULL, page aligned, below the limit of a page
  table entry, and mapped to itself by the boot loader, which Limine documents for the
  first 4 GiB and for the memory it reports.\<close>

definition frame_ok :: "env \<Rightarrow> u64 \<Rightarrow> bool" where
  "frame_ok E f \<longleftrightarrow> f \<noteq> 0 \<and> frame_addr f \<and> (\<forall>i<512. boot_map E (slot f i) = Some (slot f i))"

definition pmem_ok :: "env \<Rightarrow> 'z pmem_state_scheme \<Rightarrow> u64 list \<Rightarrow> bool" where
  "pmem_ok E s fs \<longleftrightarrow> aspace s = None \<and> free_list (ram s) (first_page_frame s) fs \<and>
     (\<forall>f \<in> set fs. frame_ok E f) \<and> n_free_page_frames s = of_nat (length fs)"

lemma frame_ok_addr: "frame_ok E f \<Longrightarrow> frame_addr f"
  and frame_ok_nonzero: "frame_ok E f \<Longrightarrow> f \<noteq> 0"
  and frame_ok_slot: "frame_ok E f \<Longrightarrow> i < 512 \<Longrightarrow> boot_map E (slot f i) = Some (slot f i)"
  by (simp_all add: frame_ok_def)

lemma frame_ok_map: "frame_ok E f \<Longrightarrow> boot_map E f = Some f"
  using frame_ok_slot [of E f 0] by simp

lemma boot_load64:
  "aspace s = None \<Longrightarrow> frame_ok E f \<Longrightarrow> i < 512 \<Longrightarrow>
     load64 E (slot f i) s = Some (Ret (rd64 (ram s) (slot f i)) s)"
  by (simp add: load64_def phys_addr_def frame_ok_slot frame_ok_addr)

lemma boot_store64:
  "aspace s = None \<Longrightarrow> frame_ok E f \<Longrightarrow> i < 512 \<Longrightarrow>
     store64 E (slot f i) v s = Some (Ret () (s\<lparr>ram := wr64 (ram s) (slot f i) v\<rparr>))"
  by (simp add: store64_def phys_addr_def frame_ok_slot frame_ok_addr)

lemmas boot_load64_head = boot_load64 [where i = 0, simplified]
lemmas boot_store64_head = boot_store64 [where i = 0, simplified]

lemma pmem_ok_distinct: "pmem_ok E s fs \<Longrightarrow> distinct fs"
  by (auto simp: pmem_ok_def intro: free_list_distinct)

text \<open>Writing to a page that is not free keeps the allocator as it is.\<close>

lemma pmem_ok_write:
  assumes "pmem_ok E s fs" "page_aligned t" "t \<notin> set fs" "i < 512"
  shows "pmem_ok E (s\<lparr>ram := wr64 (ram s) (slot t i) v\<rparr>) fs"
proof -
  have "slot t i \<notin> set fs"
  proof
    assume h: "slot t i \<in> set fs"
    then have "page_aligned (slot t i)"
      using assms(1) free_list_frames by (auto simp: pmem_ok_def)
    with assms have "t = slot t i" using slot_eq_iff [of t "slot t i" i 0] by simp
    with h assms(3) show False by simp
  qed
  with assms show ?thesis by (simp add: pmem_ok_def free_list_write)
qed

subsection \<open>Taking and giving back one frame\<close>

lemma get_phys_block_eq:
  assumes "pmem_ok E s (f # fs)"
  shows "get_phys_block E s = Some (Ret f (s\<lparr>first_page_frame := rd64 (ram s) f,
     n_free_page_frames := n_free_page_frames s - 1\<rparr>))"
proof -
  have f: "first_page_frame s = f" "f \<noteq> 0" "frame_ok E f" "aspace s = None"
    using assms by (auto simp: pmem_ok_def)
  then show ?thesis
    by (simp add: get_phys_block_def kmon_simps boot_load64_head)
qed

lemma pmem_ok_taken:
  assumes "pmem_ok E s (f # fs)"
  shows "pmem_ok E (s\<lparr>first_page_frame := rd64 (ram s) f,
     n_free_page_frames := n_free_page_frames s - 1\<rparr>) fs"
  using assms by (simp add: pmem_ok_def)

lemma ASSERT_False_Ret: "ASSERT E loc txt False s \<noteq> Some (Ret a s')"
  by (simp add: ASSERT_def andthen_eq_Ret stop_apply)

lemma get_phys_block_null:
  assumes "first_page_frame s = 0" and "console_ready E s"
  shows "\<exists>s'. get_phys_block E s = Some (Stop Spin s') \<and> only_io s s' \<and> console_out s' = console_out s @
    trace_text (''arch/x64/mem.c'', 136, ''get_phys_block'') (PBAD ''Assertion (ret != NULL) failed'')"
proof -
  have "CHR ''%'' \<notin> set ''ret != NULL''" by simp
  from ASSERT_False_ready [OF assms(2) this, of "(''arch/x64/mem.c'', 136, ''get_phys_block'')"]
  obtain s' where "ASSERT E (''arch/x64/mem.c'', 136, ''get_phys_block'') ''ret != NULL'' False s =
      Some (Stop Spin s')" "only_io s s'" "console_out s' = console_out s @
      trace_text (''arch/x64/mem.c'', 136, ''get_phys_block'')
        (PBAD (''Assertion ('' @ ''ret != NULL'' @ '') failed''))" by blast
  with assms(1) show ?thesis
    by (simp add: get_phys_block_def kmon_simps)
qed

lemma get_phys_block_empty:
  assumes "pmem_ok E s []" and "console_ready E s"
  shows "\<exists>s'. get_phys_block E s = Some (Stop Spin s') \<and> only_io s s' \<and> console_out s' = console_out s @
    trace_text (''arch/x64/mem.c'', 136, ''get_phys_block'') (PBAD ''Assertion (ret != NULL) failed'')"
  using assms get_phys_block_null [of s E] by (simp add: pmem_ok_def)

lemma link_frame_eq:
  assumes "aspace s = None" "frame_ok E f"
  shows "link_frame E f s = Some (Ret () (s\<lparr>ram := wr64 (ram s) f (first_page_frame s),
     first_page_frame := f\<rparr>))"
  using assms by (simp add: link_frame_def kmon_simps boot_store64_head)

lemma free_list_linked:
  assumes "free_list m h fs" "f \<noteq> 0" "frame_addr f" "f \<notin> set fs"
  shows "free_list (wr64 m f h) f (f # fs)"
  using assms by (simp add: rd64_wr64_same free_list_write)

lemma put_phys_block_eq:
  assumes "aspace s = None" "frame_ok E f"
  shows "put_phys_block E f s = Some (Ret () (s\<lparr>ram := wr64 (ram s) f (first_page_frame s),
     first_page_frame := f, n_free_page_frames := n_free_page_frames s + 1\<rparr>))"
  using link_frame_eq [OF assms] by (simp add: put_phys_block_def kmon_simps)

lemma pmem_ok_given:
  assumes "pmem_ok E s fs" "frame_ok E f" "f \<notin> set fs"
  shows "pmem_ok E (s\<lparr>ram := wr64 (ram s) f (first_page_frame s), first_page_frame := f,
     n_free_page_frames := n_free_page_frames s + 1\<rparr>) (f # fs)"
  using assms frame_ok_addr [OF assms(2)] frame_ok_nonzero [OF assms(2)]
  by (simp add: pmem_ok_def rd64_wr64_same free_list_write)

subsection \<open>The contract of a frame allocator\<close>

text \<open>
  What callers rely on: \<open>get\<close> hands out the first frame of the pool, \<open>put\<close> adds the
  frame it is given, writing to the frames that were handed out does not concern the
  allocator. The facts about sequences of calls follow from these laws alone.
\<close>

locale frame_pool =
  fixes get :: "(u64, 's) kmon" and put :: "u64 \<Rightarrow> (unit, 's) kmon" and poke :: "u64 \<Rightarrow> u64 \<Rightarrow> u64 \<Rightarrow> (unit, 's) kmon"
    and pool :: "'s \<Rightarrow> u64 list \<Rightarrow> bool" and usable :: "u64 \<Rightarrow> bool"
  assumes pool_distinct: "pool s fs \<Longrightarrow> distinct fs"
    and pool_usable: "pool s fs \<Longrightarrow> f \<in> set fs \<Longrightarrow> usable f"
    and pool_unique: "pool s fs \<Longrightarrow> pool s gs \<Longrightarrow> fs = gs"
    and get_empty: "pool s [] \<Longrightarrow> get s \<noteq> Some (Ret f s')"
    and get_first: "pool s (f # fs) \<Longrightarrow> \<exists>s'. get s = Some (Ret f s') \<and> pool s' fs"
    and put_back: "pool s fs \<Longrightarrow> usable f \<Longrightarrow> f \<notin> set fs \<Longrightarrow>
      \<exists>s'. put f s = Some (Ret () s') \<and> pool s' (f # fs)"
    and poke_held: "pool s fs \<Longrightarrow> usable f \<Longrightarrow> f \<notin> set fs \<Longrightarrow> i < 512 \<Longrightarrow>
      \<exists>s'. poke f i v s = Some (Ret () s') \<and> pool s' fs"
begin

lemma get_cases:
  assumes "pool s fs" and "get s = Some (Ret f s')"
  obtains gs where "fs = f # gs" and "pool s' gs"
  using assms get_empty get_first by (cases fs) fastforce+

lemma put_cases:
  assumes "pool s fs" "usable f" "f \<notin> set fs" and "put f s = Some (Ret () s')"
  shows "pool s' (f # fs)"
  using put_back [OF assms(1-3)] assms(4) by auto

lemma poke_cases:
  assumes "pool s fs" "usable f" "f \<notin> set fs" "i < 512" and "poke f i v s = Some (Ret () s')"
  shows "pool s' fs"
  using poke_held [OF assms(1-4), of v] assms(5) by auto

text \<open>Giving back the frame that was just taken restores the pool.\<close>

lemma put_get: "pool s (f # fs) \<Longrightarrow> \<exists>s1 s2. get s = Some (Ret f s1) \<and> put f s1 = Some (Ret () s2) \<and>
    pool s2 (f # fs)"
  using get_first [of s f fs] pool_usable [of s "f # fs" f] pool_distinct [of s "f # fs"]
    put_back [of _ fs f] by fastforce

text \<open>What is free and what is held stay a partition of the frames there were.\<close>

definition owned :: "u64 set \<Rightarrow> 's \<Rightarrow> u64 set \<Rightarrow> bool" where
  "owned U s H \<longleftrightarrow> (\<exists>fs. pool s fs \<and> set fs \<inter> H = {} \<and> set fs \<union> H = U \<and> (\<forall>f \<in> U. usable f))"

lemma owned_start: "pool s fs \<Longrightarrow> owned (set fs) s {}"
  using pool_usable by (auto simp: owned_def)

lemma owned_get: "owned U s H \<Longrightarrow> get s = Some (Ret f s') \<Longrightarrow> f \<notin> H \<and> owned U s' (insert f H)"
proof -
  assume "owned U s H" and g: "get s = Some (Ret f s')"
  then obtain fs where fs: "pool s fs" "set fs \<inter> H = {}" "set fs \<union> H = U" "\<forall>f \<in> U. usable f"
    by (auto simp: owned_def)
  obtain gs where gs: "fs = f # gs" "pool s' gs" using get_cases [OF fs(1) g] by blast
  moreover have "f \<notin> set gs" using pool_distinct [OF fs(1)] gs(1) by simp
  ultimately show ?thesis using fs(2-4) by (auto simp: owned_def intro!: exI [of _ gs])
qed

lemma owned_put: "owned U s H \<Longrightarrow> f \<in> H \<Longrightarrow> put f s = Some (Ret () s') \<Longrightarrow> owned U s' (H - {f})"
proof -
  assume "owned U s H" and f: "f \<in> H" "put f s = Some (Ret () s')"
  then obtain fs where fs: "pool s fs" "set fs \<inter> H = {}" "set fs \<union> H = U" "\<forall>f \<in> U. usable f"
    by (auto simp: owned_def)
  then have "pool s' (f # fs)" using put_cases [OF fs(1) _ _ f(2)] f(1) by blast
  then show ?thesis using fs(2-4) f(1) by (auto simp: owned_def intro!: exI [of _ "f # fs"])
qed

lemma owned_poke: "owned U s H \<Longrightarrow> f \<in> H \<Longrightarrow> i < 512 \<Longrightarrow> poke f i v s = Some (Ret () s') \<Longrightarrow> owned U s' H"
  unfolding owned_def using poke_cases by (metis IntI Un_iff emptyE)

end

lemma get_phys_block_none: "pmem_ok E s [] \<Longrightarrow> get_phys_block E s \<noteq> Some (Ret f s')"
  by (auto simp: pmem_ok_def get_phys_block_def gets_andthen andthen_eq_Ret ASSERT_False_Ret)

lemma put_phys_block_ok:
  assumes "pmem_ok E s fs" "frame_ok E f" "f \<notin> set fs"
  shows "\<exists>s'. put_phys_block E f s = Some (Ret () s') \<and> pmem_ok E s' (f # fs)"
  by (rule exI, rule conjI, rule put_phys_block_eq [OF _ assms(2)], rule_tac [2] pmem_ok_given [OF assms])
    (use assms(1) in \<open>simp add: pmem_ok_def\<close>)

lemma store64_ok:
  assumes "pmem_ok E s fs" "frame_ok E f" "f \<notin> set fs" "i < 512"
  shows "\<exists>s'. store64 E (slot f i) v s = Some (Ret () s') \<and> pmem_ok E s' fs"
  by (rule exI, rule conjI, rule boot_store64 [OF _ assms(2,4)],
      rule_tac [2] pmem_ok_write [OF assms(1) _ assms(3,4)])
    (use assms(1,2) in \<open>simp_all add: pmem_ok_def frame_ok_addr\<close>)

interpretation frames: frame_pool "get_phys_block E" "put_phys_block E" "\<lambda>f i. store64 E (slot f i)"
    "pmem_ok E" "frame_ok E" for E
proof unfold_locales
  fix s :: "'a pmem_state_scheme" and fs gs f s' i v
  show "pmem_ok E s fs \<Longrightarrow> distinct fs" by (rule pmem_ok_distinct)
  show "pmem_ok E s fs \<Longrightarrow> f \<in> set fs \<Longrightarrow> frame_ok E f" by (simp add: pmem_ok_def)
  show "pmem_ok E s fs \<Longrightarrow> pmem_ok E s gs \<Longrightarrow> fs = gs"
    by (auto simp: pmem_ok_def intro: free_list_unique)
  show "pmem_ok E s [] \<Longrightarrow> get_phys_block E s \<noteq> Some (Ret f s')" by (rule get_phys_block_none)
  show "pmem_ok E s (f # fs) \<Longrightarrow> \<exists>s'. get_phys_block E s = Some (Ret f s') \<and> pmem_ok E s' fs"
    using get_phys_block_eq pmem_ok_taken by blast
  show "pmem_ok E s fs \<Longrightarrow> frame_ok E f \<Longrightarrow> f \<notin> set fs \<Longrightarrow>
      \<exists>s'. put_phys_block E f s = Some (Ret () s') \<and> pmem_ok E s' (f # fs)"
    by (rule put_phys_block_ok)
  show "pmem_ok E s fs \<Longrightarrow> frame_ok E f \<Longrightarrow> f \<notin> set fs \<Longrightarrow> i < 512 \<Longrightarrow>
      \<exists>s'. store64 E (slot f i) v s = Some (Ret () s') \<and> pmem_ok E s' fs"
    by (rule store64_ok)
qed

subsection \<open>Collecting the free frames\<close>

definition entry_frames :: "limine_memmap_entry \<Rightarrow> u64 list" where
  "entry_frames e = map (\<lambda>b. memmap_base e + b) (step_range 4096 0 (memmap_length e))"

definition usable_frames :: "limine_memmap_response \<Rightarrow> u64 list" where
  "usable_frames resp = concat (map entry_frames
     (filter (\<lambda>e. memmap_type e = LIMINE_MEMMAP_USABLE) (memmap_entries resp)))"

lemma in_entry_frames: "f \<in> set (entry_frames e) \<longleftrightarrow>
    (\<exists>b. 4096 * b < unat (memmap_length e) \<and> f = memmap_base e + of_nat (4096 * b))"
proof -
  have "b < (n + 4096 - 1) div 4096 \<longleftrightarrow> 4096 * b < n" for b n :: nat
    using less_eq_div_iff_mult_less_eq [of 4096 "Suc b" "n + 4096 - 1"] by (simp add: Suc_le_eq) linarith
  then have "(unat (memmap_length e) + 4096 - 1) div 4096 > b \<longleftrightarrow> 4096 * b < unat (memmap_length e)"
    for b by blast
  moreover have "(4096 :: u64) * of_nat b = of_nat (4096 * b)" for b by simp
  ultimately show ?thesis
    unfolding entry_frames_def step_range_def by (auto simp: image_iff simp del: of_nat_mult)
qed

lemma in_usable_frames: "f \<in> set (usable_frames resp) \<longleftrightarrow>
    (\<exists>e \<in> set (memmap_entries resp). \<exists>b. memmap_type e = LIMINE_MEMMAP_USABLE \<and>
       4096 * b < unat (memmap_length e) \<and> f = memmap_base e + of_nat (4096 * b))"
  unfolding usable_frames_def by (simp only: set_concat set_map set_filter) (auto simp: in_entry_frames)

lemma ucast_of_nat_32: "ucast (of_nat n :: u64) = (of_nat n :: u32)"
  by (rule bit_word_eqI) (auto simp: bit_pack_simps bit_of_nat_iff)

text \<open>What Limine documents of its memory map: usable entries are page aligned, do not
  overlap and do not hold page 0.\<close>

definition memory_map_ok :: "env \<Rightarrow> limine_memmap_response \<Rightarrow> bool" where
  "memory_map_ok E resp \<longleftrightarrow> distinct (usable_frames resp) \<and>
     (\<forall>f \<in> set (usable_frames resp). frame_ok E f) \<and>
     (\<forall>e \<in> set (memmap_entries resp). memmap_type e = LIMINE_MEMMAP_USABLE \<longrightarrow>
        unat (memmap_length e) + 4096 \<le> 2 ^ 64)"

definition linked :: "u64 \<Rightarrow> 'z pmem_state_scheme \<Rightarrow> 'z pmem_state_scheme" where
  "linked f s = s\<lparr>ram := wr64 (ram s) f (first_page_frame s), first_page_frame := f\<rparr>"

lemma linked_simps [simp]: "aspace (linked f s) = aspace s" "first_page_frame (linked f s) = f"
  "ram (linked f s) = wr64 (ram s) f (first_page_frame s)" "com_ports (linked f s) = com_ports s"
  "io_trace (linked f s) = io_trace s" "primary_com_port (linked f s) = primary_com_port s"
  by (simp_all add: linked_def)

lemma free_list_fold_linked:
  assumes "free_list (ram s) (first_page_frame s) fs" "distinct (xs @ fs)"
    and "\<forall>f \<in> set xs. f \<noteq> 0 \<and> frame_addr f"
  shows "free_list (ram (fold linked xs s)) (first_page_frame (fold linked xs s)) (rev xs @ fs)"
  using assms
proof (induction xs arbitrary: s fs)
  case (Cons x xs)
  have "free_list (ram (linked x s)) (first_page_frame (linked x s)) (x # fs)"
    using Cons.prems free_list_linked [of "ram s" "first_page_frame s" fs x] by simp
  from Cons.IH [OF this] Cons.prems show ?case by simp
qed simp

lemma fold_linked_other:
  assumes "\<forall>f \<in> set xs. frame_addr f" "aligned 8 a" "a \<notin> set xs"
  shows "rd64 (ram (fold linked xs s)) a = rd64 (ram s) a"
  using assms
proof (induction xs arbitrary: s)
  case (Cons x xs)
  have "rd64 (ram (linked x s)) a = rd64 (ram s) a"
    using Cons.prems rd64_wr64_other [of x a] by (auto simp: eq_commute [of x a])
  with Cons show ?case by simp
qed simp

lemma fold_linked_same:
  "aspace (fold linked xs s) = aspace s \<and> com_ports (fold linked xs s) = com_ports s \<and>
   io_trace (fold linked xs s) = io_trace s \<and> primary_com_port (fold linked xs s) = primary_com_port s"
  by (induction xs arbitrary: s) simp_all

lemma find_free_frames_run:
  assumes "memmap_response E = Some resp" and "aspace s = None" and ok: "memory_map_ok E resp"
  shows "find_free_frames E s = Some (Ret (ucast (of_nat (length (usable_frames resp)) :: u64))
    (fold linked (usable_frames resp) s))"
proof -
  let ?fs = "usable_frames resp"
  define body where "body f = andthen (on_state (link_frame E f :: (unit, 'a pmem_state_scheme) kmon))
      (\<lambda>_. set_local (\<lambda>r :: u64. r + 1))" for f
  let ?entry = "\<lambda>entry. when_do (memmap_type entry = LIMINE_MEMMAP_USABLE)
      (for_step 4096 (memmap_length entry) (\<lambda>b_offset. body (memmap_base entry + b_offset)) 0)"
  have "?entry e = when_do (memmap_type e = LIMINE_MEMMAP_USABLE) (for_each body (entry_frames e))"
    if "e \<in> set (memmap_entries resp)" for e
  proof (cases "memmap_type e = LIMINE_MEMMAP_USABLE")
    case True
    with that ok have "unat (memmap_length e) + 4096 \<le> 2 ^ 64" by (simp add: memory_map_ok_def)
    then have "for_step 4096 (memmap_length e) (\<lambda>b. body (memmap_base e + b)) 0 =
        for_each (\<lambda>b. body (memmap_base e + b)) (step_range 4096 0 (memmap_length e))"
      by (intro ext for_step_for_each) simp_all
    then show ?thesis by (simp add: entry_frames_def for_each_map)
  qed simp
  then have all: "for_each ?entry (memmap_entries resp) = for_each body ?fs"
    by (subst for_each_cong) (auto simp: for_each_concat usable_frames_def)
  have "for_each body ?fs (0, s) = Some (Ret () (fold (\<lambda>f (r, s). (r + 1, linked f s)) ?fs (0, s))) \<and>
      aspace (snd (fold (\<lambda>f (r, s). (r + 1, linked f s)) ?fs (0 :: u64, s))) = None"
    by (rule for_each_pure_on [where P = "\<lambda>(r, s). aspace s = None", unfolded case_prod_unfold])
      (use ok assms(2) in \<open>auto simp: body_def kmon_simps link_frame_eq linked_def memory_map_ok_def\<close>)
  moreover have "fold (\<lambda>f (r, s). (r + 1, linked f s)) xs (r, s) = (r + of_nat (length xs), fold linked xs s)"
    for xs and r :: u64 and s :: "'a pmem_state_scheme"
    by (induction xs arbitrary: r s) simp_all
  ultimately have "for_each ?entry (memmap_entries resp) (0, s) =
      Some (Ret () (of_nat (length ?fs), fold linked ?fs s))" by (simp add: all)
  then have "with_local 0 (for_each ?entry (memmap_entries resp)) s =
      Some (Ret (of_nat (length ?fs)) (fold linked ?fs s))" by (rule with_local_Ret)
  then show ?thesis
    by (simp add: find_free_frames_def assms(1) body_def andthen_Ret kmon_simps)
qed

subsection \<open>Clients of the allocator\<close>

text \<open>
  One step of kernel code that uses frames while the boot loader's tables are loaded: take
  a frame, give back one it holds, write any word of one it holds. \<open>H\<close> is the set of the
  frames it holds.
\<close>

inductive client_step :: "env \<Rightarrow> 'z pmem_state_scheme \<times> u64 set \<Rightarrow> 'z pmem_state_scheme \<times> u64 set \<Rightarrow> bool"
  for E where
  take_frame: "get_phys_block E s = Some (Ret f s') \<Longrightarrow> client_step E (s, H) (s', insert f H)"
| give_frame: "f \<in> H \<Longrightarrow> put_phys_block E f s = Some (Ret () s') \<Longrightarrow>
    client_step E (s, H) (s', H - {f})"
| write_frame: "f \<in> H \<Longrightarrow> i < 512 \<Longrightarrow> store64 E (slot f i) v s = Some (Ret () s') \<Longrightarrow>
    client_step E (s, H) (s', H)"

inductive_cases client_stepE: "client_step E x y"

lemma client_step_owned:
  assumes "client_step E x y" and "frames.owned E U (fst x) (snd x)"
  shows "frames.owned E U (fst y) (snd y)"
  using assms by (auto elim!: client_stepE dest: frames.owned_get frames.owned_put frames.owned_poke)

lemma client_steps_owned:
  "(client_step E)\<^sup>*\<^sup>* x y \<Longrightarrow> frames.owned E U (fst x) (snd x) \<Longrightarrow> frames.owned E U (fst y) (snd y)"
  by (induction rule: rtranclp_induct) (auto dest: client_step_owned)

section \<open>Properties\<close>

text \<open>C22: \<open>get_phys_block\<close> on a list of free frames \<open>fs\<close>. It returns the first frame and
  leaves the others free, changing nothing but the head and the counter; when no frame is
  left it prints that its assertion failed, with its place, and hangs.\<close>

theorem get_phys_block_takes:
  assumes "pmem_ok E s fs" and "console_ready E s"
  shows "case fs of
      f # rest \<Rightarrow> \<exists>h. get_phys_block E s = Some (Ret f (s\<lparr>first_page_frame := h,
          n_free_page_frames := of_nat (length rest)\<rparr>)) \<and>
        pmem_ok E (s\<lparr>first_page_frame := h, n_free_page_frames := of_nat (length rest)\<rparr>) rest
    | [] \<Rightarrow> \<exists>s'. get_phys_block E s = Some (Stop Spin s') \<and> ram s' = ram s \<and>
        console_out s' = console_out s @ trace_text (''arch/x64/mem.c'', 136, ''get_phys_block'')
          (PBAD ''Assertion (ret != NULL) failed'')"
proof (cases fs)
  case Nil
  then show ?thesis
    using get_phys_block_empty [of E s] assms by (auto simp: only_io_def simp del: free_list.simps)
next
  case (Cons f rest)
  then have "n_free_page_frames s - 1 = of_nat (length rest)"
    using assms(1) by (simp add: pmem_ok_def)
  then show ?thesis
    using get_phys_block_eq [of E s f rest] pmem_ok_taken [of E s f rest] assms(1)
    by (auto simp: Cons intro!: exI [of _ "rd64 (ram s) f"])
qed

text \<open>A concrete allocator with two free frames, for witnesses.\<close>

definition two_frames :: pmem_state where
  "two_frames = \<lparr>io_trace = [], ram = wr64 (\<lambda>_. 0) 0x3000 0x8000, aspace = None,
     com_ports = [\<lparr>io_port_base = 0x3f8, port_status = COM_PORT_STATUS_READY\<rparr>],
     primary_com_port = Some 0, first_page_frame = 0x3000, n_free_page_frames = 2\<rparr>"

lemma idle_frame_ok: "frame_ok idle_env f \<longleftrightarrow> f \<noteq> 0 \<and> frame_addr f"
  by (simp add: frame_ok_def idle_env_def)

lemma rd64_zero [simp]: "rd64 (\<lambda>_. 0) a = 0"
  by (simp add: rd64_def)

lemma small_frame [simp]: "frame_addr 0x3000" "frame_addr 0x8000"
  by (simp_all add: frame_addr_def aligned_def)

lemma two_frames_ok: "pmem_ok idle_env two_frames [0x3000, 0x8000]"
proof -
  have "rd64 (wr64 (\<lambda>_. 0) 0x3000 0x8000) 0x8000 = rd64 (\<lambda>_. 0) 0x8000"
    by (rule rd64_wr64_other) simp_all
  then show ?thesis by (simp add: pmem_ok_def two_frames_def idle_frame_ok rd64_wr64_same)
qed

lemma two_frames_ready: "console_ready idle_env two_frames"
  using idle_sends by (auto simp: console_ready_def two_frames_def)

theorem get_phys_block_takes_witness:
  "\<exists>s'. get_phys_block idle_env two_frames = Some (Ret 0x3000 s') \<and> pmem_ok idle_env s' [0x8000] \<and>
     n_free_page_frames s' = 1"
  using get_phys_block_takes [OF two_frames_ok two_frames_ready] by auto

text \<open>C23: taking a frame and giving it back at once restores the whole state, memory
  included; giving back a frame and taking one returns that frame and leaves the state as
  it was, but for the link in that frame's first word.\<close>

theorem get_put_round_trip:
  assumes "pmem_ok E s (f # fs)"
  shows "\<exists>s1. get_phys_block E s = Some (Ret f s1) \<and> put_phys_block E f s1 = Some (Ret () s) \<and>
    (\<forall>g. frame_ok E g \<and> g \<notin> set (f # fs) \<longrightarrow>
       andthen (put_phys_block E g) (\<lambda>_. get_phys_block E) s =
       Some (Ret g (s\<lparr>ram := wr64 (ram s) g f\<rparr>)))"
proof -
  define s1 where "s1 = s\<lparr>first_page_frame := rd64 (ram s) f,
     n_free_page_frames := n_free_page_frames s - 1\<rparr>"
  have f: "frame_ok E f" "aspace s = None" "first_page_frame s = f"
    using assms by (simp_all add: pmem_ok_def)
  have "put_phys_block E f s1 = Some (Ret () s)"
    using f put_phys_block_eq [of s1 E f] by (simp add: s1_def wr64_rd64)
  moreover have "andthen (put_phys_block E g) (\<lambda>_. get_phys_block E) s =
      Some (Ret g (s\<lparr>ram := wr64 (ram s) g f\<rparr>))" if g: "frame_ok E g" "g \<notin> set (f # fs)" for g
    using f get_phys_block_eq [OF pmem_ok_given [OF assms g]]
    by (simp add: put_phys_block_eq [OF f(2) g(1)] kmon_simps rd64_wr64_same)
  ultimately show ?thesis
    using get_phys_block_eq [OF assms] by (intro exI [of _ s1]) (auto simp: s1_def)
qed

theorem get_put_round_trip_witness:
  "\<exists>s1. get_phys_block idle_env two_frames = Some (Ret 0x3000 s1) \<and>
     put_phys_block idle_env 0x3000 s1 = Some (Ret () two_frames)"
  using get_put_round_trip [OF two_frames_ok] by blast

text \<open>C20: no frame is handed out twice. However kernel code takes frames, gives back frames
  it holds and overwrites frames it holds, the free list stays intact, the frames free and
  held together are those there were at the start, none is both, and the next frame handed
  out is one it does not hold.\<close>

theorem no_double_allocation:
  assumes "pmem_ok E s0 fs0" and "(client_step E)\<^sup>*\<^sup>* (s0, {}) (s, H)"
  shows "\<exists>fs. pmem_ok E s fs \<and> set fs \<inter> H = {} \<and> set fs \<union> H = set fs0 \<and>
    (\<forall>f s'. get_phys_block E s = Some (Ret f s') \<longrightarrow> f \<notin> H)"
proof -
  have "frames.owned E (set fs0) s H"
    using client_steps_owned [OF assms(2), of "set fs0"] frames.owned_start [OF assms(1)] by simp
  then show ?thesis
    using frames.owned_get [of E "set fs0" s H] by (auto simp: frames.owned_def)
qed

theorem no_double_allocation_witness:
  "\<exists>s. (client_step idle_env)\<^sup>*\<^sup>* (two_frames, {}) (s, {0x3000}) \<and> (\<exists>fs. pmem_ok idle_env s fs \<and>
     set fs \<union> {0x3000} = {0x3000, 0x8000})"
proof -
  obtain s where s: "get_phys_block idle_env two_frames = Some (Ret 0x3000 s)"
    using get_phys_block_eq [OF two_frames_ok] by blast
  then have "(client_step idle_env)\<^sup>*\<^sup>* (two_frames, {}) (s, {0x3000})"
    by (intro r_into_rtranclp) (rule take_frame)
  then show ?thesis using no_double_allocation [OF two_frames_ok] by fastforce
qed

text \<open>C24: \<open>find_free_frames\<close> on a memory map as Limine documents it, starting from an empty
  list. It returns, the free list then holds each 4 KiB frame of each usable entry
  exactly once (the last one first), the rest of memory is as it was, and the value
  returned is the number of frames, cut to 32 bits.\<close>

theorem find_free_frames_collects:
  assumes "memmap_response E = Some resp" and "memory_map_ok E resp"
    and "aspace s = None" and "first_page_frame s = 0"
  shows "\<exists>s'. find_free_frames E s = Some (Ret (of_nat (length (usable_frames resp))) s') \<and>
    free_list (ram s') (first_page_frame s') (rev (usable_frames resp)) \<and>
    (\<forall>a. aligned 8 a \<longrightarrow> a \<notin> set (usable_frames resp) \<longrightarrow> rd64 (ram s') a = rd64 (ram s) a) \<and>
    (\<forall>f. f \<in> set (usable_frames resp) \<longleftrightarrow> (\<exists>e \<in> set (memmap_entries resp). \<exists>b.
       memmap_type e = LIMINE_MEMMAP_USABLE \<and> 4096 * b < unat (memmap_length e) \<and>
       f = memmap_base e + of_nat (4096 * b)))"
proof -
  let ?s' = "fold linked (usable_frames resp) s"
  have fr: "\<forall>f \<in> set (usable_frames resp). f \<noteq> 0 \<and> frame_addr f"
    using assms(2) by (auto simp: memory_map_ok_def frame_ok_def)
  have "free_list (ram ?s') (first_page_frame ?s') (rev (usable_frames resp))"
    using free_list_fold_linked [of s "[]" "usable_frames resp"] assms(2,4) fr
    by (simp add: memory_map_ok_def)
  moreover have "rd64 (ram ?s') a = rd64 (ram s) a"
    if "aligned 8 a" "a \<notin> set (usable_frames resp)" for a
    using fr that by (intro fold_linked_other) auto
  ultimately show ?thesis
    using find_free_frames_run [OF assms(1,3,2)]
    by (intro exI [of _ ?s'] conjI allI impI in_usable_frames) (simp_all only: ucast_of_nat_32)
qed

text \<open>A memory map with one usable entry of two frames and one reserved entry.\<close>

definition small_memmap :: limine_memmap_response where
  "small_memmap = \<lparr>memmap_revision = 0, memmap_entries =
     [\<lparr>memmap_base = 0x3000, memmap_length = 0x2000, memmap_type = LIMINE_MEMMAP_USABLE\<rparr>,
      \<lparr>memmap_base = 0x8000, memmap_length = 0x1000, memmap_type = LIMINE_MEMMAP_RESERVED\<rparr>]\<rparr>"

definition small_env :: env where
  "small_env = idle_env\<lparr>memmap_response := Some small_memmap\<rparr>"

lemma small_usable: "usable_frames small_memmap = [0x3000, 0x4000]"
proof -
  have "[0..<(unat (0x2000 :: u64) - unat (0 :: u64) + unat (4096 :: u64) - 1) div unat (4096 :: u64)] = [0, 1]"
    by (simp add: upt_rec)
  then show ?thesis
    by (simp add: usable_frames_def small_memmap_def entry_frames_def step_range_def
        LIMINE_MEMMAP_USABLE_def LIMINE_MEMMAP_RESERVED_def)
qed

lemma small_memmap_ok: "memory_map_ok small_env small_memmap"
proof -
  have "frame_addr 0x4000" by (simp add: frame_addr_def aligned_def)
  then show ?thesis
    unfolding memory_map_ok_def small_usable
    by (simp add: frame_ok_def small_env_def idle_env_def small_memmap_def
        LIMINE_MEMMAP_USABLE_def LIMINE_MEMMAP_RESERVED_def)
qed

theorem find_free_frames_collects_witness:
  "\<exists>s'. find_free_frames small_env (two_frames\<lparr>first_page_frame := 0\<rparr>) = Some (Ret 2 s') \<and>
     free_list (ram s') (first_page_frame s') [0x4000, 0x3000]"
proof -
  have m: "memmap_response small_env = Some small_memmap" by (simp add: small_env_def)
  have s: "aspace (two_frames\<lparr>first_page_frame := 0\<rparr>) = None"
    "first_page_frame (two_frames\<lparr>first_page_frame := 0\<rparr>) = 0"
    by (simp_all add: two_frames_def)
  show ?thesis
    using find_free_frames_collects [OF m small_memmap_ok s] by (auto simp: small_usable)
qed

end
