(* ===== verification/Page_Tables.thy ===== *)
theory Page_Tables
  imports Machine "HOL-Library.Sublist"
begin

section \<open>Trees of page tables\<close>

text \<open>
  The shape of the four-level structure, over the \<open>uint64_t\<close> view \<open>w\<close> of memory. A path
  is the list of indices followed from the root: the tables are what paths of at most
  three indices lead to, the pages what paths of four lead to. When the tables form a
  tree (two paths never meet in one table), setting one entry changes what exactly one
  path leads to, and nothing else.
\<close>

type_synonym path = "u64 list"

definition idx_path :: "path \<Rightarrow> bool" where
  "idx_path p \<longleftrightarrow> (\<forall>i \<in> set p. i < 512)"

definition tables :: "(u64 \<Rightarrow> u64) \<Rightarrow> u64 \<Rightarrow> u64 set" where
  "tables w root = {t. \<exists>p. length p \<le> 3 \<and> idx_path p \<and> walk w root p = Some t}"

definition tree :: "(u64 \<Rightarrow> u64) \<Rightarrow> u64 \<Rightarrow> bool" where
  "tree w root \<longleftrightarrow> page_aligned root \<and> (\<forall>p q t. length p \<le> 3 \<longrightarrow> length q \<le> 3 \<longrightarrow>
     idx_path p \<longrightarrow> idx_path q \<longrightarrow> walk w root p = Some t \<longrightarrow> walk w root q = Some t \<longrightarrow> p = q)"

text \<open>What every path leads to.\<close>

definition view :: "(u64 \<Rightarrow> u64) \<Rightarrow> u64 \<Rightarrow> path \<Rightarrow> u64 option" where
  "view w root q = (if idx_path q \<and> length q \<le> 4 then walk w root q else None)"

lemma idx_path_simps [simp]:
  "idx_path []" "idx_path (i # p) \<longleftrightarrow> i < 512 \<and> idx_path p"
  "idx_path (p @ q) \<longleftrightarrow> idx_path p \<and> idx_path q"
  by (auto simp: idx_path_def)

lemma idx_page_path [simp]: "idx_path (page_path va)"
  using page_path_less by (simp add: idx_path_def)

lemma tablesI: "walk w root p = Some t \<Longrightarrow> length p \<le> 3 \<Longrightarrow> idx_path p \<Longrightarrow> t \<in> tables w root"
  by (auto simp: tables_def)

lemma root_in_tables [simp]: "root \<in> tables w root"
  by (rule tablesI [of w root "[]"]) simp_all

lemma tables_aligned: "tree w root \<Longrightarrow> t \<in> tables w root \<Longrightarrow> page_aligned t"
  by (auto simp: tables_def tree_def intro: walk_aligned)

lemma treeD:
  "tree w root \<Longrightarrow> walk w root p = Some t \<Longrightarrow> walk w root q = Some t \<Longrightarrow>
     length p \<le> 3 \<Longrightarrow> length q \<le> 3 \<Longrightarrow> idx_path p \<Longrightarrow> idx_path q \<Longrightarrow> p = q"
  by (simp add: tree_def)

lemma walk_snoc: "walk w t (p @ [i]) = (case walk w t p of
    None \<Rightarrow> None
  | Some t' \<Rightarrow> if w (slot t' i) AND PSE_PRESENT \<noteq> 0 then Some (PSE_PTR (w (slot t' i))) else None)"
  by (simp add: walk_append Let_def split: option.split)

lemma walk_beyond_None: "walk w t p = None \<Longrightarrow> prefix p q \<Longrightarrow> walk w t q = None"
  by (auto simp: prefix_def walk_append)

text \<open>A tree whose tables keep all their entries leads where it led.\<close>

lemma walk_same:
  assumes "\<forall>t \<in> tables w root. \<forall>j<512. w' (slot t j) = w (slot t j)"
  shows "idx_path q \<Longrightarrow> length q \<le> 4 \<Longrightarrow> walk w' root q = walk w root q"
proof (induction q rule: rev_induct)
  case (snoc j q)
  have IH: "walk w' root q = walk w root q" using snoc by simp
  show ?case
  proof (cases "walk w root q")
    case (Some t)
    have "t \<in> tables w root" by (rule tablesI [OF Some]) (use snoc.prems in simp_all)
    then show ?thesis using assms snoc.prems by (simp add: walk_snoc IH Some)
  qed (simp add: walk_snoc IH)
qed simp

subsection \<open>Setting one entry\<close>

text \<open>The entry \<open>i\<close> of the table at \<open>p\<close> gets the value \<open>v\<close>; the other tables keep their
  entries.\<close>

definition entry_set :: "(u64 \<Rightarrow> u64) \<Rightarrow> u64 \<Rightarrow> u64 \<Rightarrow> u64 \<Rightarrow> u64 \<Rightarrow> (u64 \<Rightarrow> u64) \<Rightarrow> bool" where
  "entry_set w root t i v w' \<longleftrightarrow> (\<forall>t' \<in> tables w root. \<forall>j<512.
     w' (slot t' j) = (if t' = t \<and> j = i then v else w (slot t' j)))"

lemma walk_elsewhere:
  assumes "tree w root" and "walk w root p = Some t" "length p \<le> 3" "idx_path p"
    and "entry_set w root t i v w'"
  shows "idx_path q \<Longrightarrow> length q \<le> 4 \<Longrightarrow> \<not> prefix (p @ [i]) q \<Longrightarrow> walk w' root q = walk w root q"
proof (induction q rule: rev_induct)
  case Nil
  show ?case by simp
next
  case (snoc j q)
  have IH: "walk w' root q = walk w root q" using snoc by simp
  show ?case
  proof (cases "walk w root q")
    case None
    then show ?thesis by (simp add: walk_snoc IH)
  next
    case (Some t')
    have t': "t' \<in> tables w root" by (rule tablesI [OF Some]) (use snoc.prems in simp_all)
    have "\<not> (t' = t \<and> j = i)"
      using treeD [OF assms(1) Some, of p] assms(2-4) snoc.prems by auto
    then have "w' (slot t' j) = w (slot t' j)"
      using assms(5) t' snoc.prems(1) by (auto simp: entry_set_def)
    then show ?thesis by (simp add: walk_snoc IH Some)
  qed
qed

lemma walk_there:
  assumes "tree w root" and "walk w root p = Some t" "length p \<le> 3" "idx_path p" "i < 512"
    and "entry_set w root t i v w'" and "v AND PSE_PRESENT \<noteq> 0"
  shows "walk w' root (p @ [i]) = Some (PSE_PTR v)"
proof -
  have "walk w' root p = Some t"
    using walk_elsewhere [OF assms(1-4,6), of p] assms(2-4) by simp
  moreover have "w' (slot t i) = v"
    using assms(5,6) tablesI [OF assms(2-4)] by (simp add: entry_set_def)
  ultimately show ?thesis using assms(7) by (simp add: walk_snoc)
qed

text \<open>A new leaf.\<close>

lemma view_leaf:
  assumes "tree w root" and "walk w root p = Some t" "length p = 3" "idx_path p" "i < 512"
    and "entry_set w root t i v w'" and "v AND PSE_PRESENT \<noteq> 0"
  shows "view w' root = (view w root)(p @ [i] \<mapsto> PSE_PTR v)"
proof (rule ext)
  fix q
  have "prefix (p @ [i]) q \<longleftrightarrow> q = p @ [i]" if "length q \<le> 4"
    using that assms(3) by (auto simp: prefix_def)
  then show "view w' root q = ((view w root)(p @ [i] \<mapsto> PSE_PTR v)) q"
    using walk_elsewhere [OF assms(1,2) _ assms(4,6), of q] walk_there [OF assms(1,2) _ assms(4-7)] assms
    by (auto simp: view_def)
qed

text \<open>A new table without entries.\<close>

lemma view_table:
  assumes "tree w root" and "walk w root p = Some t" "length p \<le> 2" "idx_path p" "i < 512"
    and "entry_set w root t i v w'" and "v AND PSE_PRESENT \<noteq> 0"
    and new: "walk w root (p @ [i]) = None" and empty: "\<forall>j<512. w' (slot (PSE_PTR v) j) = 0"
  shows "view w' root = (view w root)(p @ [i] \<mapsto> PSE_PTR v)"
proof (rule ext)
  fix q
  have p3: "length p \<le> 3" using assms(3) by simp
  have at: "walk w' root (p @ [i]) = Some (PSE_PTR v)"
    by (rule walk_there [OF assms(1,2) p3 assms(4-7)])
  have "walk w' root q = None" if longer: "prefix (p @ [i]) q" "q \<noteq> p @ [i]" "idx_path q"
  proof -
    obtain r' where r': "q = (p @ [i]) @ r'" using longer(1) by (auto simp: prefix_def)
    with longer(2) obtain j r where "r' = j # r" by (cases r') simp_all
    with r' have q: "q = (p @ [i]) @ j # r" by simp
    have "w' (slot (PSE_PTR v) j) = 0" using empty longer(3) by (simp add: q)
    then show ?thesis unfolding q by (simp add: walk_append [of w' root "p @ [i]"] at del: append_assoc)
  qed
  moreover have "walk w root q = None" if "prefix (p @ [i]) q"
    using walk_beyond_None [OF new that] .
  ultimately show "view w' root q = ((view w root)(p @ [i] \<mapsto> PSE_PTR v)) q"
    using walk_elsewhere [OF assms(1,2) p3 assms(4,6), of q] at assms(3-5)
    by (cases "prefix (p @ [i]) q") (auto simp: view_def)
qed

subsection \<open>The entries along a path\<close>

text \<open>The entry through which a path reaches its end.\<close>

definition entry_at :: "(u64 \<Rightarrow> u64) \<Rightarrow> u64 \<Rightarrow> path \<Rightarrow> u64" where
  "entry_at w root p = (case walk w root (butlast p) of None \<Rightarrow> 0 | Some t \<Rightarrow> w (slot t (last p)))"

lemma entry_snoc: "walk w root p = Some t \<Longrightarrow> entry_at w root (p @ [i]) = w (slot t i)"
  by (simp add: entry_at_def)

lemma view_entry:
  assumes "p \<noteq> []" "view w root p = Some t"
  shows "entry_at w root p AND PSE_PRESENT \<noteq> 0" "t = PSE_PTR (entry_at w root p)"
proof -
  obtain q i where p: "p = q @ [i]" using assms(1) by (cases p rule: rev_cases) simp_all
  have "walk w root p = Some t" using assms(2) by (simp add: view_def split: if_splits)
  then show "entry_at w root p AND PSE_PRESENT \<noteq> 0" "t = PSE_PTR (entry_at w root p)"
    by (auto simp: p walk_snoc entry_snoc split: option.splits if_splits)
qed

lemma entry_elsewhere:
  assumes "tree w root" and "walk w root p = Some t" "length p \<le> 3" "idx_path p"
    and set: "entry_set w root t i v w'" and q: "idx_path q" "length q \<le> 4" "\<not> prefix (p @ [i]) q" "q \<noteq> []"
  shows "entry_at w' root q = entry_at w root q"
proof -
  obtain r j where r: "q = r @ [j]" using q(4) by (cases q rule: rev_cases) simp_all
  have "\<not> prefix (p @ [i]) r" using q(3) r prefix_prefix by blast
  then have w: "walk w' root r = walk w root r"
    using walk_elsewhere [OF assms(1-4) set, of r] q(1,2) by (simp add: r)
  show ?thesis
  proof (cases "walk w root r")
    case (Some t')
    have t': "t' \<in> tables w root" by (rule tablesI [OF Some]) (use q r in simp_all)
    have "\<not> (t' = t \<and> j = i)"
      using treeD [OF assms(1) Some, of p] assms(2-4) q r by auto
    then show ?thesis using set t' q(1) by (auto simp: r entry_at_def w Some entry_set_def)
  qed (simp add: r entry_at_def w)
qed

text \<open>From \<open>w\<close> to \<open>w'\<close> nothing is unmapped, and the entries that were made (new ones, and
  the ones of the pages \<open>Q\<close>) carry the flags; all others are kept.\<close>

definition flag_entry :: "u32 \<Rightarrow> u64 \<Rightarrow> u64" where
  "flag_entry flags t = PSE_PTR t OR PSE_PRESENT OR ucast flags"

definition sets_entries :: "u32 \<Rightarrow> path set \<Rightarrow> u64 \<Rightarrow> (u64 \<Rightarrow> u64) \<Rightarrow> (u64 \<Rightarrow> u64) \<Rightarrow> bool" where
  "sets_entries flags Q root w w' \<longleftrightarrow> (\<forall>p. view w root p \<noteq> None \<longrightarrow> view w' root p \<noteq> None) \<and>
     (\<forall>p t. p \<noteq> [] \<and> view w' root p = Some t \<longrightarrow> entry_at w' root p =
        (if view w root p \<noteq> None \<and> p \<notin> Q then entry_at w root p else flag_entry flags t))"

lemma sets_entries_refl [simp]: "sets_entries flags {} root w w"
  by (auto simp: sets_entries_def)

lemma sets_entries_trans:
  assumes 1: "sets_entries flags Q root w w1" and 2: "sets_entries flags R root w1 w2"
  shows "sets_entries flags (Q \<union> R) root w w2"
  unfolding sets_entries_def
proof (intro conjI allI impI)
  fix p show "view w root p \<noteq> None \<Longrightarrow> view w2 root p \<noteq> None"
    using 1 2 unfolding sets_entries_def by blast
next
  fix p t assume p: "p \<noteq> [] \<and> view w2 root p = Some t"
  have e2: "entry_at w2 root p = (if view w1 root p \<noteq> None \<and> p \<notin> R then entry_at w1 root p else flag_entry flags t)"
    using 2 p unfolding sets_entries_def by blast
  show "entry_at w2 root p = (if view w root p \<noteq> None \<and> p \<notin> Q \<union> R then entry_at w root p else flag_entry flags t)"
  proof (cases "view w1 root p \<noteq> None \<and> p \<notin> R")
    case False
    then show ?thesis using e2 1 by (auto simp: sets_entries_def)
  next
    case True
    then obtain t1 where t1: "view w1 root p = Some t1" by blast
    have "entry_at w1 root p = (if view w root p \<noteq> None \<and> p \<notin> Q then entry_at w root p else flag_entry flags t1)"
      using 1 p t1 unfolding sets_entries_def by blast
    moreover have "t1 = t"
      using view_entry(2) [of p w1 root t1] view_entry(2) [of p w2 root t] p t1 e2 True by simp
    ultimately show ?thesis using e2 True by simp
  qed
qed

lemma sets_entries_step:
  assumes "tree w root" and "walk w root p = Some t" "length p \<le> 3" "idx_path p" "i < 512"
    and set: "entry_set w root t i (flag_entry flags a) w'" and view: "view w' root = (view w root)(p @ [i] \<mapsto> x)"
    and below: "\<And>q. prefix (p @ [i]) q \<Longrightarrow> q \<noteq> p @ [i] \<Longrightarrow> view w root q = None" and a: "PSE_PTR x = PSE_PTR a"
    and Q: "Q \<subseteq> {p @ [i]}" "view w root (p @ [i]) = None \<or> p @ [i] \<in> Q"
  shows "sets_entries flags Q root w w'"
proof -
  have at: "entry_at w' root (p @ [i]) = flag_entry flags a"
  proof -
    have "walk w' root p = Some t" using walk_elsewhere [OF assms(1-4) set, of p] assms(2-4) by simp
    then show ?thesis using set tablesI [OF assms(2-4)] assms(5) by (simp add: entry_snoc entry_set_def)
  qed
  have other: "entry_at w' root q = entry_at w root q" if "view w root q \<noteq> None" "q \<noteq> p @ [i]" "q \<noteq> []" for q
  proof (rule entry_elsewhere [OF assms(1-4) set])
    show "idx_path q" "length q \<le> 4" using that(1) by (simp_all add: view_def split: if_splits)
    show "\<not> prefix (p @ [i]) q" using below [of q] that by blast
  qed (rule that(3))
  have "entry_at w' root q = (if view w root q \<noteq> None \<and> q \<notin> Q then entry_at w root q else flag_entry flags t')"
    if q: "q \<noteq> []" "view w' root q = Some t'" for q t'
  proof (cases "q = p @ [i]")
    case True
    then show ?thesis using q(2) Q(2) at a by (auto simp: view flag_entry_def)
  next
    case False
    then have "view w root q \<noteq> None" "q \<notin> Q" using q(2) Q(1) by (auto simp: view)
    then show ?thesis using other [OF _ False q(1)] by simp
  qed
  then show ?thesis unfolding sets_entries_def view by auto
qed

lemma sets_entries_view: "sets_entries flags Q root w w' \<Longrightarrow> view w root p \<noteq> None \<Longrightarrow> view w' root p \<noteq> None"
  unfolding sets_entries_def by blast

text \<open>Every entry carries the flags that \<open>F\<close> gives for its path.\<close>

definition flagged :: "(path \<Rightarrow> u32) \<Rightarrow> u64 \<Rightarrow> (u64 \<Rightarrow> u64) \<Rightarrow> bool" where
  "flagged F root w \<longleftrightarrow> (\<forall>p t. p \<noteq> [] \<and> view w root p = Some t \<longrightarrow> entry_at w root p = flag_entry (F p) t)"

lemma flagged_empty: "view w root = [[] \<mapsto> root] \<Longrightarrow> flagged F root w"
  by (simp add: flagged_def)

lemma flagged_sets:
  assumes f: "flagged F root w" and s: "sets_entries flags Q root w w'"
    and new: "\<And>p. p \<noteq> [] \<Longrightarrow> view w' root p \<noteq> None \<Longrightarrow> view w root p = None \<or> p \<in> Q \<Longrightarrow> F p = flags"
  shows "flagged F root w'"
  unfolding flagged_def
proof (intro allI impI)
  fix p t assume p: "p \<noteq> [] \<and> view w' root p = Some t"
  have e: "entry_at w' root p = (if view w root p \<noteq> None \<and> p \<notin> Q then entry_at w root p else flag_entry flags t)"
    using s p unfolding sets_entries_def by blast
  show "entry_at w' root p = flag_entry (F p) t"
  proof (cases "view w root p \<noteq> None \<and> p \<notin> Q")
    case False
    then show ?thesis using e new [of p] p by auto
  next
    case True
    then obtain t1 where t1: "view w root p = Some t1" by blast
    have "t1 = t" using view_entry(2) [of p w root t1] view_entry(2) [of p w' root t] p t1 e True by simp
    then show ?thesis using f t1 p e True by (simp add: flagged_def)
  qed
qed

subsection \<open>Access rights\<close>

text \<open>What the entries on a path have in common.\<close>

fun walk_rights :: "(u64 \<Rightarrow> u64) \<Rightarrow> u64 \<Rightarrow> path \<Rightarrow> u64" where
  "walk_rights w t [] = - 1"
| "walk_rights w t (i # is) = (let e = w (slot t i) in e AND walk_rights w (PSE_PTR e) is)"

lemma flag_bits: "x AND PSE_USER_MODE \<noteq> 0 \<longleftrightarrow> bit x 2" "x AND PSE_WRITEABLE \<noteq> 0 \<longleftrightarrow> bit x 1"
  for x :: "'a :: len word"
  by (simp_all only: PSE_USER_MODE_def PSE_WRITEABLE_def bit_iff_and_push_bit_not_eq_0)

lemma bit_flag_entry: "0 < n \<Longrightarrow> n < 12 \<Longrightarrow> bit (flag_entry flags t) n \<longleftrightarrow> bit flags n"
  by (auto simp: flag_entry_def bit_or_iff bit_PSE_PTR PSE_PRESENT_def bit_1_iff bit_word_ucast_iff dest: bit_imp_le_length)

lemma walk_rights_snoc:
  "walk w t p = Some t' \<Longrightarrow> walk_rights w t (p @ [i]) = walk_rights w t p AND w (slot t' i)"
  by (induction p arbitrary: t) (auto simp: Let_def and.assoc split: if_splits)

lemma bit_walk_rights:
  assumes "n < 64"
  shows "walk w root q \<noteq> None \<Longrightarrow>
    bit (walk_rights w root q) n \<longleftrightarrow> (\<forall>p. p \<noteq> [] \<and> prefix p q \<longrightarrow> bit (entry_at w root p) n)"
proof (induction q rule: rev_induct)
  case Nil
  show ?case using assms by (simp add: bit_minus_1_iff)
next
  case (snoc i q)
  then obtain t where t: "walk w root q = Some t" by (auto simp: walk_snoc split: option.splits)
  show ?case
    using snoc.IH by (auto simp: walk_rights_snoc [OF t] bit_and_iff t entry_snoc [OF t])
qed

lemma view_prefix: "view w root q \<noteq> None \<Longrightarrow> prefix p q \<Longrightarrow> view w root p \<noteq> None" (is "_ \<Longrightarrow> _ \<Longrightarrow> ?thesis")
proof -
  assume v: "view w root q \<noteq> None" and "prefix p q"
  then obtain r where q: "q = p @ r" by (auto simp: prefix_def)
  then have "idx_path p" "length p \<le> 4" "walk w root (p @ r) \<noteq> None"
    using v by (simp_all add: view_def split: if_splits)
  then show ?thesis by (auto simp: view_def walk_append split: option.splits)
qed

lemma bit_walk_rights_flagged:
  assumes f: "flagged F root w" and v: "view w root q \<noteq> None" and n: "0 < n" "n < 12"
  shows "bit (walk_rights w root q) n \<longleftrightarrow> (\<forall>p. p \<noteq> [] \<and> prefix p q \<longrightarrow> bit (F p) n)"
proof -
  have "bit (entry_at w root p) n = bit (F p) n" if "p \<noteq> []" "prefix p q" for p
    using f view_prefix [OF v that(2)] that(1) bit_flag_entry [OF n] by (auto simp: flagged_def)
  moreover have "walk w root q \<noteq> None" using v by (auto simp: view_def split: if_splits)
  ultimately show ?thesis using bit_walk_rights [of n w root q] n by auto
qed

subsection \<open>Trees in terms of the view\<close>

lemma view_short: "length p \<le> 3 \<Longrightarrow> view w root p = Some t \<longleftrightarrow> idx_path p \<and> walk w root p = Some t"
  by (simp add: view_def)

lemma tables_view: "t \<in> tables w root \<longleftrightarrow> (\<exists>p. length p \<le> 3 \<and> view w root p = Some t)"
  by (auto simp: tables_def view_short)

lemma tree_view: "tree w root \<longleftrightarrow> page_aligned root \<and> (\<forall>p q t. length p \<le> 3 \<longrightarrow> length q \<le> 3 \<longrightarrow>
    view w root p = Some t \<longrightarrow> view w root q = Some t \<longrightarrow> p = q)"
  unfolding tree_def using view_short [of _ w root] by blast

lemma tables_leaf:
  assumes "view w' root = (view w root)(q \<mapsto> x)" "length q = 4"
  shows "tables w' root = tables w root"
proof -
  have "view w' root p = view w root p" if "length p \<le> 3" for p using that assms by auto
  then show ?thesis unfolding set_eq_iff tables_view by metis
qed

lemma tree_leaf:
  assumes "view w' root = (view w root)(q \<mapsto> x)" "length q = 4" "tree w root"
  shows "tree w' root"
proof -
  have "view w' root p = view w root p" if "length p \<le> 3" for p using that assms by auto
  with assms(3) show ?thesis by (simp add: tree_view)
qed

lemma tables_table:
  assumes "view w' root = (view w root)(q \<mapsto> x)" "length q \<le> 3" "view w root q = None"
  shows "tables w' root = insert x (tables w root)"
proof (rule set_eqI)
  fix t
  have "view w' root p = Some t \<longleftrightarrow> p = q \<and> x = t \<or> view w root p = Some t" for p
    using assms(1,3) by auto
  then show "t \<in> tables w' root \<longleftrightarrow> t \<in> insert x (tables w root)"
    using assms(2) by (auto simp: tables_view)
qed

lemma tree_table:
  assumes "view w' root = (view w root)(q \<mapsto> x)" "length q \<le> 3" "view w root q = None"
    and "tree w root" and x: "x \<notin> tables w root"
  shows "tree w' root"
  unfolding tree_view
proof (intro conjI allI impI)
  show "page_aligned root" using assms(4) by (simp add: tree_def)
  fix p1 p2 t
  assume l: "length p1 \<le> 3" "length p2 \<le> 3" and t: "view w' root p1 = Some t" "view w' root p2 = Some t"
  have c: "p = q \<and> t = x \<or> p \<noteq> q \<and> view w root p = Some t \<and> t \<noteq> x"
    if "view w' root p = Some t" "length p \<le> 3" for p
    using that assms(1) x by (auto simp: tables_view split: if_splits)
  show "p1 = p2"
    using c [OF t(1) l(1)] c [OF t(2) l(2)] assms(4) l unfolding tree_view by blast
qed

lemma view_up: "view w root (p @ [i]) \<noteq> None \<Longrightarrow> view w root p \<noteq> None"
  by (auto simp: view_def walk_snoc split: option.splits if_splits)

subsection \<open>Trees without large pages\<close>

text \<open>No entry that leads to a table has the bit of a large page. Then the processor's walk
  follows the pointers.\<close>

definition small :: "(u64 \<Rightarrow> u64) \<Rightarrow> u64 \<Rightarrow> bool" where
  "small w root \<longleftrightarrow> (\<forall>p. p \<noteq> [] \<and> length p \<le> 3 \<and> view w root p \<noteq> None \<longrightarrow> \<not> bit (entry_at w root p) 7)"

lemma large_bit: "x AND PSE_PAGE_SIZE \<noteq> 0 \<longleftrightarrow> bit x 7"
  by (simp only: PSE_PAGE_SIZE_def bit_iff_and_push_bit_not_eq_0)

lemma page_walk_small:
  assumes "small w root"
  shows "idx_path (p @ q) \<Longrightarrow> length (p @ q) \<le> 4 \<Longrightarrow> walk w root p = Some t \<Longrightarrow>
    page_walk w t q = map_option (\<lambda>a. (a, 12, walk_rights w t q)) (walk w t q)"
proof (induction q arbitrary: p t)
  case (Cons i q)
  let ?e = "w (slot t i)"
  show ?case
  proof (cases "?e AND PSE_PRESENT = 0")
    case False
    have step: "walk w root (p @ [i]) = Some (PSE_PTR ?e)" using Cons.prems(3) False by (simp add: walk_snoc)
    have IH: "page_walk w (PSE_PTR ?e) q = map_option (\<lambda>a. (a, 12, walk_rights w (PSE_PTR ?e) q)) (walk w (PSE_PTR ?e) q)"
      using Cons.IH [OF _ _ step] Cons.prems(1,2) by simp
    have "\<not> bit ?e 7" if "q \<noteq> []"
    proof -
      have "length (p @ [i]) \<le> 3" "idx_path (p @ [i])" using Cons.prems(1,2) that by (auto simp: neq_Nil_conv)
      moreover from this have "view w root (p @ [i]) \<noteq> None" using step by (simp add: view_def)
      ultimately have "\<not> bit (entry_at w root (p @ [i])) 7" using assms by (auto simp: small_def)
      then show ?thesis by (simp add: entry_snoc [OF Cons.prems(3)])
    qed
    then show ?thesis
      using False IH by (auto simp: Let_def large_bit option.map_comp comp_def)
  qed (simp add: Let_def)
qed simp

lemma small_same:
  assumes "\<forall>t \<in> tables w root. \<forall>j<512. w' (slot t j) = w (slot t j)"
  shows "small w root \<Longrightarrow> small w' root"
  unfolding small_def
proof (intro allI impI)
  fix p
  assume s: "\<forall>p. p \<noteq> [] \<and> length p \<le> 3 \<and> view w root p \<noteq> None \<longrightarrow> \<not> bit (entry_at w root p) 7"
    and p: "p \<noteq> [] \<and> length p \<le> 3 \<and> view w' root p \<noteq> None"
  obtain q i where q: "p = q @ [i]" using p by (cases p rule: rev_cases) simp_all
  have idx: "idx_path p" using p by (auto simp: view_def split: if_splits)
  have same: "walk w' root r = walk w root r" if "idx_path r" "length r \<le> 4" for r using walk_same [OF assms that] .
  have "view w root p \<noteq> None" using p idx same [of p] by (auto simp: view_def split: if_splits)
  moreover have "entry_at w' root p = entry_at w root p"
  proof (cases "walk w root q")
    case (Some t)
    then have "t \<in> tables w root" by (rule tablesI) (use p idx q in simp_all)
    then show ?thesis using assms Some same [of q] p idx by (simp add: q entry_at_def)
  qed (use same [of q] p idx in \<open>simp add: q entry_at_def\<close>)
  ultimately show "\<not> bit (entry_at w' root p) 7" using s p by simp
qed

lemma small_sets:
  assumes s: "small w root" and set: "sets_entries flags Q root w w'" and fl: "entry_flags flags"
  shows "small w' root"
  unfolding small_def
proof (intro allI impI)
  fix p assume p: "p \<noteq> [] \<and> length p \<le> 3 \<and> view w' root p \<noteq> None"
  then obtain t where "view w' root p = Some t" by blast
  then have e: "entry_at w' root p = (if view w root p \<noteq> None \<and> p \<notin> Q then entry_at w root p else flag_entry flags t)"
    using set p unfolding sets_entries_def by blast
  show "\<not> bit (entry_at w' root p) 7"
    using s p fl by (auto simp: e small_def bit_flag_entry entry_flags_def)
qed

text \<open>A walk that meets the same entries ends the same, large pages or not.\<close>

lemma page_walk_same:
  assumes "\<forall>t \<in> tables w root. \<forall>j<512. w' (slot t j) = w (slot t j)"
  shows "idx_path (p @ q) \<Longrightarrow> length (p @ q) \<le> 4 \<Longrightarrow> walk w root p = Some t \<Longrightarrow> page_walk w' t q = page_walk w t q"
proof (induction q arbitrary: p t)
  case (Cons i q)
  have "t \<in> tables w root" by (rule tablesI [OF Cons.prems(3)]) (use Cons.prems(1,2) in simp_all)
  then have e: "w' (slot t i) = w (slot t i)" using assms Cons.prems(1) by simp
  show ?case
  proof (cases "w (slot t i) AND PSE_PRESENT = 0")
    case False
    have step: "walk w root (p @ [i]) = Some (PSE_PTR (w (slot t i)))" using Cons.prems(3) False by (simp add: walk_snoc)
    have "page_walk w' (PSE_PTR (w (slot t i))) q = page_walk w (PSE_PTR (w (slot t i))) q"
      using Cons.IH [OF _ _ step] Cons.prems(1,2) by simp
    then show ?thesis by (simp add: e Let_def)
  qed (simp add: e Let_def)
qed simp

lemma page_at_root: "frame_addr root \<Longrightarrow> page_at m root va = page_walk (rd64 m) root (page_path va)"
  using PSE_PTR_frame [of root] by (simp add: page_at_def CR3_BASE_ADDR_def PSE_PTR_def)

lemma page_at_view:
  assumes "small (rd64 m) root" "frame_addr root"
  shows "page_at m root va =
    map_option (\<lambda>a. (a, 12, walk_rights (rd64 m) root (page_path va))) (view (rd64 m) root (page_path va))"
  using page_walk_small [OF assms(1), of "[]" "page_path va" root] by (simp add: page_at_root [OF assms(2)] view_def)

lemma offset_mask: "va AND mask 12 = EXTRACT_OFFSET va"
  by (simp add: EXTRACT_OFFSET_def mask_numeral)

lemma translate_small:
  assumes "small (rd64 m) root" "frame_addr root"
  shows "translate m root va = (if canonical va
    then map_option (\<lambda>p. p + EXTRACT_OFFSET va) (view (rd64 m) root (page_path va)) else None)"
  by (simp add: translate_def page_at_view [OF assms] option.map_comp comp_def offset_mask)

lemma rights_view:
  assumes "small (rd64 m) root" "frame_addr root" "view (rd64 m) root (page_path va) \<noteq> None"
  shows "rights m root va = walk_rights (rd64 m) root (page_path va)"
  using assms(3) by (auto simp: rights_def page_at_view [OF assms(1,2)])

lemma translate_mapped: "small (rd64 m) root \<Longrightarrow> frame_addr root \<Longrightarrow>
    translate m root va \<noteq> None \<longleftrightarrow> canonical va \<and> view (rd64 m) root (page_path va) \<noteq> None"
  by (simp add: translate_small)

lemma user_access_flagged:
  assumes "small (rd64 m) root" "flagged F root (rd64 m)" "frame_addr root" "translate m root va \<noteq> None"
  shows "user_reads m root va \<longleftrightarrow> (\<forall>p. p \<noteq> [] \<and> prefix p (page_path va) \<longrightarrow> bit (F p) 2)"
    "user_writes m root va \<longleftrightarrow> (\<forall>p. p \<noteq> [] \<and> prefix p (page_path va) \<longrightarrow> bit (F p) 2 \<and> bit (F p) 1)"
proof -
  have v: "view (rd64 m) root (page_path va) \<noteq> None"
    using translate_mapped [OF assms(1,3), of va] assms(4) by blast
  note b = bit_walk_rights_flagged [OF assms(2) v]
  have "bit (rights m root va) 2 \<longleftrightarrow> (\<forall>p. p \<noteq> [] \<and> prefix p (page_path va) \<longrightarrow> bit (F p) 2)"
    "bit (rights m root va) 1 \<longleftrightarrow> (\<forall>p. p \<noteq> [] \<and> prefix p (page_path va) \<longrightarrow> bit (F p) 1)"
    unfolding rights_view [OF assms(1,3) v] by (rule b; simp)+
  then show "user_reads m root va \<longleftrightarrow> (\<forall>p. p \<noteq> [] \<and> prefix p (page_path va) \<longrightarrow> bit (F p) 2)"
    "user_writes m root va \<longleftrightarrow> (\<forall>p. p \<noteq> [] \<and> prefix p (page_path va) \<longrightarrow> bit (F p) 2 \<and> bit (F p) 1)"
    unfolding user_reads_def user_writes_def flag_bits using assms(4) by blast+
qed

end
