(* ===== verification/Paging.thy ===== *)
theory Paging
  imports Pmem Page_Tables
begin

section \<open>Paging (\<open>arch/x64/paging.c\<close>)\<close>

text \<open>
  The operations on page tables, and the refinement that makes them correct: while the boot
  loader's tables are loaded, \<open>map_page_specific_pml4\<close> acts on the view of the tables
  (what each path of indices leads to) and on the list of free frames exactly like the
  function \<open>map_spec\<close>. From this follow what an address translates to afterwards, that
  every other page translates as before, and how many frames are used.
\<close>

record paging_state = pmem_state +
  kernel_pml4_table :: u64

text \<open>CR3 holds the boot loader's root until the kernel writes it.\<close>

definition read_cr3 :: "env \<Rightarrow> (register_cr3, 'z machine_scheme) kmon" where
  "read_cr3 E = gets (\<lambda>s. case aspace s of None \<Rightarrow> boot_cr3 E | Some root \<Rightarrow> root)"

definition set_cr3 :: "register_cr3 \<Rightarrow> (unit, 'z machine_scheme) kmon" where
  "set_cr3 val = modify (\<lambda>s. s\<lparr>aspace := Some val\<rparr>)"

definition zero_paging_structure :: "env \<Rightarrow> u64 \<Rightarrow> (unit, 'z machine_scheme) kmon" where
  "zero_paging_structure E table = for_each (\<lambda>i. store64 E (slot table (of_nat i)) 0) [0..<512]"

definition paging_init :: "(unit, 'z paging_state_scheme) kmon" where
  "paging_init = andthen (gets kernel_pml4_table) (\<lambda>p. set_cr3 (CR3_BASE_ADDR p))"

text \<open>The step that \<open>map_page_specific_pml4\<close> makes at each of the three upper levels, for
  the entry at \<open>e\<close>.\<close>

definition ensure_table :: "env \<Rightarrow> u64 \<Rightarrow> u32 \<Rightarrow> (unit, 'z pmem_state_scheme) kmon" where
  "ensure_table E e flags =
     andthen (load64 E e) (\<lambda>v.
     when_do (v AND PSE_PRESENT = 0)
       (andthen (get_phys_block E) (\<lambda>new.
        andthen (zero_paging_structure E new) (\<lambda>_.
        store64 E e (PSE_PTR new OR PSE_PRESENT OR ucast flags)))))"

definition map_page_specific_pml4 ::
    "env \<Rightarrow> u64 \<Rightarrow> flux_phyaddr \<Rightarrow> flux_virtaddr \<Rightarrow> u32 \<Rightarrow> (unit, 'z pmem_state_scheme) kmon" where
  "map_page_specific_pml4 E pml4_addr paddr vaddr flags =
     andthen (when_do DEBUG_PRINT_ON_PAGE_MAP
       (printk E (SYSTEM_PAGING @ ''Mapping vaddr 0x%p to paddr 0x%p'' @ NL) [VInt vaddr, VInt paddr])) (\<lambda>_.
     (let pml4_i = EXTRACT_PML4_INDEX vaddr; pdpt_i = EXTRACT_PDPT_INDEX vaddr;
          pdt_i = EXTRACT_PDT_INDEX vaddr; pt_i = EXTRACT_PT_INDEX vaddr;
          pml4_e = slot pml4_addr pml4_i in
      andthen (ensure_table E pml4_e flags) (\<lambda>_.
      andthen (load64 E pml4_e) (\<lambda>v1. let pdpt_e = slot (PSE_PTR v1) pdpt_i in
      andthen (ensure_table E pdpt_e flags) (\<lambda>_.
      andthen (load64 E pdpt_e) (\<lambda>v2. let pdt_e = slot (PSE_PTR v2) pdt_i in
      andthen (ensure_table E pdt_e flags) (\<lambda>_.
      andthen (load64 E pdt_e) (\<lambda>v3. let pt_e = slot (PSE_PTR v3) pt_i in
      store64 E pt_e (PSE_PTR paddr OR PSE_PRESENT OR ucast flags)))))))))"

lemma print_on_map_off: "andthen (when_do DEBUG_PRINT_ON_PAGE_MAP m) (\<lambda>_. n) = n"
  by simp

definition map_page :: "env \<Rightarrow> flux_phyaddr \<Rightarrow> flux_virtaddr \<Rightarrow> u32 \<Rightarrow> (unit, 'z pmem_state_scheme) kmon" where
  "map_page E paddr vaddr flags =
     andthen (read_cr3 E) (\<lambda>cr3. map_page_specific_pml4 E (CR3_BASE_ADDR cr3) paddr vaddr flags)"

subsection \<open>Zeroing a frame\<close>

definition zeroed :: "u64 \<Rightarrow> 'z pmem_state_scheme \<Rightarrow> 'z pmem_state_scheme" where
  "zeroed f s = s\<lparr>ram := fold (\<lambda>i m. wr64 m (slot f (of_nat i)) 0) [0..<512] (ram s)\<rparr>"

lemma zero_paging_structure_eq:
  assumes "pmem_ok E s fs" "frame_ok E f" "f \<notin> set fs"
  shows "zero_paging_structure E f s = Some (Ret () (zeroed f s)) \<and> pmem_ok E (zeroed f s) fs"
proof -
  let ?w = "\<lambda>i s. s\<lparr>ram := wr64 (ram s) (slot f (of_nat i)) 0\<rparr>"
  have "store64 E (slot f (of_nat i)) 0 s = Some (Ret () (?w i s)) \<and> pmem_ok E (?w i s) fs"
    if "i \<in> set [0..<512]" "pmem_ok E s fs" for i and s :: "'a pmem_state_scheme"
  proof -
    have "(of_nat i :: u64) < 512" using that(1) by (simp add: word_less_nat_alt unat_of_nat)
    then show ?thesis
      using that(2) boot_store64 [of s E f "of_nat i" 0] assms(2,3)
        pmem_ok_write [OF that(2), of f "of_nat i" 0]
      by (simp add: pmem_ok_def frame_ok_addr)
  qed
  then have "for_each (\<lambda>i. store64 E (slot f (of_nat i)) 0) [0..<512] s =
      Some (Ret () (fold ?w [0..<512] s)) \<and> pmem_ok E (fold ?w [0..<512] s) fs"
    using assms(1) by (rule for_each_pure_on [where P = "\<lambda>s. pmem_ok E s fs"]) simp_all
  moreover have "fold ?w xs s = s\<lparr>ram := fold (\<lambda>i m. wr64 m (slot f (of_nat i)) 0) xs (ram s)\<rparr>"
    for xs and s :: "'a pmem_state_scheme"
    by (induction xs arbitrary: s) simp_all
  ultimately show ?thesis by (simp add: zero_paging_structure_def zeroed_def)
qed

lemma rd64_zeroed:
  assumes "page_aligned f" "page_aligned t" "j < 512"
  shows "rd64 (ram (zeroed f s)) (slot t j) = (if t = f then 0 else rd64 (ram s) (slot t j))"
proof -
  have "slot t j \<in> (\<lambda>i. slot f (of_nat i)) ` {..<512} \<longleftrightarrow> t = f"
  proof
    assume "slot t j \<in> (\<lambda>i. slot f (of_nat i)) ` {..<512}"
    then obtain i :: nat where i: "i < 512" "slot t j = slot f (of_nat i)" by blast
    have "(of_nat i :: u64) < 512" using i(1) by (simp add: word_less_nat_alt unat_of_nat)
    with i(2) assms show "t = f" by (simp add: slot_eq_iff)
  next
    assume "t = f"
    moreover have "unat j < 512" using assms(3) by (simp add: word_less_nat_alt)
    ultimately show "slot t j \<in> (\<lambda>i. slot f (of_nat i)) ` {..<512}"
      by (intro image_eqI [of _ _ "unat j"]) simp_all
  qed
  then show ?thesis
    using ram.rd_fill [OF assms(1), where n = 512 and b = "slot t j" and m = "ram s" and v = 0] assms by (simp add: zeroed_def)
qed

subsection \<open>The invariant of a tree of tables next to the free list\<close>

definition paging_ok :: "env \<Rightarrow> 'z pmem_state_scheme \<Rightarrow> u64 \<Rightarrow> u64 list \<Rightarrow> bool" where
  "paging_ok E s root fs \<longleftrightarrow> pmem_ok E s fs \<and> tree (rd64 (ram s)) root \<and>
     (\<forall>t \<in> tables (rd64 (ram s)) root. frame_ok E t) \<and> tables (rd64 (ram s)) root \<inter> set fs = {} \<and>
     small (rd64 (ram s)) root"

definition pt_view :: "'z machine_scheme \<Rightarrow> u64 \<Rightarrow> path \<Rightarrow> u64 option" where
  "pt_view s root = view (rd64 (ram s)) root"

text \<open>The frames that mapping pages may turn into tables: the tables and the free frames. These
  are the same frames afterwards. Everything in memory that is not a table then is left alone.\<close>

definition footprint :: "u64 \<Rightarrow> 'z pmem_state_scheme \<Rightarrow> u64 set" where
  "footprint root s = tables (rd64 (ram s)) root \<union> {f. \<exists>fs. free_list (ram s) (first_page_frame s) fs \<and> f \<in> set fs}"

definition stays :: "u64 \<Rightarrow> 'z pmem_state_scheme \<Rightarrow> 'z pmem_state_scheme \<Rightarrow> bool" where
  "stays root s s' \<longleftrightarrow> footprint root s' = footprint root s \<and>
     tables (rd64 (ram s)) root \<subseteq> tables (rd64 (ram s')) root \<and>
     (\<forall>f i. page_aligned f \<and> f \<notin> tables (rd64 (ram s')) root \<and> i < 512 \<longrightarrow>
        rd64 (ram s') (slot f i) = rd64 (ram s) (slot f i))"

lemma footprint_ok: "paging_ok E s root fs \<Longrightarrow> footprint root s = tables (rd64 (ram s)) root \<union> set fs"
  unfolding footprint_def paging_ok_def pmem_ok_def using free_list_unique by blast

lemma stays_refl [simp]: "stays root s s"
  by (simp add: stays_def)

lemma stays_trans:
  assumes 1: "stays root s s'" and 2: "stays root s' s''"
  shows "stays root s s''"
  unfolding stays_def
proof (intro conjI allI impI)
  show "footprint root s'' = footprint root s" using 1 2 by (simp add: stays_def)
  have sub: "tables (rd64 (ram s')) root \<subseteq> tables (rd64 (ram s'')) root" using 2 by (simp add: stays_def)
  then show "tables (rd64 (ram s)) root \<subseteq> tables (rd64 (ram s'')) root" using 1 by (auto simp: stays_def)
  fix f i assume f: "page_aligned f \<and> f \<notin> tables (rd64 (ram s'')) root \<and> (i :: u64) < 512"
  then have "f \<notin> tables (rd64 (ram s')) root" using sub by blast
  then show "rd64 (ram s'') (slot f i) = rd64 (ram s) (slot f i)" using f 1 2 by (simp add: stays_def)
qed

lemma stays_outside:
  assumes "stays root s s'" "page_aligned f" "f \<notin> footprint root s" "i < 512"
  shows "rd64 (ram s') (slot f i) = rd64 (ram s) (slot f i)"
proof -
  have "f \<notin> footprint root s'" using assms(1,3) by (simp add: stays_def)
  then have "f \<notin> tables (rd64 (ram s')) root" by (simp add: footprint_def)
  then show ?thesis using assms(1,2,4) by (simp add: stays_def)
qed

text \<open>Only memory and the allocator differ.\<close>

definition pmem_only :: "'z pmem_state_scheme \<Rightarrow> 'z pmem_state_scheme \<Rightarrow> bool" where
  "pmem_only s s' \<longleftrightarrow> (\<exists>m h n. s' = s\<lparr>ram := m, first_page_frame := h, n_free_page_frames := n\<rparr>)"

lemma pmem_only_refl [simp]: "pmem_only s s"
  unfolding pmem_only_def
  by (rule exI [of _ "ram s"], rule exI [of _ "first_page_frame s"],
      rule exI [of _ "n_free_page_frames s"]) simp

lemma pmem_only_trans: "pmem_only s s' \<Longrightarrow> pmem_only s' s'' \<Longrightarrow> pmem_only s s''"
  unfolding pmem_only_def by fastforce

lemma pmem_only_more: "pmem_only s s' \<Longrightarrow> pmem_state.more s' = pmem_state.more s \<and>
    aspace s' = aspace s \<and> io_trace s' = io_trace s \<and> com_ports s' = com_ports s \<and>
    primary_com_port s' = primary_com_port s"
  by (auto simp: pmem_only_def)

lemma pmem_only_ready: "pmem_only s s' \<Longrightarrow> console_ready E s' = console_ready E s"
  using pmem_only_more [of s s'] by (simp add: console_ready_def split: option.split)

lemma paging_ok_pmem: "paging_ok E s root fs \<Longrightarrow> pmem_ok E s fs"
  and paging_ok_boot: "paging_ok E s root fs \<Longrightarrow> aspace s = None"
  and paging_ok_tree: "paging_ok E s root fs \<Longrightarrow> tree (rd64 (ram s)) root"
  and paging_ok_small: "paging_ok E s root fs \<Longrightarrow> small (rd64 (ram s)) root"
  by (simp_all add: paging_ok_def pmem_ok_def)

lemma pt_view_table:
  assumes "paging_ok E s root fs" "pt_view s root p = Some t" "length p \<le> 3"
  shows "frame_ok E t" "frame_addr t" "page_aligned t" "t \<notin> set fs" "t \<in> tables (rd64 (ram s)) root"
    "walk (rd64 (ram s)) root p = Some t" "idx_path p"
proof -
  show t: "t \<in> tables (rd64 (ram s)) root"
    using assms(2,3) by (auto simp: tables_view pt_view_def)
  show "frame_ok E t" "t \<notin> set fs" using assms(1) t by (auto simp: paging_ok_def)
  then show "frame_addr t" "page_aligned t" by (auto dest: frame_ok_addr)
  show "walk (rd64 (ram s)) root p = Some t" "idx_path p"
    using assms(2,3) by (simp_all add: pt_view_def view_short)
qed

lemma paging_ok_load:
  assumes "paging_ok E s root fs" "pt_view s root p = Some t" "length p \<le> 3" "i < 512"
  shows "load64 E (slot t i) s = Some (Ret (rd64 (ram s) (slot t i)) s)"
    and "pt_view s root (p @ [i]) = (if rd64 (ram s) (slot t i) AND PSE_PRESENT \<noteq> 0
      then Some (PSE_PTR (rd64 (ram s) (slot t i))) else None)"
  using boot_load64 [OF paging_ok_boot [OF assms(1)], of E t i] pt_view_table [OF assms(1-3)] assms(3,4)
  by (simp_all add: pt_view_def view_def walk_snoc)

text \<open>Writing an entry of a table: the frame of a new, empty table, or a page.\<close>

lemma paging_ok_entry:
  assumes ok: "paging_ok E s root fs" and p: "pt_view s root p = Some t" "length p \<le> 3" and i: "i < 512"
  shows "entry_set (rd64 (ram s)) root t i v (rd64 (wr64 (ram s) (slot t i) v))"
proof -
  have "rd64 (wr64 (ram s) (slot t i) v) (slot t' j) =
      (if t' = t \<and> j = i then v else rd64 (ram s) (slot t' j))"
    if "t' \<in> tables (rd64 (ram s)) root" "j < 512" for t' j
  proof -
    have al: "page_aligned t'" "page_aligned t"
      using tables_aligned [OF paging_ok_tree [OF ok] that(1)] pt_view_table [OF ok p] by simp_all
    have "aligned 8 (slot t' j)" "aligned 8 (slot t i)" using al i that(2) by simp_all
    then show ?thesis
      using al i that(2) by (simp add: ram.rd_wr slot_eq_iff eq_commute [of t t'] eq_commute [of i j])
  qed
  then show ?thesis by (simp add: entry_set_def)
qed

lemma store_leaf:
  assumes ok: "paging_ok E s root fs" and p: "pt_view s root p = Some t" "length p = 3"
    and i: "i < 512" and f: "entry_flags flags"
  shows "\<exists>s'. store64 E (slot t i) (PSE_PTR pa OR PSE_PRESENT OR ucast flags) s = Some (Ret () s') \<and>
    paging_ok E s' root fs \<and> pt_view s' root = (pt_view s root)(p @ [i] \<mapsto> PSE_PTR pa) \<and> pmem_only s s' \<and>
    stays root s s' \<and> sets_entries flags {p @ [i]} root (rd64 (ram s)) (rd64 (ram s'))"
proof -
  let ?v = "PSE_PTR pa OR PSE_PRESENT OR ucast flags"
  define s' where "s' = s\<lparr>ram := wr64 (ram s) (slot t i) ?v\<rparr>"
  have p3: "length p \<le> 3" using p(2) by simp
  note t = pt_view_table [OF ok p(1) p3]
  have set: "entry_set (rd64 (ram s)) root t i ?v (rd64 (ram s'))"
    using paging_ok_entry [OF ok p(1) p3 i] by (simp add: s'_def)
  have view: "pt_view s' root = (pt_view s root)(p @ [i] \<mapsto> PSE_PTR pa)"
    using view_leaf [OF paging_ok_tree [OF ok] t(6) p(2) t(7) i set entry_present] f
    by (simp only: pt_view_def PSE_PTR_entry)
  have sets: "sets_entries flags {p @ [i]} root (rd64 (ram s)) (rd64 (ram s'))"
  proof (rule sets_entries_step [OF paging_ok_tree [OF ok] t(6) p3 t(7) i set [folded flag_entry_def]])
    show "view (rd64 (ram s')) root = (view (rd64 (ram s)) root)(p @ [i] \<mapsto> PSE_PTR pa)" using view by (simp add: pt_view_def)
    show "view (rd64 (ram s)) root q = None" if "prefix (p @ [i]) q" "q \<noteq> p @ [i]" for q
      using that p(2) by (auto simp: prefix_def view_def)
  qed simp_all
  have tabs: "tree (rd64 (ram s')) root" "tables (rd64 (ram s')) root = tables (rd64 (ram s)) root"
    using tree_leaf [OF view [unfolded pt_view_def]] tables_leaf [OF view [unfolded pt_view_def]]
      p(2) paging_ok_tree [OF ok] by simp_all
  moreover have "pmem_ok E s' fs"
    using pmem_ok_write [OF paging_ok_pmem [OF ok] t(3,4) i] by (simp add: s'_def)
  ultimately have ok': "paging_ok E s' root fs"
    using ok small_sets [OF paging_ok_small [OF ok] sets f] by (simp add: paging_ok_def)
  have "rd64 (ram s') (slot g j) = rd64 (ram s) (slot g j)"
    if "page_aligned g" "g \<notin> tables (rd64 (ram s)) root" "j < 512" for g j
  proof -
    have "slot g j \<noteq> slot t i" using that t(3,5) i by (auto simp: slot_eq_iff)
    then show ?thesis using that t(3) i by (simp add: s'_def rd64_wr64_other)
  qed
  then have "stays root s s'" by (simp add: stays_def footprint_ok [OF ok] footprint_ok [OF ok'] tabs(2))
  moreover note ok'
  moreover have "store64 E (slot t i) ?v s = Some (Ret () s')"
    using boot_store64 [OF paging_ok_boot [OF ok] t(1) i] by (simp add: s'_def)
  moreover have "pmem_only s s'"
    unfolding pmem_only_def s'_def by (intro exI [of _ "wr64 (ram s) (slot t i) ?v"]
        exI [of _ "first_page_frame s"] exI [of _ "n_free_page_frames s"]) simp
  moreover note sets
  ultimately show ?thesis using view by blast
qed

lemma ensure_table_present:
  assumes "paging_ok E s root fs" "pt_view s root p = Some t" "length p \<le> 3" "i < 512"
    and "pt_view s root (p @ [i]) \<noteq> None"
  shows "ensure_table E (slot t i) flags s = Some (Ret () s)"
  using paging_ok_load [OF assms(1-4)] assms(5)
  by (simp add: ensure_table_def kmon_simps when_do_def split: if_splits)

text \<open>Where an entry is missing: what is written.\<close>

lemma ensure_table_writes:
  assumes ok: "paging_ok E s root (f # fs)" and p: "pt_view s root p = Some t" "length p \<le> 2"
    and i: "i < 512" and none: "pt_view s root (p @ [i]) = None"
  obtains s' where "ensure_table E (slot t i) flags s = Some (Ret () s')" "pmem_ok E s' fs" "pmem_only s s'"
    "\<And>t' j. page_aligned t' \<Longrightarrow> j < 512 \<Longrightarrow> rd64 (ram s') (slot t' j) =
       (if t' = t \<and> j = i then PSE_PTR f OR PSE_PRESENT OR ucast flags else if t' = f then 0 else rd64 (ram s) (slot t' j))"
proof -
  let ?v = "PSE_PTR f OR PSE_PRESENT OR ucast flags"
  define s1 where "s1 = s\<lparr>first_page_frame := rd64 (ram s) f,
     n_free_page_frames := n_free_page_frames s - 1\<rparr>"
  define s2 where "s2 = zeroed f s1"
  define s3 where "s3 = s2\<lparr>ram := wr64 (ram s2) (slot t i) ?v\<rparr>"
  have p3: "length p \<le> 3" using p(2) by simp
  note t = pt_view_table [OF ok p(1) p3]
  note pm = paging_ok_pmem [OF ok]
  have f: "frame_ok E f" "frame_addr f" "f \<notin> set fs"
    using pm pmem_ok_distinct [OF pm] by (auto simp: pmem_ok_def)
  have zero: "zero_paging_structure E f s1 = Some (Ret () s2)" "pmem_ok E s2 fs"
    using zero_paging_structure_eq [OF _ f(1,3), of s1] pmem_ok_taken [OF pm] by (simp_all add: s1_def s2_def)
  show ?thesis
  proof (rule that [of s3])
    show "ensure_table E (slot t i) flags s = Some (Ret () s3)"
      using paging_ok_load [OF ok p(1) p3 i] none zero(1) get_phys_block_eq [OF pm]
        boot_store64 [OF _ t(1) i, of s2] zero(2)
      by (simp add: ensure_table_def kmon_simps s1_def s3_def pmem_ok_def split: if_splits)
    show "pmem_ok E s3 fs"
      using pmem_ok_write [OF zero(2) t(3) _ i] t(4) by (simp add: s3_def)
    show "pmem_only s s3"
      unfolding pmem_only_def
      by (intro exI [of _ "ram s3"] exI [of _ "first_page_frame s3"] exI [of _ "n_free_page_frames s3"])
        (simp add: s3_def s2_def zeroed_def s1_def)
    fix t' j :: u64 assume a: "page_aligned t'" "j < 512"
    have al: "aligned 8 (slot t' j)" "aligned 8 (slot t i)" using a t(3) i by simp_all
    have "rd64 (ram s2) (slot t' j) = (if t' = f then 0 else rd64 (ram s) (slot t' j))"
      using rd64_zeroed [of f t' j s1] f(2) a by (simp only: s2_def frame_addr_aligned) (simp add: s1_def)
    then show "rd64 (ram s3) (slot t' j) = (if t' = t \<and> j = i then ?v else if t' = f then 0 else rd64 (ram s) (slot t' j))"
      using al a t(3) i
      by (cases "t' = f") (simp_all add: s3_def ram.rd_wr slot_eq_iff eq_commute [of t] eq_commute [of i j])
  qed
qed

lemma ensure_table_new:
  assumes ok: "paging_ok E s root (f # fs)" and p: "pt_view s root p = Some t" "length p \<le> 2"
    and i: "i < 512" and none: "pt_view s root (p @ [i]) = None" and fl: "entry_flags flags"
  shows "\<exists>s'. ensure_table E (slot t i) flags s = Some (Ret () s') \<and> paging_ok E s' root fs \<and>
    pt_view s' root = (pt_view s root)(p @ [i] \<mapsto> f) \<and> pmem_only s s' \<and> stays root s s' \<and>
    sets_entries flags {} root (rd64 (ram s)) (rd64 (ram s'))"
proof -
  let ?v = "PSE_PTR f OR PSE_PRESENT OR ucast flags"
  have p3: "length p \<le> 3" using p(2) by simp
  note t = pt_view_table [OF ok p(1) p3]
  note pm = paging_ok_pmem [OF ok]
  have f: "frame_ok E f" "frame_addr f" "f \<notin> set fs" "f \<notin> tables (rd64 (ram s)) root"
    using pm ok pmem_ok_distinct [OF pm] by (auto simp: pmem_ok_def paging_ok_def)
  have ptr: "PSE_PTR ?v = f" by (rule trans [OF PSE_PTR_entry [OF fl] PSE_PTR_frame [OF f(2)]])
  obtain s3 where s3: "ensure_table E (slot t i) flags s = Some (Ret () s3)" "pmem_ok E s3 fs" "pmem_only s s3"
    and w3: "\<And>t' j. page_aligned t' \<Longrightarrow> j < 512 \<Longrightarrow> rd64 (ram s3) (slot t' j) =
       (if t' = t \<and> j = i then ?v else if t' = f then 0 else rd64 (ram s) (slot t' j))"
    using ensure_table_writes [OF ok p i none, of flags] by metis
  have set: "entry_set (rd64 (ram s)) root t i ?v (rd64 (ram s3))"
    unfolding entry_set_def using w3 f(4) tables_aligned [OF paging_ok_tree [OF ok]] by auto
  have "walk (rd64 (ram s)) root (p @ [i]) = None"
    using none p(2) t(7) i by (simp add: pt_view_def view_def)
  moreover have "\<forall>j<512. rd64 (ram s3) (slot (PSE_PTR ?v) j) = 0"
    using w3 [of f] f(2,4) t(5) unfolding ptr by auto
  ultimately have view: "pt_view s3 root = (pt_view s root)(p @ [i] \<mapsto> f)"
    using view_table [OF paging_ok_tree [OF ok] t(6) p(2) t(7) i set entry_present]
    unfolding pt_view_def ptr by blast
  note v = view [unfolded pt_view_def]
  have tabs: "tables (rd64 (ram s3)) root = insert f (tables (rd64 (ram s)) root)"
    by (rule tables_table [OF v]) (use p(2) none in \<open>simp_all add: pt_view_def\<close>)
  have sets: "sets_entries flags {} root (rd64 (ram s)) (rd64 (ram s3))"
  proof (rule sets_entries_step [OF paging_ok_tree [OF ok] t(6) p3 t(7) i set [folded flag_entry_def] v])
    show "view (rd64 (ram s)) root q = None" if "prefix (p @ [i]) q" "q \<noteq> p @ [i]" for q
      using walk_beyond_None [OF _ that(1)] none p(2) t(7) i by (simp add: pt_view_def view_def)
    show "view (rd64 (ram s)) root (p @ [i]) = None \<or> p @ [i] \<in> {}" using none by (simp add: pt_view_def)
  qed simp_all
  have "tree (rd64 (ram s3)) root"
    by (rule tree_table [OF v]) (use p(2) none paging_ok_tree [OF ok] f(4) in \<open>simp_all add: pt_view_def\<close>)
  then have ok3: "paging_ok E s3 root fs"
    using ok f s3(2) small_sets [OF paging_ok_small [OF ok] sets fl] by (auto simp: paging_ok_def tabs)
  have "rd64 (ram s3) (slot g j) = rd64 (ram s) (slot g j)"
    if "page_aligned g" "g \<notin> insert f (tables (rd64 (ram s)) root)" "j < 512" for g j
    using w3 [OF that(1,3)] that(2) t(5) by auto
  then have "stays root s s3" by (auto simp: stays_def footprint_ok [OF ok] footprint_ok [OF ok3] tabs)
  then show ?thesis using s3(1,3) ok3 view sets by blast
qed

subsection \<open>The refinement\<close>

text \<open>What mapping a page means for the view and the free frames: each of the three upper
  levels that is missing takes one frame, then the path leads to the page. \<open>None\<close> when the
  frames run out.\<close>

definition grow :: "(path \<Rightarrow> u64 option) \<Rightarrow> path \<Rightarrow> u64 list \<Rightarrow> ((path \<Rightarrow> u64 option) \<times> u64 list) option" where
  "grow v p fs = (if v p \<noteq> None then Some (v, fs)
     else case fs of [] \<Rightarrow> None | f # fs' \<Rightarrow> Some (v(p \<mapsto> f), fs'))"

definition map_spec ::
    "(path \<Rightarrow> u64 option) \<Rightarrow> u64 list \<Rightarrow> path \<Rightarrow> u64 \<Rightarrow> ((path \<Rightarrow> u64 option) \<times> u64 list) option" where
  "map_spec v fs q a =
     Option.bind (grow v (take 1 q) fs) (\<lambda>(v1, fs1).
     Option.bind (grow v1 (take 2 q) fs1) (\<lambda>(v2, fs2).
     Option.bind (grow v2 (take 3 q) fs2) (\<lambda>(v3, fs3).
     Some (v3(q \<mapsto> a), fs3))))"

definition out_of_frames :: string where
  "out_of_frames = trace_text (''arch/x64/mem.c'', 136, ''get_phys_block'')
     (PBAD ''Assertion (ret != NULL) failed'')"

text \<open>The code \<open>m\<close>, run in \<open>s\<close>, does what the result \<open>r\<close> of a specification says, and gives
  \<open>flags\<close> to the entries it makes: the new ones and the ones of the pages \<open>Q\<close>.\<close>

definition refines :: "env \<Rightarrow> u64 \<Rightarrow> u32 \<Rightarrow> path set \<Rightarrow> (unit, 'z pmem_state_scheme) kmon \<Rightarrow> 'z pmem_state_scheme \<Rightarrow>
    ((path \<Rightarrow> u64 option) \<times> u64 list) option \<Rightarrow> bool" where
  "refines E root flags Q m s r \<longleftrightarrow> (case r of
       None \<Rightarrow> \<exists>s'. m s = Some (Stop Spin s') \<and> console_out s' = console_out s @ out_of_frames
     | Some (v, fs) \<Rightarrow> \<exists>s'. m s = Some (Ret () s') \<and> paging_ok E s' root fs \<and> pt_view s' root = v \<and>
         pmem_only s s' \<and> stays root s s' \<and> sets_entries flags Q root (rd64 (ram s)) (rd64 (ram s')))"

lemma pmem_only_out: "pmem_only s s' \<Longrightarrow> console_out s' = console_out s"
  using pmem_only_more [of s s'] by (simp add: console_out_def split: option.split)

lemma refines_andthen:
  assumes "refines E root flags {} m s r"
    and "\<And>v fs s'. r = Some (v, fs) \<Longrightarrow> m s = Some (Ret () s') \<Longrightarrow> paging_ok E s' root fs \<Longrightarrow>
      pt_view s' root = v \<Longrightarrow> pmem_only s s' \<Longrightarrow> refines E root flags Q (k ()) s' (r' (v, fs))"
  shows "refines E root flags Q (andthen m k) s (Option.bind r r')"
proof (cases r)
  case None
  with assms(1) show ?thesis by (auto simp: refines_def andthen_Stop)
next
  case (Some x)
  obtain v fs where x: "x = (v, fs)" by (cases x)
  obtain s' where s': "m s = Some (Ret () s')" "paging_ok E s' root fs" "pt_view s' root = v"
      "pmem_only s s'" "stays root s s'" "sets_entries flags {} root (rd64 (ram s)) (rd64 (ram s'))"
    using assms(1) by (auto simp: refines_def Some x)
  have "refines E root flags Q (k ()) s' (r' (v, fs))"
    using assms(2) s' by (simp add: Some x)
  then show ?thesis
    using pmem_only_trans [OF s'(4)] pmem_only_out [OF s'(4)] stays_trans [OF s'(5)] sets_entries_trans [OF s'(6)]
    by (auto simp: refines_def andthen_Ret [where m = m, OF s'(1)] Some x split: option.splits)
qed

lemma ensure_table_refines:
  assumes ok: "paging_ok E s root fs" and p: "pt_view s root p = Some t" "length p \<le> 2"
    and i: "i < 512" and fl: "entry_flags flags" and ready: "console_ready E s"
  shows "refines E root flags {} (ensure_table E (slot t i) flags) s (grow (pt_view s root) (p @ [i]) fs)"
proof (cases "pt_view s root (p @ [i]) = None")
  case False
  have "ensure_table E (slot t i) flags s = Some (Ret () s)"
    using ensure_table_present [OF ok p(1) _ i False] p(2) by simp
  with False ok show ?thesis by (simp add: refines_def grow_def)
next
  case None: True
  show ?thesis
  proof (cases fs)
    case (Cons f fs')
    then show ?thesis
      using None ensure_table_new [OF _ p i None fl, of E f fs'] ok by (simp add: refines_def grow_def)
  next
    case Nil
    obtain s' where "get_phys_block E s = Some (Stop Spin s')" "console_out s' = console_out s @ out_of_frames"
      using get_phys_block_empty [of E s] paging_ok_pmem [OF ok] ready
      by (auto simp: Nil out_of_frames_def)
    then show ?thesis
      using None Nil paging_ok_load [OF ok p(1) _ i] p(2)
      by (simp add: refines_def grow_def ensure_table_def kmon_simps split: if_splits)
  qed
qed

lemma grow_cases:
  "grow v p fs = Some (v', fs') \<Longrightarrow> \<exists>t. v' p = Some t"
  by (auto simp: grow_def split: if_splits list.splits)

text \<open>One upper level: make sure of the table, then go on from it.\<close>

lemma level_refines:
  assumes ok: "paging_ok E s root fs" and p: "pt_view s root p = Some t" "length p \<le> 2"
    and i: "i < 512" and fl: "entry_flags flags" and ready: "console_ready E s"
    and rest: "\<And>v' fs' s' t'. paging_ok E s' root fs' \<Longrightarrow> pt_view s' root = v' \<Longrightarrow>
      pt_view s' root (p @ [i]) = Some t' \<Longrightarrow> console_ready E s' \<Longrightarrow>
      refines E root flags Q (K t') s' (r' (v', fs'))"
  shows "refines E root flags Q (andthen (ensure_table E (slot t i) flags) (\<lambda>_.
      andthen (load64 E (slot t i)) (\<lambda>v. K (PSE_PTR v)))) s
    (Option.bind (grow (pt_view s root) (p @ [i]) fs) r')"
proof (rule refines_andthen [OF ensure_table_refines [OF ok p i fl ready]])
  fix v fs' s'
  assume g: "grow (pt_view s root) (p @ [i]) fs = Some (v, fs')" and ok': "paging_ok E s' root fs'"
    and v: "pt_view s' root = v" and only: "pmem_only s s'"
  obtain t' where t': "pt_view s' root (p @ [i]) = Some t'" using grow_cases [OF g] v by auto
  have "pt_view s' root p = Some t"
    using g p(1) by (auto simp: v grow_def split: if_splits list.splits)
  then have "load64 E (slot t i) s' = Some (Ret (rd64 (ram s') (slot t i)) s')"
      "t' = PSE_PTR (rd64 (ram s') (slot t i))"
    using paging_ok_load [OF ok', of p t i] p(2) i t' by (auto split: if_splits)
  then have eq: "andthen (load64 E (slot t i)) (\<lambda>v. K (PSE_PTR v)) s' = K t' s'"
    by (simp add: kmon_simps)
  show "refines E root flags Q (andthen (load64 E (slot t i)) (\<lambda>v. K (PSE_PTR v))) s' (r' (v, fs'))"
    using rest [OF ok' v t'] pmem_only_ready [OF only, of E] ready
    unfolding refines_def eq by simp
qed

lemma map_page_refines:
  assumes ok: "paging_ok E s root fs" and fl: "entry_flags flags" and ready: "console_ready E s"
  shows "refines E root flags {page_path va} (map_page_specific_pml4 E root pa va flags) s
    (map_spec (pt_view s root) fs (page_path va) (PSE_PTR pa))"
proof -
  have root: "pt_view s root [] = Some root" for s by (simp add: pt_view_def view_def)
  note idx = extract_index_less [of va]
  have paths: "take 1 (page_path va) = [] @ [EXTRACT_PML4_INDEX va]"
    "take 2 (page_path va) = [EXTRACT_PML4_INDEX va] @ [EXTRACT_PDPT_INDEX va]"
    "take 3 (page_path va) = [EXTRACT_PML4_INDEX va, EXTRACT_PDPT_INDEX va] @ [EXTRACT_PDT_INDEX va]"
    "page_path va = [EXTRACT_PML4_INDEX va, EXTRACT_PDPT_INDEX va, EXTRACT_PDT_INDEX va] @ [EXTRACT_PT_INDEX va]"
    by (simp_all add: page_path_def)
  show ?thesis
    unfolding map_page_specific_pml4_def print_on_map_off Let_def map_spec_def paths(1-3)
  proof (rule level_refines [OF ok root _ idx(1) fl ready], simp, unfold prod.case)
    fix v1 fs1 t1 and s1 :: "'a pmem_state_scheme"
    assume 1: "paging_ok E s1 root fs1" "pt_view s1 root = v1"
      "pt_view s1 root ([] @ [EXTRACT_PML4_INDEX va]) = Some t1" "console_ready E s1"
    show "refines E root flags {page_path va} (andthen (ensure_table E (slot t1 (EXTRACT_PDPT_INDEX va)) flags) (\<lambda>_.
        andthen (load64 E (slot t1 (EXTRACT_PDPT_INDEX va))) (\<lambda>v2.
        andthen (ensure_table E (slot (PSE_PTR v2) (EXTRACT_PDT_INDEX va)) flags) (\<lambda>_.
        andthen (load64 E (slot (PSE_PTR v2) (EXTRACT_PDT_INDEX va))) (\<lambda>v3.
        store64 E (slot (PSE_PTR v3) (EXTRACT_PT_INDEX va)) (PSE_PTR pa OR PSE_PRESENT OR ucast flags)))))) s1
      (Option.bind (grow v1 ([EXTRACT_PML4_INDEX va] @ [EXTRACT_PDPT_INDEX va]) fs1) (\<lambda>(v2, fs2).
       Option.bind (grow v2 ([EXTRACT_PML4_INDEX va, EXTRACT_PDPT_INDEX va] @ [EXTRACT_PDT_INDEX va]) fs2)
         (\<lambda>(v3, fs3). Some (v3(page_path va \<mapsto> PSE_PTR pa), fs3))))"
      unfolding 1(2) [symmetric]
    proof (rule level_refines [OF 1(1) _ _ idx(2) fl 1(4)], use 1(3) in simp, simp, unfold prod.case)
      fix v2 fs2 t2 and s2 :: "'a pmem_state_scheme"
      assume 2: "paging_ok E s2 root fs2" "pt_view s2 root = v2"
        "pt_view s2 root ([EXTRACT_PML4_INDEX va] @ [EXTRACT_PDPT_INDEX va]) = Some t2" "console_ready E s2"
      show "refines E root flags {page_path va} (andthen (ensure_table E (slot t2 (EXTRACT_PDT_INDEX va)) flags) (\<lambda>_.
          andthen (load64 E (slot t2 (EXTRACT_PDT_INDEX va))) (\<lambda>v3.
          store64 E (slot (PSE_PTR v3) (EXTRACT_PT_INDEX va)) (PSE_PTR pa OR PSE_PRESENT OR ucast flags)))) s2
        (Option.bind (grow v2 ([EXTRACT_PML4_INDEX va, EXTRACT_PDPT_INDEX va] @ [EXTRACT_PDT_INDEX va]) fs2)
           (\<lambda>(v3, fs3). Some (v3(page_path va \<mapsto> PSE_PTR pa), fs3)))"
        unfolding 2(2) [symmetric]
      proof (rule level_refines [OF 2(1) _ _ idx(3) fl 2(4)], use 2(3) in simp, simp, unfold prod.case)
        fix v3 fs3 t3 and s3 :: "'a pmem_state_scheme"
        assume 3: "paging_ok E s3 root fs3" "pt_view s3 root = v3"
          "pt_view s3 root ([EXTRACT_PML4_INDEX va, EXTRACT_PDPT_INDEX va] @ [EXTRACT_PDT_INDEX va]) = Some t3"
        show "refines E root flags {page_path va} (store64 E (slot t3 (EXTRACT_PT_INDEX va))
            (PSE_PTR pa OR PSE_PRESENT OR ucast flags)) s3 (Some (v3(page_path va \<mapsto> PSE_PTR pa), fs3))"
          using store_leaf [OF 3(1,3) _ idx(4) fl, of pa] 3(2) by (simp add: refines_def paths(4))
      qed
    qed
  qed
qed

end
