(* ===== verification/Page_Mapping.thy ===== *)
theory Page_Mapping
  imports Paging
begin

section \<open>What mapping pages achieves\<close>

text \<open>
  The consequences of the refinement in \<open>Paging\<close>: the specification \<open>map_spec\<close> in closed
  form, sequences of mappings, and the properties of \<open>map_page_specific_pml4\<close>. The locale
  \<open>refining_loop\<close> lifts a refinement from one operation to a loop of them.
\<close>

subsection \<open>The specification in closed form\<close>

definition levels :: "path \<Rightarrow> path list" where
  "levels q = [take 1 q, take 2 q, take 3 q]"

text \<open>The tables that are missing on the way to a page.\<close>

definition missing :: "(path \<Rightarrow> u64 option) \<Rightarrow> path \<Rightarrow> path list" where
  "missing v q = filter (\<lambda>p. v p = None) (levels q)"

lemma path_cases:
  assumes "length q = 4"
  obtains i j k l where "q = [i, j, k, l]"
  using assms by (auto simp: numeral_eq_Suc length_Suc_conv)

lemma levels_distinct: "length q = 4 \<Longrightarrow> distinct (levels q)"
  by (erule path_cases) (simp add: levels_def)

lemma levels_length: "length q = 4 \<Longrightarrow> p \<in> set (levels q) \<Longrightarrow> length p \<le> 3"
  by (erule path_cases) (auto simp: levels_def)

lemma set_missing: "set (missing v q) = {p \<in> set (levels q). v p = None}"
  by (auto simp: missing_def)

lemma map_spec_eq:
  assumes "length q = 4"
  shows "map_spec v fs q a =
    (if length (missing v q) \<le> length fs
     then Some ((v ++ map_of (zip (missing v q) fs))(q \<mapsto> a), drop (length (missing v q)) fs)
     else None)"
proof -
  obtain i j k l where "q = [i, j, k, l]"
    using assms by (rule path_cases)
  then show ?thesis
    by (cases fs; cases "tl fs"; cases "tl (tl fs)"; cases "v [i]"; cases "v [i, j]"; cases "v [i, j, k]")
      (auto simp: map_spec_def grow_def missing_def levels_def fun_eq_iff map_add_def)
qed

lemma length_missing: "length (missing v q) \<le> 3"
  using length_filter_le [of "\<lambda>p. v p = None" "levels q"] by (simp add: missing_def levels_def)

text \<open>Afterwards the path leads to the page, every other page is where it was, and the
  missing tables are there.\<close>

lemma map_spec_view:
  assumes "length q = 4" "map_spec v fs q a = Some (v', fs')"
  shows "v' q = Some a"
    and "length p = 4 \<Longrightarrow> p \<noteq> q \<Longrightarrow> v' p = v p"
    and "length p \<le> 3 \<Longrightarrow> v' p = None \<longleftrightarrow> v p = None \<and> p \<notin> set (levels q)"
    and "fs' = drop (length (missing v q)) fs"
proof -
  have le: "length (missing v q) \<le> length fs"
    and v': "v' = (v ++ map_of (zip (missing v q) fs))(q \<mapsto> a)"
    and fs': "fs' = drop (length (missing v q)) fs"
    using assms by (simp_all add: map_spec_eq split: if_splits)
  show "fs' = drop (length (missing v q)) fs" by (rule fs')
  show "v' q = Some a" by (simp add: v')
  have dom: "map_of (zip (missing v q) fs) p = None \<longleftrightarrow> p \<notin> set (missing v q)" for p
    using le by (auto simp: map_of_eq_None_iff set_zip in_set_conv_nth image_iff)
  show "v' p = v p" if "length p = 4" "p \<noteq> q"
  proof -
    have "p \<notin> set (missing v q)" using that levels_length [OF assms(1), of p] by (auto simp: set_missing)
    then show ?thesis using dom [of p] that(2) by (simp add: v' map_add_def)
  qed
  show "v' p = None \<longleftrightarrow> v p = None \<and> p \<notin> set (levels q)" if "length p \<le> 3"
    using that assms(1) dom [of p] by (auto simp: v' map_add_None set_missing)
qed


subsection \<open>Mapping many pages\<close>

text \<open>An operation that refines a partial function on an abstract state, and keeps a part of
  the state: a loop of such operations refines the iterated function.\<close>

fun iterate :: "('x \<Rightarrow> 'a \<Rightarrow> 'a option) \<Rightarrow> 'x list \<Rightarrow> 'a \<Rightarrow> 'a option" where
  "iterate spec [] a = Some a"
| "iterate spec (x # xs) a = Option.bind (spec x a) (iterate spec xs)"

locale refining_loop =
  fixes body :: "'x \<Rightarrow> (unit, 's) kmon" and spec :: "'x \<Rightarrow> 'a \<Rightarrow> 'a option"
    and rel :: "'s \<Rightarrow> 'a \<Rightarrow> bool" and keep :: "'s \<Rightarrow> 's \<Rightarrow> bool" and gaveup :: "'s \<Rightarrow> 's \<Rightarrow> bool"
    and good :: "'x \<Rightarrow> bool"
  assumes body_ok: "good x \<Longrightarrow> rel s a \<Longrightarrow> spec x a = Some a' \<Longrightarrow>
      \<exists>s'. body x s = Some (Ret () s') \<and> rel s' a' \<and> keep s s'"
    and body_stuck: "good x \<Longrightarrow> rel s a \<Longrightarrow> spec x a = None \<Longrightarrow> \<exists>s'. body x s = Some (Stop Spin s') \<and> gaveup s s'"
    and keep_refl: "keep s s"
    and keep_trans: "keep s s' \<Longrightarrow> keep s' s'' \<Longrightarrow> keep s s''"
    and gaveup_keep: "keep s s' \<Longrightarrow> gaveup s' s'' \<Longrightarrow> gaveup s s''"
begin

lemma loop_ok: "\<forall>x \<in> set xs. good x \<Longrightarrow> rel s a \<Longrightarrow> iterate spec xs a = Some a' \<Longrightarrow>
    \<exists>s'. for_each body xs s = Some (Ret () s') \<and> rel s' a' \<and> keep s s'"
proof (induction xs arbitrary: s a)
  case Nil
  then show ?case by (simp add: kmon_simps keep_refl)
next
  case (Cons x xs)
  then obtain b where b: "spec x a = Some b" "iterate spec xs b = Some a'" and x: "good x"
    by (auto simp: bind_eq_Some_conv)
  obtain s1 where s1: "body x s = Some (Ret () s1)" "rel s1 b" "keep s s1"
    using body_ok [OF x Cons.prems(2) b(1)] by blast
  from Cons.IH [OF _ s1(2) b(2)] show ?case using s1 Cons.prems(1) by (auto simp: andthen_Ret intro: keep_trans)
qed

lemma loop_stuck: "\<forall>x \<in> set xs. good x \<Longrightarrow> rel s a \<Longrightarrow> iterate spec xs a = None \<Longrightarrow>
    \<exists>s'. for_each body xs s = Some (Stop Spin s') \<and> gaveup s s'"
proof (induction xs arbitrary: s a)
  case (Cons x xs)
  show ?case
  proof (cases "spec x a")
    case None
    from body_stuck [OF _ Cons.prems(2) this] show ?thesis using Cons.prems(1) by (auto simp: andthen_Stop)
  next
    case (Some b)
    obtain s1 where s1: "body x s = Some (Ret () s1)" "rel s1 b" "keep s s1"
      using body_ok [OF _ Cons.prems(2) Some] Cons.prems(1) by auto
    have "iterate spec xs b = None" using Cons.prems(3) Some by simp
    from Cons.IH [OF _ s1(2) this] show ?thesis using s1 Cons.prems(1) by (auto simp: andthen_Ret intro: gaveup_keep)
  qed
qed simp

end

text \<open>Mappings in the order they are made: from a physical to a virtual address.\<close>

type_synonym mapping_step = "flux_phyaddr \<times> flux_virtaddr"

definition step_spec ::
    "mapping_step \<Rightarrow> (path \<Rightarrow> u64 option) \<times> u64 list \<Rightarrow> ((path \<Rightarrow> u64 option) \<times> u64 list) option" where
  "step_spec x a = map_spec (fst a) (snd a) (page_path (snd x)) (PSE_PTR (fst x))"

definition paging_rel :: "env \<Rightarrow> u64 \<Rightarrow> u32 \<Rightarrow> 'z pmem_state_scheme \<Rightarrow> (path \<Rightarrow> u64 option) \<times> u64 list \<Rightarrow> bool" where
  "paging_rel E root flags s a \<longleftrightarrow> paging_ok E s root (snd a) \<and> pt_view s root = fst a \<and>
     console_ready E s \<and> entry_flags flags \<and> flagged (\<lambda>_. flags) root (rd64 (ram s))"

interpretation mapper: refining_loop "\<lambda>x. map_page_specific_pml4 E root (fst x) (snd x) flags" step_spec
    "paging_rel E root flags" pmem_only "\<lambda>s s'. console_out s' = console_out s @ out_of_frames"
    "\<lambda>x. True" for E root flags
proof unfold_locales
  fix s s' s'' :: "'a pmem_state_scheme" and a a' x
  show "pmem_only s s" by simp
  show "pmem_only s s' \<Longrightarrow> pmem_only s' s'' \<Longrightarrow> pmem_only s s''" by (rule pmem_only_trans)
  show "pmem_only s s' \<Longrightarrow> console_out s'' = console_out s' @ out_of_frames \<Longrightarrow>
      console_out s'' = console_out s @ out_of_frames" by (simp add: pmem_only_out)
  assume r: "paging_rel E root flags s a"
  have m: "refines E root flags {page_path (snd x)} (map_page_specific_pml4 E root (fst x) (snd x) flags) s (step_spec x a)"
    using r map_page_refines [of E s root "snd a" flags "snd x" "fst x"]
    by (simp add: paging_rel_def step_spec_def)
  show "step_spec x a = Some a' \<Longrightarrow> \<exists>s'. map_page_specific_pml4 E root (fst x) (snd x) flags s =
      Some (Ret () s') \<and> paging_rel E root flags s' a' \<and> pmem_only s s'"
  proof -
    assume a': "step_spec x a = Some a'"
    obtain s' where "map_page_specific_pml4 E root (fst x) (snd x) flags s = Some (Ret () s')"
        "paging_ok E s' root (snd a')" "pt_view s' root = fst a'" "pmem_only s s'"
        "sets_entries flags {page_path (snd x)} root (rd64 (ram s)) (rd64 (ram s'))"
      using m by (auto simp: refines_def a' split: prod.splits)
    moreover have "flagged (\<lambda>_. flags) root (rd64 (ram s'))"
      using r calculation(5) by (auto simp: paging_rel_def intro: flagged_sets)
    ultimately show ?thesis using r pmem_only_ready [of s s' E] by (auto simp: paging_rel_def)
  qed
  show "step_spec x a = None \<Longrightarrow> \<exists>s'. map_page_specific_pml4 E root (fst x) (snd x) flags s =
      Some (Stop Spin s') \<and> console_out s' = console_out s @ out_of_frames"
    using m by (simp add: refines_def)
qed

text \<open>How many frames the mappings take: one for each missing table.\<close>

definition missing_tables :: "(path \<Rightarrow> u64 option) \<Rightarrow> path list \<Rightarrow> path set" where
  "missing_tables v qs = {p. v p = None \<and> (\<exists>q \<in> set qs. p \<in> set (levels q))}"

lemma finite_missing_tables [simp]: "finite (missing_tables v qs)"
  by (rule finite_subset [of _ "\<Union>q \<in> set qs. set (levels q)"]) (auto simp: missing_tables_def)

lemma card_missing: "length q = 4 \<Longrightarrow> card (set (missing v q)) = length (missing v q)"
  unfolding missing_def by (rule distinct_card) (simp add: levels_distinct)

lemma card_missing_Cons:
  assumes "length q = 4" and "\<forall>p. length p \<le> 3 \<longrightarrow> (v' p = None \<longleftrightarrow> v p = None \<and> p \<notin> set (levels q))"
    and "\<forall>q' \<in> set qs. length q' = 4"
  shows "card (missing_tables v (q # qs)) = length (missing v q) + card (missing_tables v' qs)"
proof -
  have "missing_tables v (q # qs) = set (missing v q) \<union> missing_tables v' qs"
    using assms levels_length by (fastforce simp: missing_tables_def set_missing)
  moreover have "set (missing v q) \<inter> missing_tables v' qs = {}"
    using assms levels_length by (fastforce simp: missing_tables_def set_missing)
  ultimately show ?thesis using card_missing [OF assms(1), of v] by (simp add: card_Un_disjoint)
qed

lemma iterate_step_spec:
  fixes xs :: "mapping_step list"
  defines "qs \<equiv> \<lambda>xs :: mapping_step list. map (\<lambda>x. page_path (snd x)) xs"
    and "ms \<equiv> \<lambda>xs :: mapping_step list. map (\<lambda>x. (page_path (snd x), PSE_PTR (fst x))) xs"
  shows "if card (missing_tables v (qs xs)) \<le> length fs
    then \<exists>v'. iterate step_spec xs (v, fs) = Some (v', drop (card (missing_tables v (qs xs))) fs) \<and>
      (\<forall>p. length p = 4 \<longrightarrow> v' p = (v ++ map_of (rev (ms xs))) p)
    else iterate step_spec xs (v, fs) = None"
proof (induction xs arbitrary: v fs)
  case Nil
  then show ?case by (simp add: missing_tables_def qs_def ms_def)
next
  case (Cons x xs)
  define q where "q = page_path (snd x)"
  have q: "length q = 4" by (simp add: q_def)
  show ?case
  proof (cases "map_spec v fs q (PSE_PTR (fst x))")
    case None
    then have "length fs < length (missing v q)" using q by (simp add: map_spec_eq split: if_splits)
    also have "\<dots> \<le> card (missing_tables v (q # qs xs))"
    proof -
      have "card (set (missing v q)) \<le> card (missing_tables v (q # qs xs))"
        by (rule card_mono) (auto simp: missing_tables_def set_missing)
      then show ?thesis by (simp only: card_missing [OF q])
    qed
    finally show ?thesis using None by (simp add: step_spec_def q_def qs_def)
  next
    case (Some r)
    obtain v1 fs1 where r: "r = (v1, fs1)" by (cases r)
    note m = map_spec_view [OF q Some [unfolded r]]
    have le: "length (missing v q) \<le> length fs" using Some q by (simp add: map_spec_eq split: if_splits)
    have card: "card (missing_tables v (q # qs xs)) = length (missing v q) + card (missing_tables v1 (qs xs))"
      by (rule card_missing_Cons [OF q]) (use m(3) in \<open>auto simp: qs_def\<close>)
    have ends: "(v ++ map_of (rev (ms (x # xs)))) p = (v1 ++ map_of (rev (ms xs))) p" if "length p = 4" for p
      using m(1) m(2) [OF that] by (auto simp: ms_def map_add_def q_def split: option.split)
    have len: "card (missing_tables v (q # qs xs)) \<le> length fs \<longleftrightarrow> card (missing_tables v1 (qs xs)) \<le> length fs1"
      using le by (auto simp: m(4) card)
    have "iterate step_spec (x # xs) (v, fs) = iterate step_spec xs (v1, fs1)"
      using Some by (simp add: step_spec_def q_def r)
    moreover have "drop (card (missing_tables v1 (qs xs))) fs1 = drop (card (missing_tables v (q # qs xs))) fs"
      by (simp add: m(4) card add.commute)
    ultimately show ?thesis
      using Cons.IH [of v1 fs1] len ends by (simp add: qs_def q_def [symmetric] split: if_splits)
  qed
qed


subsection \<open>From views to translations\<close>

lemma paging_ok_root: "paging_ok E s root fs \<Longrightarrow> frame_ok E root"
  by (simp add: paging_ok_def)

lemma translate_view: "paging_ok E s root fs \<Longrightarrow> translate (ram s) root va =
    (if canonical va then map_option (\<lambda>p. p + EXTRACT_OFFSET va) (pt_view s root (page_path va)) else None)"
  using translate_small [OF paging_ok_small frame_ok_addr [OF paging_ok_root], of E s root fs E s fs va]
  by (simp add: pt_view_def)

text \<open>A root without present entries.\<close>

lemma empty_root:
  assumes "pmem_ok E s fs" "frame_ok E root" "root \<notin> set fs"
    and "\<forall>i<512. rd64 (ram s) (slot root i) AND PSE_PRESENT = 0"
  shows "paging_ok E s root fs" and "pt_view s root = [[] \<mapsto> root]"
proof -
  have walk: "walk (rd64 (ram s)) root p = None" if "idx_path p" "p \<noteq> []" for p
    using that assms(4) by (cases p) (auto simp: Let_def)
  then show v: "pt_view s root = [[] \<mapsto> root]"
    by (auto simp: pt_view_def view_def fun_eq_iff)
  have "tables (rd64 (ram s)) root = {root}"
    using v by (auto simp: tables_view pt_view_def split: if_splits)
  moreover have "tree (rd64 (ram s)) root"
    using v frame_ok_addr [OF assms(2)] by (auto simp: tree_view pt_view_def split: if_splits)
  moreover have "small (rd64 (ram s)) root" using v by (simp add: small_def pt_view_def)
  ultimately show "paging_ok E s root fs" using assms by (simp add: paging_ok_def)
qed

section \<open>Properties\<close>

text \<open>C1: \<open>map_page_specific_pml4\<close> maps exactly one page. With enough frames for the missing
  tables it returns; then every address of the page of \<open>va\<close> translates into the frame of
  \<open>pa\<close>, every address of every other page translates as before, the tables still form a
  tree that is disjoint from the free frames, exactly one frame per missing table is
  used, and nothing but memory and the allocator changes.\<close>

theorem map_page_translates:
  assumes "paging_ok E s root fs" "entry_flags flags" "console_ready E s"
    and "length (missing (pt_view s root) (page_path va)) \<le> length fs"
  shows "\<exists>s'. map_page_specific_pml4 E root pa va flags s = Some (Ret () s') \<and>
    (\<forall>va'. translate (ram s') root va' =
      (if canonical va' \<and> page_path va' = page_path va then Some (PSE_PTR pa + EXTRACT_OFFSET va')
       else translate (ram s) root va')) \<and>
    paging_ok E s' root (drop (length (missing (pt_view s root) (page_path va))) fs) \<and> pmem_only s s'"
proof -
  obtain v' fs' where m: "map_spec (pt_view s root) fs (page_path va) (PSE_PTR pa) = Some (v', fs')"
    using assms(4) by (simp add: map_spec_eq)
  note spec = map_spec_view [OF length_page_path m]
  obtain s' where s': "map_page_specific_pml4 E root pa va flags s = Some (Ret () s')"
      "paging_ok E s' root fs'" "pt_view s' root = v'" "pmem_only s s'"
    using map_page_refines [OF assms(1-3), of va pa] by (auto simp: refines_def m)
  have "translate (ram s') root va' =
      (if canonical va' \<and> page_path va' = page_path va then Some (PSE_PTR pa + EXTRACT_OFFSET va')
       else translate (ram s) root va')" for va'
    using translate_view [OF s'(2), of va'] translate_view [OF assms(1), of va'] spec(1) spec(2) [of "page_path va'"]
    by (auto simp: s'(3))
  then show ?thesis using s'(1,2,4) spec(4) by blast
qed

text \<open>C25: when fewer frames are free than tables are missing, \<open>map_page_specific_pml4\<close> does
  not map the page: it prints that the allocator's assertion failed and hangs.\<close>

theorem map_page_exhausts:
  assumes "paging_ok E s root fs" "entry_flags flags" "console_ready E s"
    and "length fs < length (missing (pt_view s root) (page_path va))"
  shows "\<exists>s'. map_page_specific_pml4 E root pa va flags s = Some (Stop Spin s') \<and>
    console_out s' = console_out s @ trace_text (''arch/x64/mem.c'', 136, ''get_phys_block'')
      (PBAD ''Assertion (ret != NULL) failed'')"
  using map_page_refines [OF assms(1-3), of va pa] assms(4)
  by (simp add: refines_def map_spec_eq out_of_frames_def)

text \<open>A page in a 2 MiB region where some page was just mapped needs no frame: it is
  mapped even when none is left, so the same page can be mapped anew at any time, and the
  last mapping counts.\<close>

theorem map_page_neighbour:
  assumes "paging_ok E s root fs" "entry_flags flags" "console_ready E s"
    and "map_page_specific_pml4 E root pa va flags s = Some (Ret () s1)"
    and "take 3 (page_path va') = take 3 (page_path va)"
  shows "\<exists>s2 fs1. map_page_specific_pml4 E root pa' va' flags s1 = Some (Ret () s2) \<and>
    paging_ok E s1 root fs1 \<and> paging_ok E s2 root fs1 \<and>
    (\<forall>a. canonical a \<and> page_path a = page_path va' \<longrightarrow>
       translate (ram s2) root a = Some (PSE_PTR pa' + EXTRACT_OFFSET a))"
proof -
  obtain v1 fs1 where m: "map_spec (pt_view s root) fs (page_path va) (PSE_PTR pa) = Some (v1, fs1)"
      "paging_ok E s1 root fs1" "pt_view s1 root = v1" "pmem_only s s1"
    using map_page_refines [OF assms(1-3), of va pa] assms(4)
    by (auto simp: refines_def split: option.splits)
  have ready: "console_ready E s1" using pmem_only_ready [OF m(4)] assms(3) by simp
  have "levels (page_path va') = levels (page_path va)"
    using assms(5) by (simp add: levels_def page_path_def)
  then have "missing (pt_view s1 root) (page_path va') = []"
    using map_spec_view(3) [OF length_page_path m(1)] levels_length [OF length_page_path, of _ va]
    by (auto simp: missing_def filter_empty_conv m(3))
  then obtain v2 where n: "map_spec (pt_view s1 root) fs1 (page_path va') (PSE_PTR pa') = Some (v2, fs1)"
    by (simp add: map_spec_eq)
  obtain s2 where s2: "map_page_specific_pml4 E root pa' va' flags s1 = Some (Ret () s2)"
      "paging_ok E s2 root fs1" "pt_view s2 root = v2"
    using map_page_refines [OF m(2) assms(2) ready, of va' pa'] by (auto simp: refines_def n)
  then show ?thesis
    using translate_view [OF s2(2)] map_spec_view(1) [OF length_page_path n] m(2) by auto
qed

text \<open>C18: address spaces are isolated. \<open>map_page_specific_pml4\<close> writes to nothing but the
  tables of the tree it is given, old or new, and the new ones were free frames; every frame
  that is not one of them afterwards keeps its contents, frames that stay free included. A tree
  of tables that shares no table with it, whatever else it holds, translates every address as
  before, with the same access for user mode.\<close>

theorem map_page_isolates:
  assumes "paging_ok E s root fs" "entry_flags flags" "console_ready E s"
    and "map_page_specific_pml4 E root pa va flags s = Some (Ret () s')"
    and "frame_addr other"
    and "\<forall>t \<in> tables (rd64 (ram s)) other. page_aligned t \<and> t \<notin> tables (rd64 (ram s)) root \<and> t \<notin> set fs"
  shows "(\<forall>va'. translate (ram s') other va' = translate (ram s) other va' \<and>
      user_reads (ram s') other va' = user_reads (ram s) other va' \<and>
      user_writes (ram s') other va' = user_writes (ram s) other va') \<and>
    tables (rd64 (ram s)) root \<subseteq> tables (rd64 (ram s')) root \<and>
    tables (rd64 (ram s')) root \<subseteq> tables (rd64 (ram s)) root \<union> set fs \<and>
    (\<forall>f i. page_aligned f \<and> f \<notin> tables (rd64 (ram s')) root \<and> i < 512 \<longrightarrow>
       rd64 (ram s') (slot f i) = rd64 (ram s) (slot f i))"
proof -
  have st: "stays root s s'"
    using map_page_refines [OF assms(1-3), of va pa] assms(4) by (auto simp: refines_def split: option.splits)
  note out = stays_outside [OF st, unfolded footprint_ok [OF assms(1)]]
  have "tables (rd64 (ram s')) root \<subseteq> footprint root s'" by (simp add: footprint_def)
  then have sub: "tables (rd64 (ram s')) root \<subseteq> tables (rd64 (ram s)) root \<union> set fs"
    using st by (simp add: stays_def footprint_ok [OF assms(1)])
  have "page_walk (rd64 (ram s')) other (page_path va') = page_walk (rd64 (ram s)) other (page_path va')" for va'
    using assms(6) out by (intro page_walk_same [where p = "[]" and root = other]) auto
  then have "page_at (ram s') other va' = page_at (ram s) other va'" for va' by (simp add: page_at_root [OF assms(5)])
  then show ?thesis
    using st sub by (simp add: translate_def rights_def user_reads_def user_writes_def stays_def)
qed

subsection \<open>Witnesses\<close>

text \<open>Three free frames and an empty root.\<close>

definition three_frames :: pmem_state where
  "three_frames = two_frames\<lparr>ram := wr64 (ram two_frames) 0x4000 0x3000, first_page_frame := 0x4000,
     n_free_page_frames := 3\<rparr>"

lemma small_frames [simp]: "frame_addr 0x4000" "frame_addr 0x5000"
  by (simp_all add: frame_addr_def aligned_def)

lemma three_frames_ok: "pmem_ok idle_env three_frames [0x4000, 0x3000, 0x8000]"
  using pmem_ok_given [where f = "0x4000", OF two_frames_ok]
  by (simp add: idle_frame_ok three_frames_def two_frames_def)

lemma three_frames_ready: "console_ready idle_env three_frames"
  using two_frames_ready by (simp add: console_ready_def three_frames_def two_frames_def)

lemma demo_root_empty:
  assumes "i < 512"
  shows "rd64 (ram two_frames) (slot 0x5000 i) = 0" "rd64 (ram three_frames) (slot 0x5000 i) = 0"
proof -
  have f: "aligned 8 (slot 0x5000 i)" "aligned 8 0x3000" "aligned 8 0x4000" using assms by simp_all
  have "slot 0x5000 i \<noteq> slot 0x3000 0" "slot 0x5000 i \<noteq> slot 0x4000 0"
    using assms slot_eq_iff [of "0x5000" "0x3000" i 0] slot_eq_iff [of "0x5000" "0x4000" i 0] by simp_all
  with f show "rd64 (ram two_frames) (slot 0x5000 i) = 0" "rd64 (ram three_frames) (slot 0x5000 i) = 0"
    by (simp_all add: two_frames_def three_frames_def rd64_wr64_other)
qed

lemma demo_root: "frame_ok idle_env 0x5000" by (simp add: idle_frame_ok)

lemma two_frames_root:
  "paging_ok idle_env two_frames 0x5000 [0x3000, 0x8000]" "pt_view two_frames 0x5000 = [[] \<mapsto> 0x5000]"
  by (rule empty_root [OF two_frames_ok demo_root]; simp add: demo_root_empty)+

lemma three_frames_root:
  "paging_ok idle_env three_frames 0x5000 [0x4000, 0x3000, 0x8000]"
  "pt_view three_frames 0x5000 = [[] \<mapsto> 0x5000]"
  by (rule empty_root [OF three_frames_ok demo_root]; simp add: demo_root_empty)+

lemma missing_root: "length (missing [[] \<mapsto> r] (page_path va)) = 3"
  by (simp add: missing_def levels_def page_path_def)

lemma kernel_flags: "entry_flags (PSE_WRITEABLE OR PSE_USER_MODE)"
  by (simp add: entry_flags_def PSE_WRITEABLE_def PSE_USER_MODE_def bit_iff_odd_drop_bit)

theorem map_page_translates_witness:
  "\<exists>s'. map_page_specific_pml4 idle_env 0x5000 0x9000 0xffffffff80000000 (PSE_WRITEABLE OR PSE_USER_MODE)
       three_frames = Some (Ret () s') \<and>
     translate (ram s') 0x5000 0xffffffff80000123 = Some 0x9123 \<and> paging_ok idle_env s' 0x5000 []"
proof -
  have "page_path 0xffffffff80000123 = page_path 0xffffffff80000000" "canonical 0xffffffff80000123"
    "PSE_PTR 0x9000 + EXTRACT_OFFSET 0xffffffff80000123 = 0x9123"
    by (simp_all add: page_path_def canonical_def PSE_PTR_def EXTRACT_OFFSET_def EXTRACT_PML4_INDEX_def
        EXTRACT_PDPT_INDEX_def EXTRACT_PDT_INDEX_def EXTRACT_PT_INDEX_def)
  then show ?thesis
    using map_page_translates [where va = "0xffffffff80000000" and pa = "0x9000", OF three_frames_root(1) kernel_flags
        three_frames_ready]
    by (auto simp: three_frames_root(2) missing_root)
qed

theorem map_page_exhausts_witness:
  "\<exists>s'. map_page_specific_pml4 idle_env 0x5000 0x9000 0xffffffff80000000 (PSE_WRITEABLE OR PSE_USER_MODE)
       two_frames = Some (Stop Spin s')"
  using map_page_exhausts [where va = "0xffffffff80000000" and pa = "0x9000", OF two_frames_root(1)
      kernel_flags two_frames_ready]
  by (auto simp: two_frames_root(2) missing_root)

theorem map_page_neighbour_witness:
  "\<exists>s1 s2. map_page_specific_pml4 idle_env 0x5000 0x9000 0xffffffff80000000 (PSE_WRITEABLE OR PSE_USER_MODE)
       three_frames = Some (Ret () s1) \<and>
     map_page_specific_pml4 idle_env 0x5000 0xa000 0xffffffff80001000 (PSE_WRITEABLE OR PSE_USER_MODE)
       s1 = Some (Ret () s2) \<and> translate (ram s2) 0x5000 0xffffffff80001004 = Some 0xa004"
proof -
  obtain s1 where s1: "map_page_specific_pml4 idle_env 0x5000 0x9000 0xffffffff80000000
      (PSE_WRITEABLE OR PSE_USER_MODE) three_frames = Some (Ret () s1)"
    using map_page_refines [where va = "0xffffffff80000000" and pa = "0x9000", OF three_frames_root(1)
        kernel_flags three_frames_ready]
    by (auto simp: refines_def map_spec_eq three_frames_root(2) missing_root split: if_splits)
  have "take 3 (page_path 0xffffffff80001000) = take 3 (page_path 0xffffffff80000000)"
    "page_path 0xffffffff80001004 = page_path 0xffffffff80001000" "canonical 0xffffffff80001004"
    "PSE_PTR 0xa000 + EXTRACT_OFFSET 0xffffffff80001004 = 0xa004"
    by (simp_all add: page_path_def canonical_def PSE_PTR_def EXTRACT_OFFSET_def EXTRACT_PML4_INDEX_def
        EXTRACT_PDPT_INDEX_def EXTRACT_PDT_INDEX_def EXTRACT_PT_INDEX_def)
  then show ?thesis
    using map_page_neighbour [where va' = "0xffffffff80001000" and pa' = "0xa000", OF three_frames_root(1)
        kernel_flags three_frames_ready s1] s1
    by auto
qed

theorem map_page_isolates_witness:
  "\<exists>s'. map_page_specific_pml4 idle_env 0x5000 0x9000 0xffffffff80000000 (PSE_WRITEABLE OR PSE_USER_MODE)
       three_frames = Some (Ret () s') \<and> translate (ram s') 0x6000 0x1234 = None"
proof -
  have f: "frame_ok idle_env 0x6000" by (simp add: idle_frame_ok frame_addr_def aligned_def)
  have "rd64 (ram three_frames) (slot 0x6000 i) AND PSE_PRESENT = 0" if "i < 512" for i
  proof -
    have al: "aligned 8 (slot 0x6000 i)" "aligned 8 0x3000" "aligned 8 0x4000" using that frame_ok_addr [OF f] by simp_all
    have "slot 0x6000 i \<noteq> slot 0x3000 0" "slot 0x6000 i \<noteq> slot 0x4000 0"
      using that slot_eq_iff [of "0x6000" "0x3000" i 0] slot_eq_iff [of "0x6000" "0x4000" i 0] frame_ok_addr [OF f]
      by simp_all
    then show ?thesis using al by (simp add: two_frames_def three_frames_def rd64_wr64_other)
  qed
  then have ok6: "paging_ok idle_env three_frames 0x6000 [0x4000, 0x3000, 0x8000]" and v: "pt_view three_frames 0x6000 = [[] \<mapsto> 0x6000]"
    by (intro empty_root [OF three_frames_ok f]; simp)+
  have t: "tables (rd64 (ram three_frames)) 0x6000 = {0x6000}" "tables (rd64 (ram three_frames)) 0x5000 = {0x5000}"
    using v three_frames_root(2) by (auto simp: tables_view pt_view_def split: if_splits)
  have none: "translate (ram three_frames) 0x6000 0x1234 = None"
    using v translate_view [OF ok6, of "0x1234"] by (simp add: page_path_def)
  obtain s' where s': "map_page_specific_pml4 idle_env 0x5000 0x9000 0xffffffff80000000
      (PSE_WRITEABLE OR PSE_USER_MODE) three_frames = Some (Ret () s')"
    using map_page_refines [where va = "0xffffffff80000000" and pa = "0x9000", OF three_frames_root(1)
        kernel_flags three_frames_ready]
    by (auto simp: refines_def map_spec_eq three_frames_root(2) missing_root split: if_splits)
  have "\<forall>va. translate (ram s') 0x6000 va = translate (ram three_frames) 0x6000 va"
    using map_page_isolates [OF three_frames_root(1) kernel_flags three_frames_ready s' frame_ok_addr [OF f]]
      frame_ok_addr [OF f] by (simp add: t)
  with s' none show ?thesis by simp
qed

end
