(* ===== verification/Kernel_Map.thy ===== *)
theory Kernel_Map
  imports Page_Mapping
begin

section \<open>The kernel's address space (\<open>setup_kernel_map\<close>, \<open>mem_init\<close> of \<open>arch/x64/mem.c\<close>)\<close>

text \<open>
  Building the kernel's page tables from the boot loader's memory map, and the memory
  initialisation as a whole. The specification is the list of mappings that the loops make,
  in order; the properties say which physical address each virtual address has afterwards.
\<close>

text \<open>The body of the loop over the memory map. Reading a response that is NULL is undefined.\<close>

definition map_kernel_entry :: "env \<Rightarrow> limine_memmap_entry \<Rightarrow> (unit, 'z paging_state_scheme) kmon" where
  "map_kernel_entry E entry =
     when_do (memmap_type entry = LIMINE_MEMMAP_KERNEL_AND_MODULES)
       (deref (kernel_address_response E) (\<lambda>kern_addr_resp.
        andthen (if memmap_base entry = physical_base kern_addr_resp
          then andthen (printk E (''[Kernel map] Mapping phys %p (%d blocks) to virt %p'' @ NL)
              [VInt (memmap_base entry), VInt (memmap_length entry div 4096), VInt FLUX_BASE_VIRT]) (\<lambda>_. ret 0)
          else andthen (printk E (''[Module map] Mapping phys %p (%d blocks) to virt %p'' @ NL)
              [VInt (memmap_base entry), VInt (memmap_length entry div 4096),
               VInt (FLUX_BASE_VIRT + memmap_base entry)]) (\<lambda>_. ret (memmap_base entry)))
          (\<lambda>mapping_module_offset.
        for_step 4096 (memmap_length entry) (\<lambda>b_offset.
          andthen (gets kernel_pml4_table) (\<lambda>pml4.
          map_page_specific_pml4 E pml4 (memmap_base entry + b_offset)
            (FLUX_BASE_VIRT + b_offset + mapping_module_offset) (PSE_WRITEABLE OR PSE_USER_MODE))) 0)))"

definition setup_kernel_map :: "env \<Rightarrow> (unit, 'z paging_state_scheme) kmon" where
  "setup_kernel_map E =
     andthen (get_phys_block E) (\<lambda>b.
     andthen (modify (\<lambda>s. s\<lparr>kernel_pml4_table := b\<rparr>)) (\<lambda>_.
     deref (memmap_response E) (\<lambda>memmap_resp.
     andthen (for_each (map_kernel_entry E) (memmap_entries memmap_resp)) (\<lambda>_.
     deref (hhdm_response E) (\<lambda>hhdm_resp.
     andthen (printk E (''[HHDM map] Mapping first 4GB to virt %p'' @ NL) [VInt (hhdm_offset hhdm_resp)]) (\<lambda>_.
     for_step 4096 0x100000000 (\<lambda>p.
       andthen (gets kernel_pml4_table) (\<lambda>pml4.
       map_page_specific_pml4 E pml4 p (hhdm_offset hhdm_resp + p) (PSE_WRITEABLE OR PSE_USER_MODE))) 0))))))"

text \<open>The \<open>int\<close> that \<open>find_free_frames\<close> returns is converted to \<open>unsigned long\<close>.\<close>

definition mem_init :: "env \<Rightarrow> (u64, 'z paging_state_scheme) kmon" where
  "mem_init E =
     andthen (modify (\<lambda>s. s\<lparr>first_page_frame := 0\<rparr>)) (\<lambda>_.
     andthen (ASSERT E (''arch/x64/mem.c'', 109, ''mem_init'') ''resp != NULL'' (memmap_response E \<noteq> None)) (\<lambda>_.
     andthen (printk E (SYSTEM_PMEM @ ''Initialising physical memory manager'' @ NL) []) (\<lambda>_.
     andthen (when_do DEBUG_PRINT_MEMMAP_ENTRIES (deref (memmap_response E) (\<lambda>resp.
       for_each (\<lambda>entry. printk E (SYSTEM_PMEM @ ''MMap: base: %p, length: %p, type: %d'' @ NL)
         [VInt (memmap_base entry), VInt (memmap_length entry), VInt (memmap_type entry)]) (memmap_entries resp)))) (\<lambda>_.
     andthen (find_free_frames E) (\<lambda>n.
     andthen (modify (\<lambda>s. s\<lparr>n_free_page_frames := scast n\<rparr>)) (\<lambda>_.
     andthen (gets n_free_page_frames) (\<lambda>n.
     andthen (printk E (SYSTEM_PMEM @ PGOOD (''Added %d 4K blocks to the physical page frame list.'' @ NL)) [VInt n]) (\<lambda>_.
     andthen (setup_kernel_map E) (\<lambda>_.
     andthen (gets n_free_page_frames) (\<lambda>n.
     andthen (printk E (SYSTEM_PAGING @ PGOOD (''Successfully set up kernel page mapping. %d blocks left.'' @ NL)) [VInt n]) (\<lambda>_.
     gets n_free_page_frames)))))))))))"

subsection \<open>The mappings that are made\<close>

definition entry_steps :: "limine_kernel_address_response \<Rightarrow> limine_memmap_entry \<Rightarrow> mapping_step list" where
  "entry_steps ka e = map (\<lambda>b. (memmap_base e + b, FLUX_BASE_VIRT + b +
     (if memmap_base e = physical_base ka then 0 else memmap_base e))) (step_range 4096 0 (memmap_length e))"

definition is_kernel_entry :: "limine_memmap_entry \<Rightarrow> bool" where
  "is_kernel_entry e \<longleftrightarrow> memmap_type e = LIMINE_MEMMAP_KERNEL_AND_MODULES"

definition hhdm_steps :: "limine_hhdm_response \<Rightarrow> mapping_step list" where
  "hhdm_steps hh = map (\<lambda>p. (p, hhdm_offset hh + p)) (step_range 4096 0 0x100000000)"

definition kernel_steps ::
    "limine_memmap_response \<Rightarrow> limine_kernel_address_response \<Rightarrow> limine_hhdm_response \<Rightarrow> mapping_step list" where
  "kernel_steps mm ka hh =
     concat (map (entry_steps ka) (filter is_kernel_entry (memmap_entries mm))) @ hhdm_steps hh"

subsection \<open>What printing and mapping keep\<close>

text \<open>The allocator, memory and the trace of the ports may change.\<close>

definition mapping_kept :: "'z paging_state_scheme \<Rightarrow> 'z paging_state_scheme \<Rightarrow> bool" where
  "mapping_kept s s' \<longleftrightarrow> (\<exists>evs m h n. s' = s\<lparr>io_trace := io_trace s @ evs, ram := m,
     first_page_frame := h, n_free_page_frames := n\<rparr>)"

lemma mapping_kept_refl [simp]: "mapping_kept s s"
  unfolding mapping_kept_def
  by (intro exI [of _ "[]"] exI [of _ "ram s"] exI [of _ "first_page_frame s"]
      exI [of _ "n_free_page_frames s"]) simp

lemma mapping_kept_trans: "mapping_kept s s' \<Longrightarrow> mapping_kept s' s'' \<Longrightarrow> mapping_kept s s''"
  unfolding mapping_kept_def by (elim exE, simp) blast

lemma mapping_kept_pmem: "pmem_only s s' \<Longrightarrow> mapping_kept s s'"
  unfolding mapping_kept_def pmem_only_def
  by (elim exE, intro exI [of _ "[]"] exI [of _ "ram s'"] exI [of _ "first_page_frame s'"]
      exI [of _ "n_free_page_frames s'"]) simp

lemma mapping_kept_io: "only_io s s' \<Longrightarrow> mapping_kept s s'"
  unfolding mapping_kept_def only_io_def
proof (elim exE)
  fix evs assume "s' = s\<lparr>io_trace := io_trace s @ evs\<rparr>"
  then show "\<exists>evs m h n. s' = s\<lparr>io_trace := io_trace s @ evs, ram := m, first_page_frame := h,
      n_free_page_frames := n\<rparr>"
    by (intro exI [of _ evs] exI [of _ "ram s"] exI [of _ "first_page_frame s"]
        exI [of _ "n_free_page_frames s"]) simp
qed

lemma mapping_kept_pml4: "mapping_kept s s' \<Longrightarrow> kernel_pml4_table s' = kernel_pml4_table s \<and> aspace s' = aspace s"
  by (auto simp: mapping_kept_def)

lemma mapping_kept_more: "mapping_kept s s' \<Longrightarrow> paging_state.more s' = paging_state.more s"
  by (auto simp: mapping_kept_def)

lemma mapping_kept_out: "mapping_kept s s' \<Longrightarrow> \<exists>t. console_out s' = console_out s @ t"
  by (auto simp: mapping_kept_def console_out_def map_filter_append split: option.split)

lemma paging_rel_io:
  assumes "only_io s s'" "console_ready E s'"
  shows "paging_rel E root flags s a \<Longrightarrow> paging_rel E root flags s' a"
  using assms by (auto simp: only_io_def paging_rel_def paging_ok_def pmem_ok_def pt_view_def)

subsection \<open>The loops refine the list of mappings\<close>

text \<open>Giving up for want of frames: the last thing printed is the failed assertion.\<close>

definition gave_up :: "'z serial_state_scheme \<Rightarrow> 'z serial_state_scheme \<Rightarrow> bool" where
  "gave_up s s' \<longleftrightarrow> (\<exists>t. console_out s' = console_out s @ t @ out_of_frames)"

lemma gave_up_kept: "mapping_kept s s' \<Longrightarrow> gave_up s' s'' \<Longrightarrow> gave_up s s''"
  using mapping_kept_out [of s s'] by (fastforce simp: gave_up_def)

definition kernel_rel :: "env \<Rightarrow> u64 \<Rightarrow> 'z paging_state_scheme \<Rightarrow> (path \<Rightarrow> u64 option) \<times> u64 list \<Rightarrow> bool" where
  "kernel_rel E root s a \<longleftrightarrow> paging_rel E root (PSE_WRITEABLE OR PSE_USER_MODE) s a \<and> kernel_pml4_table s = root"

definition kernel_map_page :: "env \<Rightarrow> mapping_step \<Rightarrow> (unit, 'z paging_state_scheme) kmon" where
  "kernel_map_page E x = andthen (gets kernel_pml4_table) (\<lambda>pml4.
     map_page_specific_pml4 E pml4 (fst x) (snd x) (PSE_WRITEABLE OR PSE_USER_MODE))"

interpretation kernel_pages: refining_loop "kernel_map_page E" step_spec "kernel_rel E root"
    pmem_only "\<lambda>s s'. console_out s' = console_out s @ out_of_frames" "\<lambda>x. True" for E root
proof unfold_locales
  fix s s' s'' :: "'a paging_state_scheme" and a a' x
  show "pmem_only s s" by simp
  show "pmem_only s s' \<Longrightarrow> pmem_only s' s'' \<Longrightarrow> pmem_only s s''" by (rule pmem_only_trans)
  show "pmem_only s s' \<Longrightarrow> console_out s'' = console_out s' @ out_of_frames \<Longrightarrow>
      console_out s'' = console_out s @ out_of_frames" by (simp add: pmem_only_out)
  assume r: "kernel_rel E root s a"
  then have run: "kernel_map_page E x s =
      map_page_specific_pml4 E root (fst x) (snd x) (PSE_WRITEABLE OR PSE_USER_MODE) s"
    and rel: "paging_rel E root (PSE_WRITEABLE OR PSE_USER_MODE) s a"
    by (simp_all add: kernel_map_page_def kernel_rel_def gets_andthen)
  show "\<exists>s'. kernel_map_page E x s = Some (Ret () s') \<and> kernel_rel E root s' a' \<and> pmem_only s s'"
    if a': "step_spec x a = Some a'"
  proof -
    obtain s' where s': "map_page_specific_pml4 E root (fst x) (snd x) (PSE_WRITEABLE OR PSE_USER_MODE) s =
        Some (Ret () s')" "paging_rel E root (PSE_WRITEABLE OR PSE_USER_MODE) s' a'" "pmem_only s s'"
      using mapper.body_ok [OF TrueI rel a'] by blast
    then show ?thesis
      using r mapping_kept_pml4 [OF mapping_kept_pmem [OF s'(3)]] by (auto simp: run kernel_rel_def)
  qed
  show "\<exists>s'. kernel_map_page E x s = Some (Stop Spin s') \<and> console_out s' = console_out s @ out_of_frames"
    if "step_spec x a = None"
    using mapper.body_stuck [OF TrueI rel that] unfolding run .
qed

text \<open>One entry of the memory map.\<close>

definition entry_spec :: "limine_kernel_address_response \<Rightarrow> limine_memmap_entry \<Rightarrow>
    (path \<Rightarrow> u64 option) \<times> u64 list \<Rightarrow> ((path \<Rightarrow> u64 option) \<times> u64 list) option" where
  "entry_spec ka e = (if is_kernel_entry e then iterate step_spec (entry_steps ka e) else Some)"

lemma kernel_rel_ready: "kernel_rel E root s a \<Longrightarrow> console_ready E s"
  by (simp add: kernel_rel_def paging_rel_def)

lemma kernel_rel_printed:
  assumes "kernel_rel E root s a" "render fmt args = Some t"
  shows "\<exists>s'. printk E fmt args s = Some (Ret () s') \<and> kernel_rel E root s' a \<and> mapping_kept s s' \<and>
    console_out s' = console_out s @ t"
proof -
  obtain s' where s': "printk E fmt args s = Some (Ret () s')" "console_ready E s'" "only_io s s'"
      "console_out s' = console_out s @ t"
    using printk_ready [OF kernel_rel_ready [OF assms(1)] assms(2)] by blast
  have "kernel_pml4_table s' = kernel_pml4_table s"
    using mapping_kept_pml4 [OF mapping_kept_io [OF s'(3)]] by simp
  then show ?thesis
    using s' assms(1) paging_rel_io [OF s'(3,2)] mapping_kept_io [OF s'(3)] by (auto simp: kernel_rel_def)
qed

text \<open>What is printed about an entry, and about the memory below 4 GiB.\<close>

definition entry_text :: "limine_kernel_address_response \<Rightarrow> limine_memmap_entry \<Rightarrow> string" where
  "entry_text ka e =
     (let blocks = '' ('' @ dec_text (unat (memmap_length e div 4096)) @ '' blocks) to virt '' in
      if memmap_base e = physical_base ka
      then ''[Kernel map] Mapping phys '' @ pointer_text (memmap_base e) @ blocks @ pointer_text FLUX_BASE_VIRT @ NL
      else ''[Module map] Mapping phys '' @ pointer_text (memmap_base e) @ blocks @
        pointer_text (FLUX_BASE_VIRT + memmap_base e) @ NL)"

definition hhdm_text :: "limine_hhdm_response \<Rightarrow> string" where
  "hhdm_text hh = ''[HHDM map] Mapping first 4GB to virt '' @ pointer_text (hhdm_offset hh) @ NL"

lemma map_messages_render:
  "memmap_base e = physical_base ka \<Longrightarrow> render (''[Kernel map] Mapping phys %p (%d blocks) to virt %p'' @ NL)
     [VInt (memmap_base e), VInt (memmap_length e div 4096), VInt FLUX_BASE_VIRT] = Some (entry_text ka e)"
  "memmap_base e \<noteq> physical_base ka \<Longrightarrow> render (''[Module map] Mapping phys %p (%d blocks) to virt %p'' @ NL)
     [VInt (memmap_base e), VInt (memmap_length e div 4096), VInt (FLUX_BASE_VIRT + memmap_base e)] = Some (entry_text ka e)"
  "render (''[HHDM map] Mapping first 4GB to virt %p'' @ NL) [VInt (hhdm_offset hh)] = Some (hhdm_text hh)"
  by (simp_all add: NL_def entry_text_def hhdm_text_def)

lemma map_kernel_entry_eq:
  assumes "is_kernel_entry e" "kernel_address_response E = Some ka" "unat (memmap_length e) + 4096 \<le> 2 ^ 64"
  shows "\<exists>fmt args. (map_kernel_entry E e :: (unit, 'a paging_state_scheme) kmon) =
      andthen (printk E fmt args) (\<lambda>_. for_each (kernel_map_page E) (entry_steps ka e)) \<and>
    render fmt args = Some (entry_text ka e)"
proof -
  have loop: "for_step 4096 (memmap_length e) (\<lambda>b. andthen (gets kernel_pml4_table) (\<lambda>pml4.
        map_page_specific_pml4 E pml4 (memmap_base e + b) (FLUX_BASE_VIRT + b + off)
          (PSE_WRITEABLE OR PSE_USER_MODE))) 0 =
      for_each (kernel_map_page E :: mapping_step \<Rightarrow> (unit, 'a paging_state_scheme) kmon)
        (map (\<lambda>b. (memmap_base e + b, FLUX_BASE_VIRT + b + off)) (step_range 4096 0 (memmap_length e)))" for off
    using assms(3) by (intro ext) (simp add: for_each_map for_step_for_each kernel_map_page_def)
  show ?thesis
  proof (cases "memmap_base e = physical_base ka")
    case True
    have "(map_kernel_entry E e :: (unit, 'a paging_state_scheme) kmon) =
        andthen (printk E (''[Kernel map] Mapping phys %p (%d blocks) to virt %p'' @ NL)
            [VInt (memmap_base e), VInt (memmap_length e div 4096), VInt FLUX_BASE_VIRT])
          (\<lambda>_. for_each (kernel_map_page E) (entry_steps ka e))"
      using assms(1,2) True loop [of 0]
      by (simp add: map_kernel_entry_def is_kernel_entry_def entry_steps_def andthen_assoc)
    then show ?thesis using map_messages_render(1) [OF True] by blast
  next
    case False
    have "(map_kernel_entry E e :: (unit, 'a paging_state_scheme) kmon) =
        andthen (printk E (''[Module map] Mapping phys %p (%d blocks) to virt %p'' @ NL)
            [VInt (memmap_base e), VInt (memmap_length e div 4096), VInt (FLUX_BASE_VIRT + memmap_base e)])
          (\<lambda>_. for_each (kernel_map_page E) (entry_steps ka e))"
      using assms(1,2) False loop [of "memmap_base e"]
      by (simp add: map_kernel_entry_def is_kernel_entry_def entry_steps_def andthen_assoc)
    then show ?thesis using map_messages_render(2) [OF False] by blast
  qed
qed

lemma iterate_append: "iterate spec (xs @ ys) a = Option.bind (iterate spec xs a) (iterate spec ys)"
proof (induction xs arbitrary: a)
  case (Cons x xs)
  then show ?case by (cases "spec x a") simp_all
qed simp

lemma iterate_entries: "iterate (entry_spec ka) es a =
    iterate step_spec (concat (map (entry_steps ka) (filter is_kernel_entry es))) a"
proof (induction es arbitrary: a)
  case (Cons e es)
  then show ?case
    by (cases "iterate step_spec (entry_steps ka e) a") (simp_all add: entry_spec_def iterate_append)
qed simp

definition entry_fits :: "limine_memmap_entry \<Rightarrow> bool" where
  "entry_fits e \<longleftrightarrow> (is_kernel_entry e \<longrightarrow> unat (memmap_length e) + 4096 \<le> 2 ^ 64)"

lemma map_kernel_entry_other: "\<not> is_kernel_entry e \<Longrightarrow> map_kernel_entry E e = ret ()"
  by (simp add: map_kernel_entry_def is_kernel_entry_def)

text \<open>An entry with what is printed about it: the abstract state carries the text on the console.\<close>

definition logged_spec :: "limine_kernel_address_response \<Rightarrow> limine_memmap_entry \<Rightarrow>
    ((path \<Rightarrow> u64 option) \<times> u64 list) \<times> string \<Rightarrow> (((path \<Rightarrow> u64 option) \<times> u64 list) \<times> string) option" where
  "logged_spec ka e x = map_option (\<lambda>a. (a, snd x @ (if is_kernel_entry e then entry_text ka e else [])))
     (entry_spec ka e (fst x))"

lemma iterate_logged: "iterate (logged_spec ka) es (a, t) =
    map_option (\<lambda>a'. (a', t @ concat (map (entry_text ka) (filter is_kernel_entry es)))) (iterate (entry_spec ka) es a)"
proof (induction es arbitrary: a t)
  case (Cons e es)
  then show ?case by (cases "entry_spec ka e a") (simp_all add: logged_spec_def)
qed simp

text \<open>A message and then the mappings it announces, as for an entry and for the direct map.\<close>

lemma announced_steps:
  assumes r: "kernel_rel E root s a" and m: "render fmt args = Some t"
  shows "case iterate step_spec xs a of
      Some b \<Rightarrow> \<exists>s'. andthen (printk E fmt args) (\<lambda>_. for_each (kernel_map_page E) xs) s = Some (Ret () s') \<and>
        kernel_rel E root s' b \<and> mapping_kept s s' \<and> console_out s' = console_out s @ t
    | None \<Rightarrow> \<exists>s'. andthen (printk E fmt args) (\<lambda>_. for_each (kernel_map_page E) xs) s = Some (Stop Spin s') \<and> gave_up s s'"
proof -
  obtain s1 where s1: "printk E fmt args s = Some (Ret () s1)" "kernel_rel E root s1 a" "mapping_kept s s1"
      "console_out s1 = console_out s @ t"
    using kernel_rel_printed [OF r m] by blast
  have run: "andthen (printk E fmt args) (\<lambda>_. for_each (kernel_map_page E) xs) s = for_each (kernel_map_page E) xs s1"
    by (simp only: andthen_apply s1(1) option.case outcome.case)
  show ?thesis
  proof (cases "iterate step_spec xs a")
    case None
    obtain s2 where "for_each (kernel_map_page E) xs s1 = Some (Stop Spin s2)" "console_out s2 = console_out s1 @ out_of_frames"
      using kernel_pages.loop_stuck [OF _ s1(2) None] by blast
    then show ?thesis unfolding run None gave_up_def by (auto simp: s1(4))
  next
    case (Some b)
    obtain s2 where "for_each (kernel_map_page E) xs s1 = Some (Ret () s2)" "kernel_rel E root s2 b" "pmem_only s1 s2"
      using kernel_pages.loop_ok [OF _ s1(2) Some] by blast
    then show ?thesis
      unfolding run Some using mapping_kept_trans [OF s1(3) mapping_kept_pmem] pmem_only_out [of s1 s2] s1(4) by auto
  qed
qed

interpretation kernel_entries: refining_loop "map_kernel_entry E" "logged_spec ka"
    "\<lambda>s x. kernel_rel E root s (fst x) \<and> kernel_address_response E = Some ka \<and> console_out s = snd x" mapping_kept gave_up
    entry_fits
    for E root ka
proof unfold_locales
  fix s s' s'' :: "'a paging_state_scheme" and x x' e
  show "mapping_kept s s" by simp
  show "mapping_kept s s' \<Longrightarrow> mapping_kept s' s'' \<Longrightarrow> mapping_kept s s''" by (rule mapping_kept_trans)
  show "mapping_kept s s' \<Longrightarrow> gave_up s' s'' \<Longrightarrow> gave_up s s''" by (rule gave_up_kept)
  assume fits: "entry_fits e"
    and r: "kernel_rel E root s (fst x) \<and> kernel_address_response E = Some ka \<and> console_out s = snd x"
  have kernel: "case iterate step_spec (entry_steps ka e) (fst x) of
      Some b \<Rightarrow> \<exists>s'. map_kernel_entry E e s = Some (Ret () s') \<and> kernel_rel E root s' b \<and> mapping_kept s s' \<and>
        console_out s' = console_out s @ entry_text ka e
    | None \<Rightarrow> \<exists>s'. map_kernel_entry E e s = Some (Stop Spin s') \<and> gave_up s s'" if k: "is_kernel_entry e"
  proof -
    have "unat (memmap_length e) + 4096 \<le> 2 ^ 64" using fits k by (simp add: entry_fits_def)
    then obtain fmt args where m: "(map_kernel_entry E e :: (unit, 'a paging_state_scheme) kmon) =
        andthen (printk E fmt args) (\<lambda>_. for_each (kernel_map_page E) (entry_steps ka e))"
        "render fmt args = Some (entry_text ka e)"
      using map_kernel_entry_eq [OF k] r by blast
    show ?thesis unfolding m(1) using announced_steps [OF _ m(2)] r by blast
  qed
  show "\<exists>s'. map_kernel_entry E e s = Some (Ret () s') \<and>
      (kernel_rel E root s' (fst x') \<and> kernel_address_response E = Some ka \<and> console_out s' = snd x') \<and> mapping_kept s s'"
    if x': "logged_spec ka e x = Some x'"
    using x' r kernel
    by (cases "is_kernel_entry e") (auto simp: map_kernel_entry_other logged_spec_def entry_spec_def ret_apply)
  show "\<exists>s'. map_kernel_entry E e s = Some (Stop Spin s') \<and> gave_up s s'"
    if x': "logged_spec ka e x = None"
    using x' kernel by (auto simp: logged_spec_def entry_spec_def split: if_splits)
qed

subsection \<open>\<open>setup_kernel_map\<close> as a whole\<close>

text \<open>A frame whose words, the link in the first one aside, have the present bit clear. The
  code takes the frame of the top-level table as it finds it.\<close>

definition clean_frame :: "ram \<Rightarrow> u64 \<Rightarrow> bool" where
  "clean_frame m f \<longleftrightarrow> (\<forall>i<512. i \<noteq> 0 \<longrightarrow> rd64 m (slot f i) AND PSE_PRESENT = 0)"

lemma clean_entries:
  assumes "pmem_ok E s (root # fs)" "clean_frame (ram s) root" "j < 512"
  shows "rd64 (ram s) (slot root j) AND PSE_PRESENT = 0"
proof (cases "j = 0")
  case False
  then show ?thesis using assms(2,3) by (simp add: clean_frame_def)
next
  case True
  have "free_list (ram s) (rd64 (ram s) root) fs" using assms(1) by (simp add: pmem_ok_def)
  then have "page_aligned (rd64 (ram s) root)" by (cases fs) auto
  then show ?thesis using True by (simp add: page_aligned_not_present)
qed

lemma taken_root:
  assumes ok: "pmem_ok E s (root # fs)" and clean: "clean_frame (ram s) root"
    and s': "s' = s\<lparr>first_page_frame := rd64 (ram s) root, n_free_page_frames := n_free_page_frames s - 1,
      kernel_pml4_table := root\<rparr>"
  shows "paging_ok E s' root fs" and "pt_view s' root = [[] \<mapsto> root]"
proof -
  have "pmem_ok E s' fs" using pmem_ok_taken [OF ok] by (simp add: s' pmem_ok_def)
  moreover have "frame_ok E root" "root \<notin> set fs"
    using ok pmem_ok_distinct [OF ok] by (simp_all add: pmem_ok_def)
  moreover have "rd64 (ram s') (slot root i) AND PSE_PRESENT = 0" if "i < 512" for i
    using clean_entries [OF ok clean that] by (simp add: s')
  ultimately show "paging_ok E s' root fs" "pt_view s' root = [[] \<mapsto> root]"
    using empty_root [of E s' fs root] by blast+
qed

lemma hhdm_loop:
  "for_step 4096 0x100000000 (\<lambda>p. andthen (gets kernel_pml4_table) (\<lambda>pml4.
      map_page_specific_pml4 E pml4 p (hhdm_offset hh + p) (PSE_WRITEABLE OR PSE_USER_MODE))) 0 =
    for_each (kernel_map_page E) (hhdm_steps hh)"
  by (intro ext) (simp add: for_step_for_each hhdm_steps_def for_each_map kernel_map_page_def)

text \<open>What \<open>setup_kernel_map\<close> prints.\<close>

definition map_text ::
    "limine_memmap_response \<Rightarrow> limine_kernel_address_response \<Rightarrow> limine_hhdm_response \<Rightarrow> string" where
  "map_text mm ka hh = concat (map (entry_text ka) (filter is_kernel_entry (memmap_entries mm))) @ hhdm_text hh"

lemma setup_kernel_map_refines:
  assumes env: "memmap_response E = Some mm" "kernel_address_response E = Some ka" "hhdm_response E = Some hh"
    and fits: "\<forall>e \<in> set (memmap_entries mm). entry_fits e"
    and ok: "pmem_ok E s (root # fs)" and clean: "clean_frame (ram s) root" and ready: "console_ready E s"
  shows "case iterate step_spec (kernel_steps mm ka hh) ([[] \<mapsto> root], fs) of
      Some a \<Rightarrow> \<exists>s'. setup_kernel_map E s = Some (Ret () s') \<and> kernel_rel E root s' a \<and>
        paging_state.more s' = paging_state.more s \<and> console_out s' = console_out s @ map_text mm ka hh
    | None \<Rightarrow> \<exists>s'. setup_kernel_map E s = Some (Stop Spin s') \<and> gave_up s s'"
proof -
  define s1 where "s1 = s\<lparr>first_page_frame := rd64 (ram s) root,
     n_free_page_frames := n_free_page_frames s - 1, kernel_pml4_table := root\<rparr>"
  let ?a = "([[] \<mapsto> root], fs)"
  let ?es = "memmap_entries mm"
  have ready1: "console_ready E s1"
    using ready console_ready_cong [of s1 s E] by (simp add: s1_def)
  have out1: "console_out s1 = console_out s" by (rule console_out_cong) (simp_all add: s1_def)
  have r1: "kernel_rel E root s1 (fst (?a, console_out s)) \<and> kernel_address_response E = Some ka \<and>
      console_out s1 = snd (?a, console_out s)"
    using taken_root [OF ok clean s1_def] ready1 kernel_flags env(2) out1
    using flagged_empty by (simp add: kernel_rel_def paging_rel_def pt_view_def) (simp add: s1_def)
  let ?hhdm = "andthen (printk E (''[HHDM map] Mapping first 4GB to virt %p'' @ NL) [VInt (hhdm_offset hh)]) (\<lambda>_.
      for_each (kernel_map_page E) (hhdm_steps hh))"
  have start: "setup_kernel_map E s = andthen (for_each (map_kernel_entry E) ?es) (\<lambda>_. ?hhdm) s1"
    using get_phys_block_eq [OF ok]
    by (simp add: setup_kernel_map_def env(1,3) hhdm_loop andthen_Ret [where m = "get_phys_block E"]
        modify_andthen s1_def)
  have spec: "iterate step_spec (kernel_steps mm ka hh) ?a =
      Option.bind (iterate (entry_spec ka) ?es ?a) (iterate step_spec (hhdm_steps hh))"
    by (simp add: kernel_steps_def iterate_append iterate_entries)
  show ?thesis
  proof (cases "iterate (entry_spec ka) ?es ?a")
    case None
    obtain s2 where "for_each (map_kernel_entry E) ?es s1 = Some (Stop Spin s2)" "gave_up s1 s2"
      using kernel_entries.loop_stuck [OF fits r1] by (auto simp: iterate_logged None)
    then show ?thesis
      using out1 by (simp add: spec None start andthen_Stop gave_up_def)
  next
    case (Some b)
    let ?t = "console_out s @ concat (map (entry_text ka) (filter is_kernel_entry ?es))"
    obtain s2 where s2: "for_each (map_kernel_entry E) ?es s1 = Some (Ret () s2)" "kernel_rel E root s2 b"
        "mapping_kept s1 s2" "console_out s2 = ?t"
      using kernel_entries.loop_ok [OF fits r1, of "(b, ?t)"] by (auto simp: iterate_logged Some)
    have run: "setup_kernel_map E s = ?hhdm s2" unfolding start by (simp only: andthen_apply s2(1) option.case outcome.case)
    have "gave_up s s'" if "gave_up s2 s'" for s' using that by (auto simp: gave_up_def s2(4))
    moreover have "paging_state.more s' = paging_state.more s" if "mapping_kept s2 s'" for s'
      using mapping_kept_more [OF s2(3)] mapping_kept_more [OF that] by (simp add: s1_def)
    ultimately show ?thesis
      using announced_steps [OF s2(2) map_messages_render(3), of hh "hhdm_steps hh"]
      unfolding spec Some run bind.simps by (fastforce simp: s2(4) map_text_def split: option.splits)
  qed
qed

end
