(* ===== verification/Address_Space.thy ===== *)
theory Address_Space
  imports Kernel_Map
begin

section \<open>The layout of the kernel's address space\<close>

text \<open>
  What \<open>setup_kernel_map\<close> and \<open>mem_init\<close> leave behind, address by address, for any answers of
  the boot loader: \<open>kernel_map\<close>, in which the last mapping of a page wins. The first part is
  arithmetic of pages and offsets; then come the cases in which things are where the code means
  to put them: the kernel image at \<open>__FLUX_BASE_VIRT\<close>, the modules above it, the first 4 GiB of
  physical memory at the higher-half offset, and nothing in the lower half.
\<close>

subsection \<open>Addresses and pages\<close>

definition page_base :: "u64 \<Rightarrow> u64" where
  "page_base a = a AND NOT 0xfff"

lemma bit_page_base: "bit (page_base a) n \<longleftrightarrow> bit a n \<and> 12 \<le> n"
  by (cases "n < 64") (auto simp: page_base_def mask_folds bit_simps dest: bit_imp_le_length)

lemma bit_EXTRACT_OFFSET: "bit (EXTRACT_OFFSET a) n \<longleftrightarrow> bit a n \<and> n < 12"
  by (auto simp: EXTRACT_OFFSET_def mask_folds bit_simps)

lemma page_base_aligned [simp]: "page_aligned (page_base a)"
  by (simp add: page_aligned_bits bit_page_base)

lemma page_base_offset: "page_base a + EXTRACT_OFFSET a = a"
proof -
  have "page_base a AND EXTRACT_OFFSET a = 0"
    by (rule bit_word_eqI) (auto simp: bit_and_iff bit_page_base bit_EXTRACT_OFFSET)
  then have "page_base a + EXTRACT_OFFSET a = page_base a OR EXTRACT_OFFSET a"
    by (rule disjunctive_add_eq_or)
  also have "\<dots> = a"
    by (rule bit_word_eqI) (auto simp: bit_or_iff bit_page_base bit_EXTRACT_OFFSET)
  finally show ?thesis .
qed

lemma page_base_le: "unat (page_base a) \<le> unat a"
  unfolding page_base_def by (metis word_and_le2 word_le_nat_alt)

lemma EXTRACT_OFFSET_less: "unat (EXTRACT_OFFSET a) < 4096"
proof -
  have "EXTRACT_OFFSET a \<le> 0xfff" unfolding EXTRACT_OFFSET_def by (rule word_and_le1)
  then show ?thesis by (simp add: word_le_nat_alt)
qed

lemma bit_page_plus:
  assumes "page_aligned a" "unat k < 4096"
  shows "bit (a + k) n \<longleftrightarrow> (if n < 12 then bit k n else bit a n)"
proof -
  have k: "\<not> bit k n" if "12 \<le> n" for n using that bit_less [of k 12 n] assms(2) by auto
  have "a AND k = 0"
    by (rule bit_word_eqI) (use assms(1) k not_less in \<open>auto simp: bit_and_iff page_aligned_bits\<close>)
  then have "a + k = a OR k" by (rule disjunctive_add_eq_or)
  then show ?thesis using assms(1) k by (auto simp: bit_or_iff page_aligned_bits not_less)
qed

lemma page_plus:
  assumes "page_aligned a" "unat k < 4096"
  shows "page_path (a + k) = page_path a" "EXTRACT_OFFSET (a + k) = k" "canonical (a + k) = canonical a"
proof -
  show "page_path (a + k) = page_path a" by (auto simp: page_path_eq_iff bit_page_plus [OF assms])
  show "EXTRACT_OFFSET (a + k) = k"
    using bit_less [of k 12] assms(2)
    by (intro bit_word_eqI) (auto simp: bit_EXTRACT_OFFSET bit_page_plus [OF assms])
  have "drop_bit 47 (a + k) = drop_bit 47 a"
    by (rule bit_word_eqI) (simp add: bit_drop_bit_eq bit_page_plus [OF assms])
  then show "canonical (a + k) = canonical a" by (simp add: canonical_def)
qed

lemma mask_1ffff: "(0x1ffff :: u64) = mask 17"
  by (simp add: mask_numeral)

text \<open>Addresses in the upper half.\<close>

definition high :: "u64 \<Rightarrow> bool" where
  "high a \<longleftrightarrow> 0xffff800000000000 \<le> a"

lemma high_bits: "high a \<longleftrightarrow> (\<forall>n. 47 \<le> n \<and> n < 64 \<longrightarrow> bit a n)"
proof -
  have le: "(0xffff800000000000 :: u64) = push_bit 47 (mask 17)" by (simp add: mask_numeral)
  show ?thesis
  proof
    assume "high a"
    then have ge: "0xffff800000000000 \<le> unat a" by (simp add: high_def word_le_nat_alt)
    have "unat (drop_bit 47 a) = unat a div 2 ^ 47"
      by (simp only: unat_drop_bit_eq drop_bit_eq_div [where 'a = nat])
    moreover have "unat a div 2 ^ 47 = 0x1ffff"
      using ge unsigned_less [of a, where 'a = nat] by (intro div_nat_eqI) simp_all
    ultimately have "drop_bit 47 a = 0x1ffff" by (simp add: word_unat_eq_iff)
    moreover have "(0x1ffff :: u64) = mask 17" by (simp add: mask_numeral)
    ultimately have "drop_bit 47 a = mask 17" by (rule trans)
    then have "bit (drop_bit 47 a) n" if "n < 17" for n using that by (simp only: bit_mask_iff) simp
    then have "bit a (47 + n)" if "n < 17" for n using that by (simp add: bit_drop_bit_eq)
    then show "\<forall>n. 47 \<le> n \<and> n < 64 \<longrightarrow> bit a n" by (auto simp: le_iff_add)
  next
    assume "\<forall>n. 47 \<le> n \<and> n < 64 \<longrightarrow> bit a n"
    then have "a AND 0xffff800000000000 = 0xffff800000000000"
      unfolding le by (intro bit_word_eqI) (auto simp: bit_and_iff bit_push_bit_iff bit_mask_iff)
    then show "high a" unfolding high_def by (metis word_and_le2)
  qed
qed
lemma high_canonical: "high a \<Longrightarrow> canonical a"
proof -
  assume "high a"
  then have "drop_bit 47 a = mask 17"
    by (intro bit_word_eqI) (auto simp: high_bits bit_drop_bit_eq bit_mask_iff dest: bit_imp_le_length)
  then show ?thesis by (simp add: canonical_def mask_numeral)
qed

text \<open>Two pages of the upper half with the same path are the same page.\<close>

lemma high_page_path:
  assumes "high a" "high b" "page_aligned a" "page_aligned b" "page_path a = page_path b"
  shows "a = b"
proof (rule bit_word_eqI)
  fix n assume "n < LENGTH(64)"
  then consider "n < 12" | "12 \<le> n" "n < 48" | "48 \<le> n" "n < 64" by fastforce
  then show "bit a n = bit b n"
    using assms by cases (auto simp: high_bits page_aligned_bits page_path_eq_iff)
qed

lemma canonical_high: "canonical va \<Longrightarrow> bit va 47 \<Longrightarrow> high va"
proof -
  assume "canonical va" "bit va 47"
  then have "drop_bit 47 va = mask 17"
    using bit_drop_bit_eq [of 47 va] by (auto simp: canonical_def mask_numeral dest: arg_cong [of _ _ "\<lambda>x. bit x 0"])
  then have "bit (drop_bit 47 va) n" if "n < 17" for n using that by (simp only: bit_mask_iff) simp
  then have "bit va (47 + n)" if "n < 17" for n using that by (simp add: bit_drop_bit_eq)
  then show "high va" by (auto simp: high_bits le_iff_add)
qed

lemma canonical_bit:
  assumes "canonical a" "47 \<le> n" "n < 64"
  shows "bit a n \<longleftrightarrow> bit a 47"
proof -
  have b: "bit (drop_bit 47 a) k = bit a (47 + k)" for k by (simp add: bit_drop_bit_eq)
  have "bit (drop_bit 47 a) (n - 47) = bit (drop_bit 47 a) 0"
    using assms unfolding canonical_def mask_1ffff by (elim disjE) (simp_all only: bit_0_eq bot_apply bit_mask_iff, simp_all, linarith)
  then show ?thesis using assms(2) by (simp add: b)
qed

lemma canonical_page_base [simp]: "canonical (page_base a) = canonical a"
proof -
  have "drop_bit 47 (page_base a) = drop_bit 47 a"
    by (rule bit_word_eqI) (simp add: bit_drop_bit_eq bit_page_base)
  then show ?thesis by (simp add: canonical_def)
qed

lemma page_path_page_base [simp]: "page_path (page_base a) = page_path a"
  by (auto simp: page_path_eq_iff bit_page_base)

lemma low_canonical: "unat a < 2 ^ 47 \<Longrightarrow> canonical a"
proof -
  assume "unat a < 2 ^ 47"
  then have "unat (drop_bit 47 a) = 0"
    by (simp only: unat_drop_bit_eq drop_bit_eq_div [where 'a = nat] div_less)
  then show ?thesis by (simp add: canonical_def unat_eq_0)
qed

text \<open>Pages with the same path are the same page.\<close>

lemma same_page:
  assumes "canonical a" "canonical b" "page_aligned a" "page_path b = page_path a"
  shows "page_base b = a"
proof (rule bit_word_eqI)
  fix n assume "n < LENGTH(64)"
  then consider "n < 12" | "12 \<le> n" "n < 48" | "48 \<le> n" "n < 64" by fastforce
  then show "bit (page_base b) n = bit a n"
    using assms canonical_bit [OF assms(1), of n] canonical_bit [OF assms(2), of n]
    by cases (auto simp: bit_page_base page_aligned_bits page_path_eq_iff)
qed

lemma in_step_range:
  assumes "unat limit + 4096 \<le> 2 ^ 64"
  shows "x \<in> set (step_range 4096 0 limit) \<longleftrightarrow> page_aligned x \<and> x < limit"
proof
  have b: "k < (n + 4096 - 1) div 4096 \<longleftrightarrow> 4096 * k < n" for k n :: nat
    using less_eq_div_iff_mult_less_eq [of 4096 "Suc k" "n + 4096 - 1"] by (simp add: Suc_le_eq) linarith
  assume "x \<in> set (step_range 4096 0 limit)"
  then obtain k where k: "x = 4096 * of_nat k" "4096 * k < unat limit"
    by (auto simp: step_range_def b)
  have "4096 * k < 2 ^ 64" using k(2) assms by simp
  then have "unat x = 4096 * k"
    using unat_of_nat [of "4096 * k", where 'a = 64] by (simp add: k(1))
  then show "page_aligned x \<and> x < limit" using k(2) by (simp add: aligned_def word_less_nat_alt)
next
  have b: "k < (n + 4096 - 1) div 4096 \<longleftrightarrow> 4096 * k < n" for k n :: nat
    using less_eq_div_iff_mult_less_eq [of 4096 "Suc k" "n + 4096 - 1"] by (simp add: Suc_le_eq) linarith
  assume "page_aligned x \<and> x < limit"
  then obtain k where k: "unat x = 4096 * k" "4096 * k < unat limit"
    by (auto simp: aligned_def word_less_nat_alt)
  have "x = of_nat (unat x)" by simp
  then have "x = 4096 * of_nat k" by (simp only: k(1) of_nat_mult of_nat_numeral)
  then show "x \<in> set (step_range 4096 0 limit)"
    using k(2) by (auto simp: step_range_def b)
qed

lemma page_base_in_steps:
  assumes "unat limit + 4096 \<le> 2 ^ 64" "a < limit"
  shows "page_base a \<in> set (step_range 4096 0 limit)"
  using page_base_le [of a] assms by (auto simp: in_step_range word_less_nat_alt)


subsection \<open>From the list of mappings to translations\<close>

definition step_map :: "mapping_step list \<Rightarrow> path \<Rightarrow> u64 option" where
  "step_map xs = map_of (rev (map (\<lambda>x. (page_path (snd x), PSE_PTR (fst x))) xs))"

text \<open>Mappings that do not contradict each other.\<close>

definition consistent :: "mapping_step list \<Rightarrow> bool" where
  "consistent xs \<longleftrightarrow> (\<forall>x \<in> set xs. \<forall>y \<in> set xs. page_path (snd x) = page_path (snd y) \<longrightarrow> fst x = fst y)"

lemma map_of_pairs: "map_of (rev (map (\<lambda>x. (f x, g x)) xs)) q = Some a \<Longrightarrow> \<exists>x \<in> set xs. f x = q \<and> g x = a"
  by (auto dest!: map_of_SomeD)

lemma map_of_pairs_None: "map_of (rev (map (\<lambda>x. (f x, g x)) xs)) q = None \<longleftrightarrow> q \<notin> f ` set xs"
  by (simp add: map_of_eq_None_iff image_image)

lemma step_map_out: "step_map xs q = Some a \<Longrightarrow> \<exists>x \<in> set xs. page_path (snd x) = q \<and> PSE_PTR (fst x) = a"
  unfolding step_map_def by (rule map_of_pairs)

lemma step_map_in:
  assumes c: "consistent xs" and x: "x \<in> set xs"
  shows "step_map xs (page_path (snd x)) = Some (PSE_PTR (fst x))"
proof (cases "step_map xs (page_path (snd x))")
  case None
  then show ?thesis using x by (simp add: step_map_def map_of_pairs_None)
next
  case (Some a)
  then obtain y where y: "y \<in> set xs" "page_path (snd y) = page_path (snd x)" "PSE_PTR (fst y) = a"
    using step_map_out by blast
  have "fst y = fst x" using c x y(1,2) unfolding consistent_def by blast
  with y(3) Some show ?thesis by simp
qed

text \<open>The tables describe exactly the mappings of a list.\<close>

definition describes :: "env \<Rightarrow> 'z pmem_state_scheme \<Rightarrow> u64 \<Rightarrow> u64 list \<Rightarrow> mapping_step list \<Rightarrow> bool" where
  "describes E s root fs xs \<longleftrightarrow> paging_ok E s root fs \<and>
     (\<forall>va. canonical va \<longrightarrow> translate (ram s) root va =
        map_option (\<lambda>p. p + EXTRACT_OFFSET va) (step_map xs (page_path va)))"

lemma describes_at:
  assumes "describes E s root fs xs" "consistent xs" "x \<in> set xs"
    and "canonical (snd x)" "page_aligned (snd x)" "unat k < 4096"
  shows "translate (ram s) root (snd x + k) = Some (PSE_PTR (fst x) + k)"
  using assms page_plus [OF assms(5,6)] step_map_in [OF assms(2,3)]
  by (simp add: describes_def)

lemma describes_in:
  assumes "describes E s root fs xs" "consistent xs" "x \<in> set xs"
    and "canonical (snd x)" "page_aligned (snd x)" "frame_addr (fst x)" "unat k < 4096"
  shows "translate (ram s) root (snd x + k) = Some (fst x + k)"
  using describes_at [OF assms(1-5,7)] by (simp add: PSE_PTR_frame [OF assms(6)])

lemma iterate_describes:
  assumes ok: "paging_ok E s root (snd a)" "pt_view s root = fst a"
    and it: "iterate step_spec xs ([[] \<mapsto> root], fs) = Some a"
  shows "describes E s root (drop (card (missing_tables [[] \<mapsto> root] (map (\<lambda>x. page_path (snd x)) xs))) fs) xs"
    (is "describes _ _ _ (drop ?n fs) _")
proof -
  obtain v' where v': "a = (v', drop ?n fs)"
    "\<And>p. length p = 4 \<Longrightarrow> v' p = ([[] \<mapsto> root] ++ step_map xs) p"
    using iterate_step_spec [of "[[] \<mapsto> root]" xs fs] it
    by (auto simp: step_map_def split: if_splits)
  have "v' (page_path va) = step_map xs (page_path va)" for va
    by (simp add: v'(2) map_add_def page_path_def split: option.split)
  then show ?thesis
    using translate_view [OF ok(1)] ok by (simp add: describes_def v'(1))
qed

lemma kernel_rel_describes:
  assumes "kernel_rel E root s a" and "iterate step_spec xs ([[] \<mapsto> root], fs) = Some a"
  shows "describes E s root (drop (card (missing_tables [[] \<mapsto> root] (map (\<lambda>x. page_path (snd x)) xs))) fs) xs"
  using assms(1) iterate_describes [OF _ _ assms(2), of E s] by (simp add: kernel_rel_def paging_rel_def)

text \<open>Tables below the root that a list of mappings needs.\<close>

definition tables_of :: "mapping_step list \<Rightarrow> nat" where
  "tables_of xs = card {p. \<exists>x \<in> set xs. p \<in> set (levels (page_path (snd x)))}"

lemma tables_of_missing:
  "card (missing_tables [[] \<mapsto> root] (map (\<lambda>x. page_path (snd x)) xs)) = tables_of xs"
proof -
  have "levels (page_path va) = [[EXTRACT_PML4_INDEX va], [EXTRACT_PML4_INDEX va, EXTRACT_PDPT_INDEX va],
      [EXTRACT_PML4_INDEX va, EXTRACT_PDPT_INDEX va, EXTRACT_PDT_INDEX va]]" for va
    by (simp add: levels_def page_path_def)
  then have "missing_tables [[] \<mapsto> root] (map (\<lambda>x. page_path (snd x)) xs) =
      {p. \<exists>x \<in> set xs. p \<in> set (levels (page_path (snd x)))}"
    by (auto simp: missing_tables_def)
  then show ?thesis unfolding tables_of_def by (rule arg_cong)
qed

lemma tables_of_le: "tables_of xs \<le> 3 * length xs"
proof -
  have "tables_of xs = card (\<Union>x \<in> set xs. set (levels (page_path (snd x))))"
    unfolding tables_of_def by (rule arg_cong [of _ _ card]) blast
  also have "\<dots> \<le> (\<Sum>x \<in> set xs. card (set (levels (page_path (snd x)))))"
    by (rule card_UN_le) simp
  also have "\<dots> \<le> (\<Sum>x \<in> set xs. 3)"
    by (rule sum_mono) (simp add: levels_def card_insert_le_m1)
  also have "\<dots> \<le> 3 * length xs" by (simp add: card_length)
  finally show ?thesis .
qed

subsection \<open>The kernel's address space\<close>

text \<open>The specification: the page of an address is the one that the last mapping of its path
  gave it. An address that is not canonical is never translated.\<close>

definition kernel_map :: "limine_memmap_response \<Rightarrow> limine_kernel_address_response \<Rightarrow>
    limine_hhdm_response \<Rightarrow> u64 \<Rightarrow> u64 option" where
  "kernel_map mm ka hh va = (if canonical va
     then map_option (\<lambda>p. p + EXTRACT_OFFSET va) (step_map (kernel_steps mm ka hh) (page_path va)) else None)"

text \<open>Tables translate every address as specified, and user mode can write whatever is mapped.\<close>

definition kernel_space :: "limine_memmap_response \<Rightarrow> limine_kernel_address_response \<Rightarrow>
    limine_hhdm_response \<Rightarrow> ram \<Rightarrow> u64 \<Rightarrow> bool" where
  "kernel_space mm ka hh m root \<longleftrightarrow> (\<forall>va. translate m root va = kernel_map mm ka hh va) \<and>
     (\<forall>va. user_writes m root va \<longleftrightarrow> kernel_map mm ka hh va \<noteq> None)"

lemma describes_kernel_space:
  assumes d: "describes E s root fs (kernel_steps mm ka hh)"
    and fl: "flagged (\<lambda>_. PSE_WRITEABLE OR PSE_USER_MODE) root (rd64 (ram s))"
  shows "kernel_space mm ka hh (ram s) root"
  unfolding kernel_space_def
proof (intro conjI allI)
  show t: "translate (ram s) root va = kernel_map mm ka hh va" for va
    using d translate_canonical [of "ram s" root va] unfolding describes_def kernel_map_def by (metis (no_types))
  have "frame_addr root" "small (rd64 (ram s)) root"
    using d paging_ok_root frame_ok_addr paging_ok_small unfolding describes_def by blast+
  note access = user_access_flagged(2) [OF this(2) fl this(1)]
  show "user_writes (ram s) root va \<longleftrightarrow> kernel_map mm ka hh va \<noteq> None" for va
    using access [of va] t [of va]
    by (auto simp: PSE_WRITEABLE_def PSE_USER_MODE_def bit_or_iff bit_push_bit_iff user_writes_def user_reads_def)
qed

subsection \<open>Where the mappings put things\<close>

lemma FLUX_BASE_aligned [simp]: "page_aligned FLUX_BASE_VIRT"
  by (simp add: FLUX_BASE_VIRT_def aligned_def)

lemma high_FLUX_BASE [simp]: "high FLUX_BASE_VIRT"
  by (simp add: high_def FLUX_BASE_VIRT_def)

lemma unat_FLUX_BASE: "unat FLUX_BASE_VIRT = 2 ^ 64 - 2 ^ 31"
  by (simp add: FLUX_BASE_VIRT_def)

lemma unat_plus_exact: "unat x + unat y < 2 ^ 64 \<Longrightarrow> unat (x + y) = unat x + unat y" for x y :: u64
  by (subst unat_add_lem [THEN iffD1]) simp_all

lemma kernel_address:
  assumes "unat off < 2 ^ 31"
  shows "unat (FLUX_BASE_VIRT + off) = 2 ^ 64 - 2 ^ 31 + unat off" "high (FLUX_BASE_VIRT + off)"
proof -
  show u: "unat (FLUX_BASE_VIRT + off) = 2 ^ 64 - 2 ^ 31 + unat off"
    using assms by (simp add: unat_plus_exact unat_FLUX_BASE)
  show "high (FLUX_BASE_VIRT + off)"
    by (simp add: high_def word_le_nat_alt u)
qed

text \<open>Beyond 2 GiB the address wraps around.\<close>

lemma wrapped_address:
  assumes "2 ^ 31 \<le> unat off"
  shows "unat (FLUX_BASE_VIRT + off) = unat off - 2 ^ 31"
proof -
  have "FLUX_BASE_VIRT + off = off - 0x80000000" by (simp add: FLUX_BASE_VIRT_def)
  moreover have "unat (off - 0x80000000) = unat off - unat (0x80000000 :: u64)"
    using assms by (intro unat_sub) (simp add: word_le_nat_alt)
  ultimately show ?thesis by (simp only:) simp
qed

text \<open>Where an entry is mapped, relative to \<open>__FLUX_BASE_VIRT\<close>.\<close>

definition entry_offset :: "limine_kernel_address_response \<Rightarrow> limine_memmap_entry \<Rightarrow> u64" where
  "entry_offset ka e = (if memmap_base e = physical_base ka then 0 else memmap_base e)"

lemma entry_steps_offset: "entry_steps ka e = map (\<lambda>b. (memmap_base e + b, FLUX_BASE_VIRT + (entry_offset ka e + b)))
    (step_range 4096 0 (memmap_length e))"
  by (simp add: entry_steps_def entry_offset_def add_ac)

lemma in_kernel_steps: "x \<in> set (kernel_steps mm ka hh) \<longleftrightarrow>
    (\<exists>e \<in> set (memmap_entries mm). is_kernel_entry e \<and> x \<in> set (entry_steps ka e)) \<or> x \<in> set (hhdm_steps hh)"
  by (auto simp: kernel_steps_def)

lemma kernel_map_out:
  assumes "kernel_map mm ka hh va \<noteq> None"
  obtains x where "canonical va" "x \<in> set (kernel_steps mm ka hh)" "page_path (snd x) = page_path va"
proof -
  have "canonical va" "step_map (kernel_steps mm ka hh) (page_path va) \<noteq> None"
    using assms by (simp_all add: kernel_map_def split: if_splits)
  then show ?thesis using that step_map_out by blast
qed

lemma kernel_map_in:
  assumes "canonical va" "x \<in> set (kernel_steps mm ka hh)" "page_path (snd x) = page_path va"
  shows "kernel_map mm ka hh va \<noteq> None"
  using assms(1) imageI [OF assms(2), of "\<lambda>x. page_path (snd x)"] assms(3)
  by (simp add: kernel_map_def step_map_def map_of_pairs_None)

text \<open>The last mapping wins.\<close>

lemma step_map_append: "step_map (xs @ ys) q = (case step_map ys q of None \<Rightarrow> step_map xs q | Some a \<Rightarrow> Some a)"
  by (simp add: step_map_def map_add_def split: option.split)

lemma step_map_none: "q \<notin> (\<lambda>x. page_path (snd x)) ` set xs \<Longrightarrow> step_map xs q = None"
  by (simp add: step_map_def map_of_pairs_None)

definition entries_fit :: "limine_memmap_response \<Rightarrow> bool" where
  "entries_fit mm \<longleftrightarrow> (\<forall>e \<in> set (memmap_entries mm). entry_fits e)"

text \<open>Two pages at an offset from the same page, less than 256 TiB apart, have different paths.\<close>

lemma page_path_offset:
  assumes "page_path (w + x) = page_path (w + y)" "page_aligned w" "page_aligned x" "page_aligned y"
    and "unat x < 2 ^ 48" "unat y < 2 ^ 48"
  shows "x = y"
proof -
  have al: "page_aligned (w + x)" "page_aligned (w + y)"
    using aligned_add [of 4096 w x] aligned_add [of 4096 w y] assms(2-4) by simp_all
  have b: "bit (w + x) n = bit (w + y) n" if "n < 48" for n
    using assms(1) al that unfolding page_path_eq_iff page_aligned_bits by (cases "12 \<le> n") simp_all
  have "take_bit 48 (w + x) = take_bit 48 (w + y)"
    by (rule bit_word_eqI) (simp add: bit_take_bit_iff b cong: conj_cong)
  from take_bit_plus_cong [OF _ this, of "- w"] have "take_bit 48 x = take_bit 48 y" by (simp add: add.commute [of w])
  then show ?thesis by (simp only: take_bit_less [OF assms(5)] take_bit_less [OF assms(6)])
qed

text \<open>A run of pages that one loop maps: each page keeps the frame it was given.\<close>

lemma step_map_run:
  assumes "page_aligned w" "\<forall>b \<in> set bs. page_aligned b \<and> unat b < 2 ^ 48" "b \<in> set bs"
  shows "step_map (map (\<lambda>b. (g b, w + b)) bs) (page_path (w + b)) = Some (PSE_PTR (g b))"
proof -
  let ?xs = "map (\<lambda>b. (g b, w + b)) bs"
  have "consistent ?xs"
    using page_path_offset [of w] assms(1,2) unfolding consistent_def by auto
  moreover have "(g b, w + b) \<in> set ?xs" using assms(3) by auto
  ultimately show ?thesis using step_map_in by fastforce
qed

text \<open>The window is mapped last, so nothing overwrites it.\<close>

lemma kernel_map_direct:
  assumes "page_aligned (hhdm_offset hh)" "unat p < 2 ^ 32" "canonical (hhdm_offset hh + p)"
  shows "kernel_map mm ka hh (hhdm_offset hh + p) = Some p"
proof -
  let ?b = "page_base p"
  have b: "?b \<in> set (step_range 4096 0 0x100000000)"
    using assms(2) by (intro page_base_in_steps) (simp_all add: word_less_nat_alt)
  have "\<forall>b \<in> set (step_range 4096 0 0x100000000). page_aligned b \<and> unat b < 2 ^ 48"
    by (auto simp: in_step_range word_less_nat_alt)
  from step_map_run [OF assms(1) this b, of "\<lambda>p. p"]
  have m: "step_map (hhdm_steps hh) (page_path (hhdm_offset hh + ?b)) = Some (PSE_PTR ?b)" by (simp add: hhdm_steps_def)
  have al: "page_aligned (hhdm_offset hh + ?b)" using assms(1) by (simp add: aligned_add)
  have va: "hhdm_offset hh + p = hhdm_offset hh + ?b + EXTRACT_OFFSET p"
    by (simp add: add.assoc page_base_offset)
  have "frame_addr ?b" using page_base_le [of p] assms(2) by (simp add: frame_addr_def)
  then have "step_map (hhdm_steps hh) (page_path (hhdm_offset hh + p)) = Some ?b"
    using m page_plus(1) [OF al EXTRACT_OFFSET_less [of p]] by (simp only: va PSE_PTR_frame)
  moreover have "EXTRACT_OFFSET (hhdm_offset hh + p) = EXTRACT_OFFSET p"
    using page_plus(2) [OF al EXTRACT_OFFSET_less [of p]] by (simp only: va)
  ultimately show ?thesis
    using assms(3) by (simp add: kernel_map_def kernel_steps_def step_map_append page_base_offset)
qed

definition window_covers :: "limine_hhdm_response \<Rightarrow> u64 \<Rightarrow> bool" where
  "window_covers hh va \<longleftrightarrow> page_path va \<in> (\<lambda>x. page_path (snd x)) ` set (hhdm_steps hh)"

text \<open>The window does not reach the kernel when it ends below.\<close>

lemma window_below:
  assumes hh: "page_aligned (hhdm_offset hh)" "high (hhdm_offset hh)" "unat (hhdm_offset hh) + 2 ^ 32 \<le> unat FLUX_BASE_VIRT"
    and off: "unat off < 2 ^ 31"
  shows "\<not> window_covers hh (FLUX_BASE_VIRT + off)"
proof
  let ?va = "FLUX_BASE_VIRT + off"
  assume "window_covers hh ?va"
  then obtain x where x: "x \<in> set (hhdm_steps hh)" "page_path (snd x) = page_path ?va"
    by (auto simp: window_covers_def)
  obtain p where p: "snd x = hhdm_offset hh + p" "page_aligned p" "unat p < 2 ^ 32"
    using x(1) by (auto simp: hhdm_steps_def in_step_range word_less_nat_alt)
  have u: "unat (snd x) = unat (hhdm_offset hh) + unat p" unfolding p(1) using hh(3) p(3)
    by (intro unat_plus_exact) (simp add: unat_FLUX_BASE)
  have "high (snd x)" using hh(2) u by (simp add: high_def word_le_nat_alt)
  moreover have "page_aligned (snd x)" unfolding p(1) using hh(1) p(2) by (intro aligned_add) simp_all
  ultimately have "page_base ?va = snd x"
    using same_page [of "snd x" ?va] x(2) high_canonical kernel_address(2) [OF off] by simp
  moreover have "unat FLUX_BASE_VIRT \<le> unat (page_base ?va)"
  proof -
    have "page_base ?va = FLUX_BASE_VIRT + page_base off"
    proof -
      have "page_aligned (FLUX_BASE_VIRT + page_base off)" by (intro aligned_add) simp_all
      from page_plus(2) [OF this EXTRACT_OFFSET_less [of off]] have "EXTRACT_OFFSET ?va = EXTRACT_OFFSET off"
        by (simp add: add.assoc page_base_offset)
      moreover have "page_base ?va + EXTRACT_OFFSET ?va = FLUX_BASE_VIRT + (page_base off + EXTRACT_OFFSET off)"
        by (simp only: page_base_offset)
      ultimately show ?thesis by (simp add: add.assoc [symmetric])
    qed
    moreover have "unat (page_base off) < 2 ^ 31" using page_base_le [of off] off by simp
    ultimately show ?thesis by (simp add: kernel_address(1) unat_FLUX_BASE)
  qed
  ultimately show False using u p(3) hh(3) by simp
qed

text \<open>An entry keeps its pages unless a later entry or the window is mapped over them.\<close>

definition entry_covers :: "limine_kernel_address_response \<Rightarrow> u64 \<Rightarrow> limine_memmap_entry \<Rightarrow> bool" where
  "entry_covers ka va e \<longleftrightarrow> is_kernel_entry e \<and> page_path va \<in> (\<lambda>x. page_path (snd x)) ` set (entry_steps ka e)"

lemma kernel_map_entry:
  assumes mm: "memmap_entries mm = pre @ e # post" and e: "is_kernel_entry e" and al: "page_aligned (memmap_base e)"
    and len: "unat (memmap_base e) + unat (memmap_length e) \<le> 2 ^ 48" and b: "b < memmap_length e"
    and va: "va = FLUX_BASE_VIRT + (entry_offset ka e + b)" "canonical va"
    and free: "\<forall>x \<in> set post. \<not> entry_covers ka va x" "\<not> window_covers hh va"
  shows "kernel_map mm ka hh va = Some (memmap_base e + b)"
proof -
  let ?w = "FLUX_BASE_VIRT + entry_offset ka e" and ?b = "page_base b"
  let ?q = "page_path (?w + ?b)"
  have bl: "unat b < unat (memmap_length e)" using b by (simp add: word_less_nat_alt)
  have wal: "page_aligned ?w" using al by (simp add: entry_offset_def aligned_add)
  have split: "va = ?w + ?b + EXTRACT_OFFSET b" by (simp add: va add.assoc page_base_offset)
  have wb: "page_aligned (?w + ?b)" using wal by (simp add: aligned_add)
  have q: "page_path va = ?q" "EXTRACT_OFFSET va = EXTRACT_OFFSET b"
    using page_plus(1,2) [OF wb EXTRACT_OFFSET_less [of b]] by (simp_all only: split)
  have fit: "unat (memmap_length e) + 4096 \<le> 2 ^ 64" using len by simp
  have "\<forall>b \<in> set (step_range 4096 0 (memmap_length e)). page_aligned b \<and> unat b < 2 ^ 48"
    using fit len by (auto simp: in_step_range word_less_nat_alt)
  from step_map_run [OF wal this page_base_in_steps [OF fit b], of "\<lambda>b. memmap_base e + b"]
  have run: "step_map (entry_steps ka e) ?q = Some (PSE_PTR (memmap_base e + ?b))"
    by (simp add: entry_steps_offset add.assoc)
  have "step_map (concat (map (entry_steps ka) (filter is_kernel_entry post))) ?q = None"
    using free(1) by (intro step_map_none) (auto simp: entry_covers_def q)
  moreover have "step_map (hhdm_steps hh) ?q = None"
    using free(2) by (intro step_map_none) (simp add: window_covers_def q)
  ultimately have m: "step_map (kernel_steps mm ka hh) ?q = Some (PSE_PTR (memmap_base e + ?b))"
    using run e by (simp add: kernel_steps_def mm step_map_append)
  have "unat (memmap_base e + ?b) = unat (memmap_base e) + unat ?b"
    using page_base_le [of b] bl len by (intro unat_plus_exact) simp
  then have "frame_addr (memmap_base e + ?b)"
    using page_base_le [of b] bl len al by (simp add: frame_addr_def aligned_add)
  then show ?thesis
    using va(2) m by (simp add: kernel_map_def q PSE_PTR_frame add.assoc page_base_offset)
qed

lemma entry_is_mapped:
  assumes "entries_fit mm" and e: "e \<in> set (memmap_entries mm)" "is_kernel_entry e" and b: "b < memmap_length e"
    and al: "page_aligned (entry_offset ka e) \<or> page_aligned b"
    and va: "canonical (FLUX_BASE_VIRT + (entry_offset ka e + b))"
  shows "kernel_map mm ka hh (FLUX_BASE_VIRT + (entry_offset ka e + b)) \<noteq> None"
proof -
  have "unat (memmap_length e) + 4096 \<le> 2 ^ 64" using assms(1) e by (simp add: entries_fit_def entry_fits_def)
  from page_base_in_steps [OF this b]
  have x: "(memmap_base e + page_base b, FLUX_BASE_VIRT + (entry_offset ka e + page_base b)) \<in> set (kernel_steps mm ka hh)"
    using e by (auto simp: in_kernel_steps entry_steps_offset)
  have "page_path (FLUX_BASE_VIRT + (entry_offset ka e + page_base b)) = page_path (FLUX_BASE_VIRT + (entry_offset ka e + b))"
  proof (cases "page_aligned b")
    case True
    then have "page_base b = b" by (intro bit_word_eqI) (auto simp: bit_page_base page_aligned_bits intro: leI)
    then show ?thesis by simp
  next
    case False
    then have "page_aligned (FLUX_BASE_VIRT + (entry_offset ka e + page_base b))" using al by (simp add: aligned_add)
    from page_plus(1) [OF this EXTRACT_OFFSET_less [of b]] show ?thesis by (simp add: add.assoc page_base_offset)
  qed
  then show ?thesis by (intro kernel_map_in [OF va x]) simp
qed

text \<open>When nothing is mapped in the lower half.\<close>

definition upper_half_only ::
    "limine_memmap_response \<Rightarrow> limine_kernel_address_response \<Rightarrow> limine_hhdm_response \<Rightarrow> bool" where
  "upper_half_only mm ka hh \<longleftrightarrow> high (hhdm_offset hh) \<and> unat (hhdm_offset hh) + 2 ^ 32 \<le> 2 ^ 64 \<and>
     (\<forall>e \<in> set (memmap_entries mm). is_kernel_entry e \<longrightarrow>
        unat (entry_offset ka e) + unat (memmap_length e) \<le> 2 ^ 31)"

lemma window_high:
  assumes "high (hhdm_offset hh)" "unat (hhdm_offset hh) + 2 ^ 32 \<le> 2 ^ 64" "x \<in> set (hhdm_steps hh)"
  shows "high (snd x)"
proof -
  obtain p where p: "snd x = hhdm_offset hh + p" "unat p < 2 ^ 32"
    using assms(3) by (auto simp: hhdm_steps_def in_step_range word_less_nat_alt)
  have "unat (snd x) = unat (hhdm_offset hh) + unat p" unfolding p(1) using assms(2) p(2) by (intro unat_plus_exact) simp
  then show ?thesis using assms(1) by (simp add: high_def word_le_nat_alt)
qed

lemma path_high:
  assumes "canonical va" "high x" "page_path x = page_path va"
  shows "high va"
proof -
  have "bit va 47 = bit x 47" using assms(3) by (simp add: page_path_eq_iff)
  then show ?thesis using canonical_high [OF assms(1)] assms(2) by (auto simp: high_bits)
qed

lemma window_covers_high:
  assumes "high (hhdm_offset hh)" "unat (hhdm_offset hh) + 2 ^ 32 \<le> 2 ^ 64" "canonical va" "window_covers hh va"
  shows "high va"
  using assms(4) path_high [OF assms(3) window_high [OF assms(1,2)]] by (auto simp: window_covers_def)

lemma kernel_map_high:
  assumes u: "upper_half_only mm ka hh" and m: "kernel_map mm ka hh va \<noteq> None"
  shows "high va"
proof -
  obtain x where x: "canonical va" "x \<in> set (kernel_steps mm ka hh)" "page_path (snd x) = page_path va"
    using kernel_map_out [OF m] by blast
  have "high (snd x)" if e: "e \<in> set (memmap_entries mm)" "is_kernel_entry e" "x \<in> set (entry_steps ka e)" for e
  proof -
    have l: "unat (entry_offset ka e) + unat (memmap_length e) \<le> 2 ^ 31" using u e by (simp add: upper_half_only_def)
    obtain b where b: "snd x = FLUX_BASE_VIRT + (entry_offset ka e + b)" "b \<in> set (step_range 4096 0 (memmap_length e))"
      using e(3) by (auto simp: entry_steps_offset)
    have "unat b < unat (memmap_length e)" using b(2) l by (simp add: in_step_range word_less_nat_alt)
    moreover from this have "unat (entry_offset ka e + b) = unat (entry_offset ka e) + unat b"
      using l by (intro unat_plus_exact) simp
    ultimately show ?thesis using l unfolding b(1) by (intro kernel_address(2)) simp
  qed
  then have "high (snd x)"
    using x(2) u window_high [of hh x] unfolding in_kernel_steps upper_half_only_def by blast
  then show ?thesis using path_high [OF x(1)] x(3) by simp
qed

subsection \<open>Answers that keep everything apart\<close>

text \<open>The higher-half window lies between the lower half and the kernel, kernel and module entries
  are page aligned and end below 2 GiB, and no module begins below the length of the kernel image.
  Neither does Limine promise this nor does the code check it.\<close>

definition well_placed ::
    "limine_memmap_response \<Rightarrow> limine_kernel_address_response \<Rightarrow> limine_hhdm_response \<Rightarrow> bool" where
  "well_placed mm ka hh \<longleftrightarrow>
     page_aligned (hhdm_offset hh) \<and> high (hhdm_offset hh) \<and>
     unat (hhdm_offset hh) + 2 ^ 32 \<le> unat FLUX_BASE_VIRT \<and>
     (\<forall>e \<in> set (memmap_entries mm). is_kernel_entry e \<longrightarrow> page_aligned (memmap_base e) \<and>
        unat (memmap_base e) + unat (memmap_length e) \<le> 2 ^ 31) \<and>
     (\<forall>k \<in> set (memmap_entries mm). \<forall>m \<in> set (memmap_entries mm). is_kernel_entry k \<longrightarrow>
        is_kernel_entry m \<longrightarrow> memmap_base k = physical_base ka \<longrightarrow> memmap_base m \<noteq> physical_base ka \<longrightarrow>
        unat (memmap_length k) \<le> unat (memmap_base m))"

lemma in_entry_steps:
  assumes "well_placed mm ka hh" "e \<in> set (memmap_entries mm)" "is_kernel_entry e" "x \<in> set (entry_steps ka e)"
  obtains b where "page_aligned b" "unat b < unat (memmap_length e)" "fst x = memmap_base e + b"
    "snd x = FLUX_BASE_VIRT + (entry_offset ka e + b)" "unat (fst x) = unat (memmap_base e) + unat b"
    "unat (entry_offset ka e + b) = unat (entry_offset ka e) + unat b"
    "unat (entry_offset ka e) + unat b < 2 ^ 31"
proof -
  have e: "unat (memmap_base e) + unat (memmap_length e) \<le> 2 ^ 31"
    using assms(1-3) by (auto simp: well_placed_def)
  obtain b where b: "b \<in> set (step_range 4096 0 (memmap_length e))" "fst x = memmap_base e + b"
      "snd x = FLUX_BASE_VIRT + (entry_offset ka e + b)"
    using assms(4) by (auto simp: entry_steps_offset)
  have l: "page_aligned b" "unat b < unat (memmap_length e)"
    using b(1) e by (simp_all add: in_step_range word_less_nat_alt)
  have u: "unat (memmap_base e + b) = unat (memmap_base e) + unat b"
    using l(2) e by (intro unat_plus_exact) simp
  have o: "unat (entry_offset ka e) \<le> unat (memmap_base e)" by (simp add: entry_offset_def)
  have v: "unat (entry_offset ka e + b) = unat (entry_offset ka e) + unat b"
    using l(2) e o by (intro unat_plus_exact) simp
  show ?thesis using that [OF l b(2,3) _ v] u l(2) e o by (simp add: b(2))
qed

lemma in_hhdm_steps:
  assumes "well_placed mm ka hh" "x \<in> set (hhdm_steps hh)"
  shows "page_aligned (fst x)" "unat (fst x) < 2 ^ 32" "snd x = hhdm_offset hh + fst x"
    "unat (snd x) = unat (hhdm_offset hh) + unat (fst x)" "unat (snd x) < unat FLUX_BASE_VIRT"
proof -
  have h: "unat (hhdm_offset hh) + 2 ^ 32 \<le> unat FLUX_BASE_VIRT" using assms(1) by (simp add: well_placed_def)
  show s: "page_aligned (fst x)" "snd x = hhdm_offset hh + fst x" and l: "unat (fst x) < 2 ^ 32"
    using assms(2) by (auto simp: hhdm_steps_def in_step_range word_less_nat_alt)
  show u: "unat (snd x) = unat (hhdm_offset hh) + unat (fst x)"
    unfolding s(2) using h l by (intro unat_plus_exact) (simp add: unat_FLUX_BASE)
  show "unat (snd x) < unat FLUX_BASE_VIRT" using u h l by linarith
qed

lemma entry_step_facts:
  assumes l: "well_placed mm ka hh" and e: "e \<in> set (memmap_entries mm)" "is_kernel_entry e"
    and x: "x \<in> set (entry_steps ka e)"
  shows "page_aligned (fst x)" "page_aligned (snd x)" "high (snd x)" "unat (fst x) < 2 ^ 32"
    "unat FLUX_BASE_VIRT \<le> unat (snd x)"
proof -
  obtain b where b: "page_aligned b" "unat b < unat (memmap_length e)" "fst x = memmap_base e + b"
    "snd x = FLUX_BASE_VIRT + (entry_offset ka e + b)" "unat (fst x) = unat (memmap_base e) + unat b"
    "unat (entry_offset ka e + b) = unat (entry_offset ka e) + unat b"
    "unat (entry_offset ka e) + unat b < 2 ^ 31"
    using in_entry_steps [OF assms] by blast
  have base: "page_aligned (memmap_base e)" "unat (memmap_base e) + unat (memmap_length e) \<le> 2 ^ 31"
    using l e by (auto simp: well_placed_def)
  then have off: "page_aligned (entry_offset ka e)" by (simp add: entry_offset_def)
  show "page_aligned (fst x)" using base(1) b(1) unfolding b(3) by (intro aligned_add) simp_all
  show "page_aligned (snd x)" using off b(1) unfolding b(4) by (intro aligned_add FLUX_BASE_aligned) simp_all
  have o: "unat (entry_offset ka e + b) < 2 ^ 31" using b(6,7) by simp
  show "high (snd x)" unfolding b(4) by (rule kernel_address(2) [OF o])
  show "unat (fst x) < 2 ^ 32" using b(2,5) base(2) by simp
  show "unat FLUX_BASE_VIRT \<le> unat (snd x)" unfolding b(4) by (simp add: kernel_address(1) [OF o] unat_FLUX_BASE)
qed

lemma hhdm_step_facts:
  assumes l: "well_placed mm ka hh" and x: "x \<in> set (hhdm_steps hh)"
  shows "page_aligned (snd x)" "high (snd x)"
proof -
  note h = in_hhdm_steps [OF assms]
  have o: "page_aligned (hhdm_offset hh)" "high (hhdm_offset hh)" using l by (simp_all add: well_placed_def)
  show "page_aligned (snd x)" unfolding h(3) using o(1) h(1) by (intro aligned_add) simp_all
  show "high (snd x)" using o(2) h(4) by (simp add: high_def word_le_nat_alt)
qed

lemma kernel_step_facts:
  assumes l: "well_placed mm ka hh" and x: "x \<in> set (kernel_steps mm ka hh)"
  shows "page_aligned (snd x)" "high (snd x)" "frame_addr (fst x)"
proof -
  have "page_aligned (snd x) \<and> high (snd x) \<and> page_aligned (fst x) \<and> unat (fst x) < 2 ^ 32"
    using x entry_step_facts [OF l, of _ x] hhdm_step_facts [OF l, of x] in_hhdm_steps(1,2) [OF l, of x]
    unfolding in_kernel_steps by blast
  then show "page_aligned (snd x)" "high (snd x)" "frame_addr (fst x)" by (simp_all add: frame_addr_def)
qed

lemma entry_steps_agree:
  assumes l: "well_placed mm ka hh"
    and e: "e \<in> set (memmap_entries mm)" "is_kernel_entry e" "x \<in> set (entry_steps ka e)"
    and f: "f \<in> set (memmap_entries mm)" "is_kernel_entry f" "y \<in> set (entry_steps ka f)"
    and eq: "snd x = snd y"
  shows "fst x = fst y"
proof -
  obtain b where b: "unat b < unat (memmap_length e)" "snd x = FLUX_BASE_VIRT + (entry_offset ka e + b)"
    "unat (fst x) = unat (memmap_base e) + unat b" "unat (entry_offset ka e + b) = unat (entry_offset ka e) + unat b"
    using in_entry_steps [OF l e] by blast
  obtain c where c: "unat c < unat (memmap_length f)" "snd y = FLUX_BASE_VIRT + (entry_offset ka f + c)"
    "unat (fst y) = unat (memmap_base f) + unat c" "unat (entry_offset ka f + c) = unat (entry_offset ka f) + unat c"
    using in_entry_steps [OF l f] by blast
  have "entry_offset ka e + b = entry_offset ka f + c" using eq b(2) c(2) by simp
  then have off: "unat (entry_offset ka e) + unat b = unat (entry_offset ka f) + unat c"
    using b(4) c(4) by simp
  have apart: "unat (memmap_length k) \<le> unat (memmap_base m)"
    if "k \<in> set (memmap_entries mm)" "m \<in> set (memmap_entries mm)" "is_kernel_entry k" "is_kernel_entry m"
      "memmap_base k = physical_base ka" "memmap_base m \<noteq> physical_base ka" for k m
    using l that by (auto simp: well_placed_def)
  have "unat (fst x) = unat (fst y)"
    using off b(1,3) c(1,3) apart [OF e(1) f(1) e(2) f(2)] apart [OF f(1) e(1) f(2) e(2)]
    by (auto simp: entry_offset_def split: if_splits)
  then show ?thesis by (simp only: word_unat_eq_iff)
qed

lemma kernel_steps_consistent:
  assumes l: "well_placed mm ka hh"
  shows "consistent (kernel_steps mm ka hh)"
  unfolding consistent_def
proof (intro ballI impI)
  fix x y assume x: "x \<in> set (kernel_steps mm ka hh)" and y: "y \<in> set (kernel_steps mm ka hh)"
    and p: "page_path (snd x) = page_path (snd y)"
  have eq: "snd x = snd y"
    using high_page_path [OF _ _ _ _ p] kernel_step_facts [OF l x] kernel_step_facts [OF l y] by blast
  have apart: "snd u \<noteq> snd w" if "u \<in> set (hhdm_steps hh)" "e \<in> set (memmap_entries mm)"
      "is_kernel_entry e" "w \<in> set (entry_steps ka e)" for u w e
    using in_hhdm_steps(5) [OF l that(1)] entry_step_facts(5) [OF l that(2-4)] by auto
  consider (entries) e f where "e \<in> set (memmap_entries mm)" "is_kernel_entry e" "x \<in> set (entry_steps ka e)"
      "f \<in> set (memmap_entries mm)" "is_kernel_entry f" "y \<in> set (entry_steps ka f)"
    | (window) "x \<in> set (hhdm_steps hh)" "y \<in> set (hhdm_steps hh)"
    using x y eq apart unfolding in_kernel_steps by metis
  then show "fst x = fst y"
  proof cases
    case entries
    then show ?thesis using entry_steps_agree [OF l _ _ _ _ _ _ eq] by blast
  next
    case window
    then show ?thesis using in_hhdm_steps(3) [OF l] eq by simp
  qed
qed

lemma well_placed_at:
  assumes l: "well_placed mm ka hh" and x: "x \<in> set (kernel_steps mm ka hh)" and k: "unat k < 4096"
  shows "kernel_map mm ka hh (snd x + k) = Some (fst x + k)"
proof -
  note f = kernel_step_facts [OF l x] page_plus [OF kernel_step_facts(1) [OF l x] k]
  show ?thesis
    using f step_map_in [OF kernel_steps_consistent [OF l] x] high_canonical [OF f(2)] PSE_PTR_frame [OF f(3)]
    by (simp add: kernel_map_def)
qed

lemma well_placed_entry:
  assumes l: "well_placed mm ka hh" and e: "e \<in> set (memmap_entries mm)" "is_kernel_entry e" and b: "b < memmap_length e"
  shows "kernel_map mm ka hh (FLUX_BASE_VIRT + (entry_offset ka e + b)) = Some (memmap_base e + b)"
proof -
  have "unat (memmap_base e) + unat (memmap_length e) \<le> 2 ^ 31" using l e by (auto simp: well_placed_def)
  then have "page_base b \<in> set (step_range 4096 0 (memmap_length e))"
    using b by (intro page_base_in_steps) simp_all
  then have "(memmap_base e + page_base b, FLUX_BASE_VIRT + (entry_offset ka e + page_base b)) \<in>
      set (kernel_steps mm ka hh)"
    using e by (auto simp: in_kernel_steps entry_steps_offset)
  from well_placed_at [OF l this EXTRACT_OFFSET_less [of b]] show ?thesis
    by (simp add: add.assoc page_base_offset)
qed

lemma well_placed_upper: "well_placed mm ka hh \<Longrightarrow> upper_half_only mm ka hh"
proof -
  assume l: "well_placed mm ka hh"
  have "unat (entry_offset ka e) + unat (memmap_length e) \<le> 2 ^ 31" if "e \<in> set (memmap_entries mm)" "is_kernel_entry e" for e
    using that l by (force simp: well_placed_def entry_offset_def)
  then show ?thesis using l unat_FLUX_BASE by (simp add: well_placed_def upper_half_only_def)
qed

lemma well_placed_high: "well_placed mm ka hh \<Longrightarrow> kernel_map mm ka hh va \<noteq> None \<Longrightarrow> high va"
  by (rule kernel_map_high [OF well_placed_upper])

text \<open>The number of tables that the map needs below the top-level one.\<close>

definition kernel_tables ::
    "limine_memmap_response \<Rightarrow> limine_kernel_address_response \<Rightarrow> limine_hhdm_response \<Rightarrow> nat" where
  "kernel_tables mm ka hh = tables_of (kernel_steps mm ka hh)"

lemma kernel_tables_missing:
  "card (missing_tables [[] \<mapsto> root] (map (\<lambda>x. page_path (snd x)) (kernel_steps mm ka hh))) = kernel_tables mm ka hh"
  unfolding kernel_tables_def by (rule tables_of_missing)

lemma setup_kernel_map_run:
  assumes env: "memmap_response E = Some mm" "kernel_address_response E = Some ka" "hhdm_response E = Some hh"
    and l: "entries_fit mm" and ok: "pmem_ok E s (root # fs)" and clean: "clean_frame (ram s) root"
    and ready: "console_ready E s"
  shows "if kernel_tables mm ka hh \<le> length fs
    then \<exists>s'. setup_kernel_map E s = Some (Ret () s') \<and> kernel_pml4_table s' = root \<and> console_ready E s' \<and>
      paging_ok E s' root (drop (kernel_tables mm ka hh) fs) \<and> kernel_space mm ka hh (ram s') root \<and>
      paging_state.more s' = paging_state.more s \<and> console_out s' = console_out s @ map_text mm ka hh
    else \<exists>s'. setup_kernel_map E s = Some (Stop Spin s') \<and> gave_up s s'"
proof -
  have fits: "\<forall>e \<in> set (memmap_entries mm). entry_fits e" using l by (simp add: entries_fit_def)
  note run = setup_kernel_map_refines [OF env fits ok clean ready]
  note it = iterate_step_spec [of "[[] \<mapsto> root]" "kernel_steps mm ka hh" fs, unfolded kernel_tables_missing]
  show ?thesis
  proof (cases "kernel_tables mm ka hh \<le> length fs")
    case False
    then show ?thesis using run it by simp
  next
    case True
    then obtain a where a: "iterate step_spec (kernel_steps mm ka hh) ([[] \<mapsto> root], fs) = Some a"
      using it by auto
    obtain s' where s': "setup_kernel_map E s = Some (Ret () s')" "kernel_rel E root s' a"
        "paging_state.more s' = paging_state.more s" "console_out s' = console_out s @ map_text mm ka hh"
      using run by (auto simp: a)
    have d: "describes E s' root (drop (kernel_tables mm ka hh) fs) (kernel_steps mm ka hh)"
      using kernel_rel_describes [OF s'(2) a] by (simp only: kernel_tables_missing)
    have "paging_ok E s' root (drop (kernel_tables mm ka hh) fs)" using d by (simp add: describes_def)
    moreover have "kernel_pml4_table s' = root" using s'(2) by (simp add: kernel_rel_def)
    moreover have "flagged (\<lambda>_. PSE_WRITEABLE OR PSE_USER_MODE) root (rd64 (ram s'))"
      using s'(2) by (simp add: kernel_rel_def paging_rel_def)
    ultimately show ?thesis
      using True s'(1,3,4) kernel_rel_ready [OF s'(2)] describes_kernel_space [OF d] by auto
  qed
qed

subsection \<open>Memory initialisation\<close>

lemma scast_count: "n < 2 ^ 31 \<Longrightarrow> (scast (of_nat n :: u32) :: u64) = of_nat n"
proof -
  assume n: "n < 2 ^ 31"
  have "take_bit 32 n = n" using n by (simp add: take_bit_nat_eq_self_iff)
  moreover have "signed_take_bit 31 (int n) = int n" using n by (intro signed_take_bit_int_eq_self) simp_all
  ultimately have "sint (of_nat n :: u32) = int n"
    by (simp add: sint_uint unsigned_of_nat flip: of_nat_take_bit)
  then have "(scast (of_nat n :: u32) :: u64) = word_of_int (int n)" by (simp add: scast_eq)
  then show ?thesis by simp
qed

text \<open>What \<open>mem_init\<close> prints: the frames it finds, the maps it makes, the frames that are left.\<close>

definition found_text :: "nat \<Rightarrow> string" where
  "found_text n = SYSTEM_PMEM @ PGOOD (''Added '' @ dec_text n @ '' 4K blocks to the physical page frame list.'' @ NL)"

definition left_text :: "nat \<Rightarrow> string" where
  "left_text n = SYSTEM_PAGING @ PGOOD (''Successfully set up kernel page mapping. '' @ dec_text n @ '' blocks left.'' @ NL)"

definition mem_text ::
    "limine_memmap_response \<Rightarrow> limine_kernel_address_response \<Rightarrow> limine_hhdm_response \<Rightarrow> string" where
  "mem_text mm ka hh = SYSTEM_PMEM @ ''Initialising physical memory manager'' @ NL @
     found_text (length (usable_frames mm)) @ map_text mm ka hh @
     left_text (length (usable_frames mm) - 1 - kernel_tables mm ka hh)"

lemma mem_messages_render:
  "render (SYSTEM_PMEM @ ''Initialising physical memory manager'' @ NL) [] =
     Some (SYSTEM_PMEM @ ''Initialising physical memory manager'' @ NL)"
  "render (SYSTEM_PMEM @ PGOOD (''Added %d 4K blocks to the physical page frame list.'' @ NL)) [VInt n] =
     Some (found_text (unat n))"
  "render (SYSTEM_PAGING @ PGOOD (''Successfully set up kernel page mapping. %d blocks left.'' @ NL)) [VInt n] =
     Some (left_text (unat n))"
  by (simp_all add: colour_defs found_text_def left_text_def)

text \<open>Printing in the middle of a run.\<close>

lemma printed:
  assumes "console_ready E s" "\<exists>t. render fmt args = Some t"
  obtains s' where "printk E fmt args s = Some (Ret () s')" "console_ready E s'" "only_io s s'"
  using printk_ready [OF assms(1)] assms(2) by blast

lemma only_io_fields:
  assumes "only_io s s'"
  shows "ram s' = ram s" "aspace s' = aspace s" "com_ports s' = com_ports s" "primary_com_port s' = primary_com_port s"
    "first_page_frame s' = first_page_frame s" "n_free_page_frames s' = n_free_page_frames s"
    "kernel_pml4_table s' = kernel_pml4_table s"
  using assms by (auto simp: only_io_def)

lemma pmem_ok_io: "only_io s s' \<Longrightarrow> pmem_ok E s' fs = pmem_ok E s fs"
  by (auto simp: only_io_def pmem_ok_def)

lemma paging_ok_io: "only_io s s' \<Longrightarrow> paging_ok E s' root fs = paging_ok E s root fs"
  by (auto simp: only_io_def pmem_ok_def paging_ok_def)

lemma collected_ok:
  assumes ok: "memory_map_ok E mm" and s: "aspace s = None" "first_page_frame s = 0"
  shows "pmem_ok E ((fold linked (usable_frames mm) s)\<lparr>n_free_page_frames := of_nat (length (usable_frames mm))\<rparr>)
    (rev (usable_frames mm))"
proof -
  let ?fs = "usable_frames mm"
  have fr: "distinct ?fs" "\<forall>f \<in> set ?fs. frame_ok E f" using ok by (simp_all add: memory_map_ok_def)
  then have "free_list (ram (fold linked ?fs s)) (first_page_frame (fold linked ?fs s)) (rev ?fs @ [])"
    using s(2) by (intro free_list_fold_linked) (auto simp: frame_ok_def)
  then show ?thesis using fr(2) s(1) fold_linked_same [of ?fs s] by (simp add: pmem_ok_def)
qed

lemma collected_clean:
  assumes ok: "memory_map_ok E mm" and clean: "clean_frame (ram s) f" and f: "page_aligned f"
  shows "clean_frame (ram (fold linked (usable_frames mm) s)) f"
  unfolding clean_frame_def
proof (intro allI impI)
  fix i :: u64 assume i: "i < 512" "i \<noteq> 0"
  have fr: "\<forall>f \<in> set (usable_frames mm). frame_addr f" using ok by (auto simp: memory_map_ok_def frame_ok_def)
  have "slot f i \<notin> set (usable_frames mm)"
  proof
    assume "slot f i \<in> set (usable_frames mm)"
    then have "page_aligned (slot f i)" using fr by auto
    then show False using slot_eq_iff [of f "slot f i" i 0] f i by simp
  qed
  then have "rd64 (ram (fold linked (usable_frames mm) s)) (slot f i) = rd64 (ram s) (slot f i)"
    using fr f i by (intro fold_linked_other) simp_all
  then show "rd64 (ram (fold linked (usable_frames mm) s)) (slot f i) AND PSE_PRESENT = 0"
    using clean i by (simp add: clean_frame_def)
qed

text \<open>Without a frame, the allocator gives up.\<close>

lemma out_of_frames_gave_up:
  assumes "pmem_ok E s []" "console_ready E s"
  obtains s' where "get_phys_block E s = Some (Stop Spin s')" "gave_up s s'"
  using get_phys_block_empty [OF assms] unfolding gave_up_def out_of_frames_def by (metis append_Nil)

text \<open>The run up to the page tables: the frames are found and counted, nothing else is written.\<close>

definition frames_text :: "limine_memmap_response \<Rightarrow> string" where
  "frames_text mm = SYSTEM_PMEM @ ''Initialising physical memory manager'' @ NL @ found_text (length (usable_frames mm))"

lemma only_io_more: "only_io s s' \<Longrightarrow> paging_state.more s' = paging_state.more s" for s s' :: "'z paging_state_scheme"
  by (auto simp: only_io_def)

lemma fold_linked_more: "paging_state.more (fold linked xs s) = paging_state.more s" for s :: "'z paging_state_scheme"
  by (induction xs arbitrary: s) (simp_all add: linked_def)

lemma mem_init_start:
  fixes s :: "'z paging_state_scheme"
  assumes env: "memmap_response E = Some mm" and ok: "memory_map_ok E mm"
    and s: "aspace s = None" and ready: "console_ready E s" and n: "length (usable_frames mm) < 2 ^ 31"
  obtains s' where "mem_init E s = andthen (setup_kernel_map E) (\<lambda>_. andthen (gets n_free_page_frames) (\<lambda>n.
      andthen (printk E (SYSTEM_PAGING @ PGOOD (''Successfully set up kernel page mapping. %d blocks left.'' @ NL)) [VInt n])
      (\<lambda>_. gets n_free_page_frames))) s'"
    "pmem_ok E s' (rev (usable_frames mm))" "console_ready E s'" "console_out s' = console_out s @ frames_text mm"
    "\<And>g. page_aligned g \<Longrightarrow> clean_frame (ram s) g \<Longrightarrow> clean_frame (ram s') g"
    "paging_state.more s' = paging_state.more s"
proof -
  let ?us = "usable_frames mm"
  define s0 where "s0 = s\<lparr>first_page_frame := 0\<rparr>"
  have "console_ready E s0" using ready console_ready_cong [of s0 s E] by (simp add: s0_def)
  then obtain s1 where s1: "printk E (SYSTEM_PMEM @ ''Initialising physical memory manager'' @ NL) [] s0 =
      Some (Ret () s1)" "console_ready E s1" "only_io s0 s1"
      "console_out s1 = console_out s0 @ SYSTEM_PMEM @ ''Initialising physical memory manager'' @ NL"
    using printk_ready [OF _ mem_messages_render(1)] by blast
  note f1 = only_io_fields [OF s1(3)]
  have a1: "aspace s1 = None" "first_page_frame s1 = 0" using f1 s by (simp_all add: s0_def)
  define s3 where "s3 = (fold linked ?us s1)\<lparr>n_free_page_frames := of_nat (length ?us)\<rparr>"
  have p3: "pmem_ok E s3 (rev ?us)" using collected_ok [OF ok a1] by (simp only: s3_def)
  have c3: "com_ports s3 = com_ports s1" "primary_com_port s3 = primary_com_port s1" "io_trace s3 = io_trace s1"
    using fold_linked_same [of ?us s1] by (simp_all add: s3_def)
  have r3: "console_ready E s3" using s1(2) console_ready_cong [OF c3(1,2)] by simp
  obtain s4 where s4: "printk E (SYSTEM_PMEM @ PGOOD (''Added %d 4K blocks to the physical page frame list.'' @ NL))
      [VInt (n_free_page_frames s3)] s3 = Some (Ret () s4)" "console_ready E s4" "only_io s3 s4"
      "console_out s4 = console_out s3 @ found_text (unat (n_free_page_frames s3))"
    using printk_ready [OF r3 mem_messages_render(2)] by blast
  show ?thesis
  proof (rule that [of s4])
    show "mem_init E s = andthen (setup_kernel_map E) (\<lambda>_. andthen (gets n_free_page_frames) (\<lambda>n.
      andthen (printk E (SYSTEM_PAGING @ PGOOD (''Successfully set up kernel page mapping. %d blocks left.'' @ NL)) [VInt n])
      (\<lambda>_. gets n_free_page_frames))) s4"
      unfolding mem_init_def
      by (simp only: switched_off modify_andthen gets_andthen s0_def [symmetric] env option.simps(3) simp_thms ASSERT_True
          ret_andthen andthen_apply s1(1) find_free_frames_run [OF env a1(1) ok] option.case outcome.case
          ucast_of_nat_32 scast_count [OF n] s3_def [symmetric] s4(1) not_None_eq)
    show "pmem_ok E s4 (rev ?us)" using p3 pmem_ok_io [OF s4(3)] by simp
    show "console_ready E s4" by (rule s4(2))
    have "console_out s0 = console_out s" by (rule console_out_cong) (simp_all add: s0_def)
    moreover have "unat (n_free_page_frames s3) = length ?us"
      using n by (simp add: s3_def unsigned_of_nat take_bit_nat_eq_self_iff)
    ultimately show "console_out s4 = console_out s @ frames_text mm"
      using console_out_cong [OF c3] by (simp add: s4(4) s1(4) frames_text_def)
    show "clean_frame (ram s4) g" if "page_aligned g" "clean_frame (ram s) g" for g
      using collected_clean [OF ok, of s1 g] that f1(1) only_io_fields(1) [OF s4(3)] by (simp add: s3_def s0_def)
    have "paging_state.more s3 = paging_state.more s1" by (simp add: s3_def fold_linked_more)
    moreover have "paging_state.more s0 = paging_state.more s" by (simp add: s0_def)
    ultimately show "paging_state.more s4 = paging_state.more s"
      using only_io_more [OF s4(3)] only_io_more [OF s1(3)] by simp
  qed
qed

lemma mem_init_run:
  assumes env: "memmap_response E = Some mm" "kernel_address_response E = Some ka" "hhdm_response E = Some hh"
    and ok: "memory_map_ok E mm" and l: "entries_fit mm"
    and s: "aspace s = None" and ready: "console_ready E s"
    and frames: "rev (usable_frames mm) = root # fs" "length (usable_frames mm) < 2 ^ 31"
      "kernel_tables mm ka hh \<le> length fs" and clean: "clean_frame (ram s) root"
  shows "\<exists>s'. mem_init E s = Some (Ret (of_nat (length fs - kernel_tables mm ka hh)) s') \<and>
    kernel_pml4_table s' = root \<and> console_ready E s' \<and>
    paging_ok E s' root (drop (kernel_tables mm ka hh) fs) \<and> kernel_space mm ka hh (ram s') root \<and>
    paging_state.more s' = paging_state.more s \<and> console_out s' = console_out s @ mem_text mm ka hh"
proof -
  let ?us = "usable_frames mm"
  obtain s4 where s4: "mem_init E s = andthen (setup_kernel_map E) (\<lambda>_. andthen (gets n_free_page_frames) (\<lambda>n.
      andthen (printk E (SYSTEM_PAGING @ PGOOD (''Successfully set up kernel page mapping. %d blocks left.'' @ NL)) [VInt n])
      (\<lambda>_. gets n_free_page_frames))) s4"
    "pmem_ok E s4 (root # fs)" "console_ready E s4" "console_out s4 = console_out s @ frames_text mm"
    "\<And>g. page_aligned g \<Longrightarrow> clean_frame (ram s) g \<Longrightarrow> clean_frame (ram s4) g" "paging_state.more s4 = paging_state.more s"
    using mem_init_start [OF env(1) ok s ready frames(2), unfolded frames(1)] by blast
  have "page_aligned root" using s4(2) by (simp add: pmem_ok_def)
  then have "clean_frame (ram s4) root" using s4(5) clean by blast
  then obtain s5 where s5: "setup_kernel_map E s4 = Some (Ret () s5)" "kernel_pml4_table s5 = root"
      "console_ready E s5" "paging_ok E s5 root (drop (kernel_tables mm ka hh) fs)"
      "kernel_space mm ka hh (ram s5) root" "paging_state.more s5 = paging_state.more s4"
      "console_out s5 = console_out s4 @ map_text mm ka hh"
    using setup_kernel_map_run [OF env l s4(2) _ s4(3)] frames(3) by auto
  obtain s6 where s6: "printk E (SYSTEM_PAGING @ PGOOD (''Successfully set up kernel page mapping. %d blocks left.'' @ NL))
      [VInt (n_free_page_frames s5)] s5 = Some (Ret () s6)" "console_ready E s6" "only_io s5 s6"
      "console_out s6 = console_out s5 @ left_text (unat (n_free_page_frames s5))"
    using printk_ready [OF s5(3) mem_messages_render(3)] by blast
  have n: "n_free_page_frames s6 = of_nat (length fs - kernel_tables mm ka hh)"
    using paging_ok_pmem [OF s5(4)] only_io_fields(6) [OF s6(3)] by (simp add: pmem_ok_def)
  have "mem_init E s = Some (Ret (n_free_page_frames s6) s6)"
    by (simp only: s4(1) andthen_apply s5(1) s6(1) gets_apply option.case outcome.case)
  moreover have "console_out s6 = console_out s @ mem_text mm ka hh"
  proof -
    have "length ?us = Suc (length fs)" using frames(1) by (metis length_Cons length_rev)
    then have "unat (n_free_page_frames s5) = length ?us - 1 - kernel_tables mm ka hh"
      using paging_ok_pmem [OF s5(4)] frames(2) by (simp add: pmem_ok_def unsigned_of_nat take_bit_nat_eq_self_iff)
    then show ?thesis by (simp add: s6(4) s5(7) s4(4) mem_text_def frames_text_def)
  qed
  ultimately show ?thesis
    using s5(2,5,6) s4(6) s6(2) n paging_ok_io [OF s6(3)] s5(4) only_io_fields [OF s6(3)] only_io_more [OF s6(3)]
    by (intro exI [of _ s6]) simp
qed

text \<open>With a frame too few, the mapping of the kernel gives up.\<close>

lemma mem_init_starved:
  fixes s :: "'z paging_state_scheme"
  assumes env: "memmap_response E = Some mm" "kernel_address_response E = Some ka" "hhdm_response E = Some hh"
    and ok: "memory_map_ok E mm" and l: "entries_fit mm" and s: "aspace s = None" and ready: "console_ready E s"
    and n: "length (usable_frames mm) < 2 ^ 31" "length (usable_frames mm) \<le> kernel_tables mm ka hh"
    and clean: "usable_frames mm \<noteq> [] \<Longrightarrow> clean_frame (ram s) (last (usable_frames mm))"
  shows "\<exists>s' t. mem_init E s = Some (Stop Spin s') \<and> console_out s' = console_out s @ frames_text mm @ t @ out_of_frames"
proof -
  let ?us = "usable_frames mm"
  obtain s4 where s4: "mem_init E s = andthen (setup_kernel_map E) (\<lambda>_. andthen (gets n_free_page_frames) (\<lambda>n.
      andthen (printk E (SYSTEM_PAGING @ PGOOD (''Successfully set up kernel page mapping. %d blocks left.'' @ NL)) [VInt n])
      (\<lambda>_. gets n_free_page_frames))) s4"
    "pmem_ok E s4 (rev ?us)" "console_ready E s4" "console_out s4 = console_out s @ frames_text mm"
    "\<And>g. page_aligned g \<Longrightarrow> clean_frame (ram s) g \<Longrightarrow> clean_frame (ram s4) g"
    using mem_init_start [OF env(1) ok s ready n(1)] by blast
  have "\<exists>s'. setup_kernel_map E s4 = Some (Stop Spin s') \<and> gave_up s4 s'"
  proof (cases "?us = []")
    case True
    then obtain s' where s': "get_phys_block E s4 = Some (Stop Spin s')" "gave_up s4 s'"
      using out_of_frames_gave_up [of E s4] s4(2,3) by auto
    then show ?thesis by (auto simp: setup_kernel_map_def andthen_Stop [where m = "get_phys_block E", OF s'(1)])
  next
    case False
    then have rev: "rev ?us = last ?us # rev (butlast ?us)" by (metis append_butlast_last_id rev_eq_Cons_iff rev_rev_ident)
    note p4 = s4(2) [unfolded rev]
    have "page_aligned (last ?us)" using p4 by (simp add: pmem_ok_def)
    then have "clean_frame (ram s4) (last ?us)" using s4(5) clean [OF False] by blast
    moreover have "\<not> kernel_tables mm ka hh \<le> length (rev (butlast ?us))" using n(2) False by (cases "?us") auto
    ultimately show ?thesis using setup_kernel_map_run [OF env l p4 _ s4(3)] by auto
  qed
  then obtain s' t where s': "setup_kernel_map E s4 = Some (Stop Spin s')" "console_out s' = console_out s4 @ t @ out_of_frames"
    by (auto simp: gave_up_def)
  have "mem_init E s = Some (Stop Spin s')" by (simp only: s4(1) andthen_Stop [where m = "setup_kernel_map E", OF s'(1)])
  then show ?thesis using s'(2) s4(4) by auto
qed

text \<open>What the run leaves, with the number of frames that are left.\<close>

lemma mem_init_result:
  assumes "memmap_response E = Some mm" "kernel_address_response E = Some ka" "hhdm_response E = Some hh"
    and "memory_map_ok E mm" "entries_fit mm" and "aspace s = None" and "console_ready E s"
    and "length (usable_frames mm) < 2 ^ 31" and "kernel_tables mm ka hh < length (usable_frames mm)"
    and "clean_frame (ram s) (last (usable_frames mm))"
  shows "\<exists>n s' fs. mem_init E s = Some (Ret n s') \<and> unat n = length fs \<and>
    length fs + kernel_tables mm ka hh + 1 = length (usable_frames mm) \<and>
    set fs \<subseteq> set (usable_frames mm) \<and> kernel_pml4_table s' = last (usable_frames mm) \<and>
    paging_ok E s' (kernel_pml4_table s') fs \<and> kernel_space mm ka hh (ram s') (kernel_pml4_table s') \<and>
    console_out s' = console_out s @ mem_text mm ka hh"
proof -
  define us where "us = usable_frames mm"
  have ne: "us \<noteq> []" using assms(9) by (auto simp: us_def)
  have rev: "rev us = last us # rev (butlast us)" using ne by (metis append_butlast_last_id rev_eq_Cons_iff rev_rev_ident)
  have le: "kernel_tables mm ka hh \<le> length (rev (butlast us))" using assms(9) by (simp add: us_def)
  obtain s' where s': "mem_init E s = Some (Ret (of_nat (length us - 1 - kernel_tables mm ka hh)) s')"
      "kernel_pml4_table s' = last us"
      "paging_ok E s' (last us) (drop (kernel_tables mm ka hh) (rev (butlast us)))"
      "kernel_space mm ka hh (ram s') (last us)" "console_out s' = console_out s @ mem_text mm ka hh"
    using mem_init_run [OF assms(1-7), folded us_def, OF rev _ le] assms(8,10) unfolding us_def length_rev length_butlast by blast
  have lt: "length us < 2 ^ 31" using assms(8) by (simp add: us_def)
  then have "unat (of_nat (length us - 1 - kernel_tables mm ka hh) :: u64) = length us - 1 - kernel_tables mm ka hh"
    by (simp add: unsigned_of_nat take_bit_nat_eq_self_iff)
  moreover have "set (drop (kernel_tables mm ka hh) (rev (butlast us))) \<subseteq> set us"
    using set_drop_subset [of _ "rev (butlast us)"] in_set_butlastD by fastforce
  ultimately show ?thesis
    using s' assms(9)
    by (intro exI [of _ "of_nat (length us - 1 - kernel_tables mm ka hh)"] exI [of _ s']
        exI [of _ "drop (kernel_tables mm ka hh) (rev (butlast us))"]) (auto simp: us_def)
qed

section \<open>Properties\<close>

text \<open>C7: \<open>setup_kernel_map\<close> builds the address space the kernel goes on in. Whatever the boot loader
  answers, with a free list whose first frame is clean and a frame for every table: the call
  returns, the first frame has become the top-level table, exactly one frame per table was used,
  and every address is translated as \<open>kernel_map\<close> says: to the page that the last mapping of its
  page gave it. So every physical address below 4 GiB is at the higher-half offset. Only when the
  answers keep everything apart (\<open>well_placed\<close>) is it also true that every byte of the kernel image
  is at \<open>__FLUX_BASE_VIRT\<close>, every byte of a module at \<open>__FLUX_BASE_VIRT\<close> plus its physical
  address, and nothing in the lower half.\<close>

theorem setup_kernel_map_layout:
  assumes "memmap_response E = Some mm" "kernel_address_response E = Some ka" "hhdm_response E = Some hh"
    and "entries_fit mm" and "pmem_ok E s (root # fs)" and "clean_frame (ram s) root"
    and "console_ready E s" and "kernel_tables mm ka hh \<le> length fs"
  shows "\<exists>s'. setup_kernel_map E s = Some (Ret () s') \<and> kernel_pml4_table s' = root \<and>
    paging_ok E s' root (drop (kernel_tables mm ka hh) fs) \<and>
    (\<forall>va. translate (ram s') root va = kernel_map mm ka hh va) \<and>
    (page_aligned (hhdm_offset hh) \<longrightarrow> (\<forall>p. unat p < 2 ^ 32 \<and> canonical (hhdm_offset hh + p) \<longrightarrow>
       translate (ram s') root (hhdm_offset hh + p) = Some p)) \<and>
    (well_placed mm ka hh \<longrightarrow>
       (\<forall>e \<in> set (memmap_entries mm). is_kernel_entry e \<longrightarrow> (\<forall>b. b < memmap_length e \<longrightarrow>
          translate (ram s') root (FLUX_BASE_VIRT + (entry_offset ka e + b)) = Some (memmap_base e + b))) \<and>
       (\<forall>va. translate (ram s') root va \<noteq> None \<longrightarrow> high va))"
proof -
  obtain s' where s': "setup_kernel_map E s = Some (Ret () s')" "kernel_pml4_table s' = root"
      "paging_ok E s' root (drop (kernel_tables mm ka hh) fs)" "kernel_space mm ka hh (ram s') root"
    using setup_kernel_map_run [OF assms(1-7)] assms(8) by auto
  have t: "translate (ram s') root va = kernel_map mm ka hh va" for va using s'(4) by (simp add: kernel_space_def)
  have "\<forall>p. unat p < 2 ^ 32 \<and> canonical (hhdm_offset hh + p) \<longrightarrow> kernel_map mm ka hh (hhdm_offset hh + p) = Some p"
    if "page_aligned (hhdm_offset hh)" using kernel_map_direct that by blast
  moreover have "\<forall>e \<in> set (memmap_entries mm). is_kernel_entry e \<longrightarrow> (\<forall>b. b < memmap_length e \<longrightarrow>
      kernel_map mm ka hh (FLUX_BASE_VIRT + (entry_offset ka e + b)) = Some (memmap_base e + b))"
    if "well_placed mm ka hh" using well_placed_entry that by blast
  moreover have "\<forall>va. kernel_map mm ka hh va \<noteq> None \<longrightarrow> high va" if "well_placed mm ka hh"
    using well_placed_high that by blast
  ultimately show ?thesis using s'(1-3) by (intro exI [of _ s']) (simp only: t simp_thms, blast)
qed

text \<open>C6: \<open>mem_init\<close> as a whole. It returns the number of frames that are left and leaves a
  free list of all usable frames of the memory map but one for each page table, next to the
  kernel's address space, in which every address is translated as \<open>kernel_map\<close> says and user mode
  can write whatever is mapped. On the console stands the number of frames it
  found, each map it made, and the number of frames that are left.\<close>

theorem mem_init_builds:
  assumes "memmap_response E = Some mm" "kernel_address_response E = Some ka" "hhdm_response E = Some hh"
    and "memory_map_ok E mm" "entries_fit mm" and "aspace s = None" and "console_ready E s"
    and "length (usable_frames mm) < 2 ^ 31" and "kernel_tables mm ka hh < length (usable_frames mm)"
    and "clean_frame (ram s) (last (usable_frames mm))"
  shows "\<exists>n s' fs. mem_init E s = Some (Ret n s') \<and> unat n = length fs \<and>
    length fs + kernel_tables mm ka hh + 1 = length (usable_frames mm) \<and>
    set fs \<subseteq> set (usable_frames mm) \<and> kernel_pml4_table s' = last (usable_frames mm) \<and>
    paging_ok E s' (kernel_pml4_table s') fs \<and> kernel_space mm ka hh (ram s') (kernel_pml4_table s') \<and>
    console_out s' = console_out s @ mem_text mm ka hh"
  using mem_init_result [OF assms] by blast

text \<open>C16: the kernel's memory is open to user mode. Whatever is mapped, user mode can read and write.
  So it is with each page at which \<open>mem_init\<close> maps a page of the kernel's image or of a module, and
  with the window on all physical memory below 4 GiB.\<close>

theorem kernel_memory_open:
  assumes "memmap_response E = Some mm" "kernel_address_response E = Some ka" "hhdm_response E = Some hh"
    and "memory_map_ok E mm" "entries_fit mm" and "aspace s = None" and "console_ready E s"
    and "length (usable_frames mm) < 2 ^ 31" and "kernel_tables mm ka hh < length (usable_frames mm)"
    and "clean_frame (ram s) (last (usable_frames mm))"
  shows "\<exists>n s'. mem_init E s = Some (Ret n s') \<and>
    (\<forall>va. user_writes (ram s') (kernel_pml4_table s') va \<longleftrightarrow> translate (ram s') (kernel_pml4_table s') va \<noteq> None) \<and>
    (\<forall>e \<in> set (memmap_entries mm). is_kernel_entry e \<longrightarrow> (\<forall>b. b < memmap_length e \<longrightarrow>
       page_aligned (entry_offset ka e) \<or> page_aligned b \<longrightarrow> canonical (FLUX_BASE_VIRT + (entry_offset ka e + b)) \<longrightarrow>
       user_writes (ram s') (kernel_pml4_table s') (FLUX_BASE_VIRT + (entry_offset ka e + b)))) \<and>
    (page_aligned (hhdm_offset hh) \<longrightarrow> (\<forall>p. unat p < 2 ^ 32 \<and> canonical (hhdm_offset hh + p) \<longrightarrow>
       user_writes (ram s') (kernel_pml4_table s') (hhdm_offset hh + p)))"
proof -
  obtain n s' where s': "mem_init E s = Some (Ret n s')" "kernel_space mm ka hh (ram s') (kernel_pml4_table s')"
    using mem_init_result [OF assms] by blast
  have "user_writes (ram s') (kernel_pml4_table s') va \<longleftrightarrow> kernel_map mm ka hh va \<noteq> None"
    "translate (ram s') (kernel_pml4_table s') va = kernel_map mm ka hh va" for va
    using s'(2) by (simp_all add: kernel_space_def)
  note u = this
  have "\<forall>e \<in> set (memmap_entries mm). is_kernel_entry e \<longrightarrow> (\<forall>b. b < memmap_length e \<longrightarrow>
      page_aligned (entry_offset ka e) \<or> page_aligned b \<longrightarrow> canonical (FLUX_BASE_VIRT + (entry_offset ka e + b)) \<longrightarrow>
      kernel_map mm ka hh (FLUX_BASE_VIRT + (entry_offset ka e + b)) \<noteq> None)"
    using entry_is_mapped [OF assms(5)] by blast
  moreover have "\<forall>p. unat p < 2 ^ 32 \<and> canonical (hhdm_offset hh + p) \<longrightarrow>
      kernel_map mm ka hh (hhdm_offset hh + p) \<noteq> None" if "page_aligned (hhdm_offset hh)"
    using kernel_map_direct [OF that] by simp
  ultimately show ?thesis using s'(1) by (intro exI [of _ n] exI [of _ s']) (simp only: u simp_thms, blast)
qed

text \<open>Without a memory map from the boot loader, \<open>mem_init\<close> prints that its assertion
  failed and hangs, having touched nothing but the head of the free list.\<close>

theorem mem_init_no_memmap:
  assumes "memmap_response E = None" and "console_ready E s"
  shows "\<exists>s'. mem_init E s = Some (Stop Spin s') \<and> first_page_frame s' = 0 \<and> ram s' = ram s \<and>
    console_out s' = console_out s @ trace_text (''arch/x64/mem.c'', 109, ''mem_init'')
      (PBAD ''Assertion (resp != NULL) failed'')"
proof -
  define s0 where "s0 = s\<lparr>first_page_frame := 0\<rparr>"
  have ready: "console_ready E s0" using assms(2) console_ready_cong [of s0 s E] by (simp add: s0_def)
  have "CHR ''%'' \<notin> set ''resp != NULL''" by simp
  from ASSERT_False_ready [OF ready this, of "(''arch/x64/mem.c'', 109, ''mem_init'')"]
  obtain s' where s': "ASSERT E (''arch/x64/mem.c'', 109, ''mem_init'') ''resp != NULL'' False s0 =
      Some (Stop Spin s')" "only_io s0 s'" "console_out s' = console_out s0 @
      trace_text (''arch/x64/mem.c'', 109, ''mem_init'')
        (PBAD (''Assertion ('' @ ''resp != NULL'' @ '') failed''))" by blast
  have "mem_init E s = Some (Stop Spin s')"
    unfolding mem_init_def
    by (simp only: modify_andthen s0_def [symmetric] assms(1) simp_thms andthen_apply s'(1) option.case outcome.case)
  moreover have "console_out s0 = console_out s" by (simp add: s0_def console_out_def split: option.split)
  ultimately show ?thesis
    using only_io_fields [OF s'(2)] s'(3) by (intro exI [of _ s']) (simp add: s0_def)
qed

subsection \<open>Witnesses\<close>

text \<open>A machine with 16 GiB of free memory above 4 GiB, a kernel image of three pages and a
  module of one.\<close>

definition big_memmap :: limine_memmap_response where
  "big_memmap = \<lparr>memmap_revision = 0, memmap_entries =
     [\<lparr>memmap_base = 0x200000, memmap_length = 0x3000, memmap_type = LIMINE_MEMMAP_KERNEL_AND_MODULES\<rparr>,
      \<lparr>memmap_base = 0x300000, memmap_length = 0x1000, memmap_type = LIMINE_MEMMAP_KERNEL_AND_MODULES\<rparr>,
      \<lparr>memmap_base = 0x100000000, memmap_length = 0x400000000, memmap_type = LIMINE_MEMMAP_USABLE\<rparr>]\<rparr>"

definition big_kernel :: limine_kernel_address_response where
  "big_kernel = \<lparr>kernel_address_revision = 0, physical_base = 0x200000, virtual_base = FLUX_BASE_VIRT\<rparr>"

definition big_hhdm :: limine_hhdm_response where
  "big_hhdm = \<lparr>hhdm_revision = 0, hhdm_offset = 0xffff800000000000\<rparr>"

definition big_env :: env where
  "big_env = idle_env\<lparr>memmap_response := Some big_memmap, kernel_address_response := Some big_kernel,
     hhdm_response := Some big_hhdm\<rparr>"

definition cold_state :: paging_state where
  "cold_state = \<lparr>io_trace = [], ram = (\<lambda>_. 0), aspace = None,
     com_ports = [\<lparr>io_port_base = 0x3f8, port_status = COM_PORT_STATUS_READY\<rparr>],
     primary_com_port = Some 0, first_page_frame = 0, n_free_page_frames = 0, kernel_pml4_table = 0\<rparr>"

lemma big_env_answers: "memmap_response big_env = Some big_memmap"
  "kernel_address_response big_env = Some big_kernel" "hhdm_response big_env = Some big_hhdm"
  by (simp_all add: big_env_def)

lemma length_step_range:
  "length (step_range 4096 0 limit) = (unat limit + 4095) div 4096"
  by (simp add: step_range_def)

lemma distinct_step_range:
  assumes "unat limit + 4096 \<le> 2 ^ 64"
  shows "distinct (step_range 4096 0 limit)"
proof -
  have lt: "4096 * k < 2 ^ 64" if "k < (unat limit + 4096 - 1) div 4096" for k
  proof -
    have "Suc k \<le> (unat limit + 4096 - 1) div 4096" using that by simp
    then have "Suc k * 4096 \<le> unat limit + 4096 - 1" by (simp only: less_eq_div_iff_mult_less_eq)
    then show ?thesis using assms by simp
  qed
  have "unat (4096 * of_nat k :: u64) = 4096 * k" if "4096 * k < 2 ^ 64" for k
    using that unat_of_nat [of "4096 * k", where 'a = 64] by simp
  then have "inj_on (\<lambda>k. 4096 * of_nat k :: u64) {0..<(unat limit + 4096 - 1) div 4096}"
    by (intro inj_onI) (metis lt atLeastLessThan_iff mult_cancel1 zero_neq_numeral)
  then show ?thesis by (simp add: step_range_def distinct_map)
qed

lemma big_usable: "usable_frames big_memmap = map (\<lambda>b. 0x100000000 + b) (step_range 4096 0 0x400000000)"
  by (simp add: usable_frames_def big_memmap_def entry_frames_def LIMINE_MEMMAP_USABLE_def
      LIMINE_MEMMAP_KERNEL_AND_MODULES_def)

lemma big_length: "length (usable_frames big_memmap) = 0x400000"
  by (simp add: big_usable length_step_range)

text \<open>One usable run of memory, with the boot loader's identity map.\<close>

lemma single_run_ok:
  assumes u: "usable_frames mm = map (\<lambda>b. B + b) (step_range 4096 0 L)" and E: "boot_map E = Some"
    and B: "page_aligned B" "0 < unat B" "unat B + unat L \<le> 2 ^ 52"
    and len: "\<forall>e \<in> set (memmap_entries mm). unat (memmap_length e) + 4096 \<le> 2 ^ 64"
  shows "memory_map_ok E mm"
proof -
  have L: "unat L + 4096 \<le> 2 ^ 64" using B(3) by simp
  have "f \<noteq> 0 \<and> frame_addr f" if f: "f \<in> set (usable_frames mm)" for f
  proof -
    obtain b where b: "f = B + b" "page_aligned b" "unat b < unat L"
      using f in_step_range [OF L] unfolding u set_map by (auto simp: word_less_nat_alt)
    have n: "unat f = unat B + unat b" unfolding b(1) using b(3) B(3) by (intro unat_plus_exact) simp
    have "page_aligned f" using B(1) b(2) unfolding b(1) by (intro aligned_add) simp_all
    moreover have "unat f < 2 ^ 52" "0 < unat f" using b(3) n B(2,3) by simp_all
    ultimately show ?thesis by (auto simp: frame_addr_def unat_gt_0)
  qed
  moreover have "distinct (usable_frames mm)"
    unfolding u distinct_map using distinct_step_range [OF L] by (simp add: inj_on_def)
  ultimately show ?thesis using len by (simp add: memory_map_ok_def frame_ok_def E)
qed

lemma big_memmap_ok: "memory_map_ok big_env big_memmap"
  by (rule single_run_ok [OF big_usable]) (simp_all add: big_env_def idle_env_def aligned_def big_memmap_def)

lemma big_layout: "well_placed big_memmap big_kernel big_hhdm"
  by (simp add: well_placed_def big_memmap_def big_kernel_def big_hhdm_def is_kernel_entry_def aligned_def
      high_def FLUX_BASE_VIRT_def LIMINE_MEMMAP_USABLE_def LIMINE_MEMMAP_KERNEL_AND_MODULES_def)

lemma big_fits: "entries_fit big_memmap"
  by (simp add: entries_fit_def entry_fits_def big_memmap_def)

lemma kernel_tables_le: "kernel_tables mm ka hh \<le> 3 * length (kernel_steps mm ka hh)"
  unfolding kernel_tables_def by (rule tables_of_le)

lemma big_tables: "kernel_tables big_memmap big_kernel big_hhdm < 0x400000 - 1"
proof -
  have "length (kernel_steps big_memmap big_kernel big_hhdm) = 0x100004"
    by (simp add: kernel_steps_def hhdm_steps_def big_memmap_def is_kernel_entry_def entry_steps_def
        length_step_range LIMINE_MEMMAP_USABLE_def LIMINE_MEMMAP_KERNEL_AND_MODULES_def)
  then show ?thesis using kernel_tables_le [of big_memmap big_kernel big_hhdm] by simp
qed

lemma cold_facts: "aspace cold_state = None" "first_page_frame cold_state = 0"
  "console_ready big_env cold_state" "clean_frame (ram cold_state) f"
proof -
  show "aspace cold_state = None" "first_page_frame cold_state = 0" "clean_frame (ram cold_state) f"
    by (simp_all add: cold_state_def clean_frame_def)
  have "line_stat big_env \<lparr>io_port_base = 0x3f8, port_status = st\<rparr> t = 0x60" for st t
    by (simp add: line_stat_def big_env_def idle_env_def com_port_offsets)
  then have "sends_eventually big_env \<lparr>io_port_base = 0x3f8, port_status = st\<rparr> t" for st t
    unfolding sends_eventually_def by (intro exI [of _ 0]) (simp add: LINE_STAT_THRE_def)
  then show "console_ready big_env cold_state" by (auto simp: console_ready_def cold_state_def)
qed

theorem mem_init_builds_witness:
  "\<exists>n s'. mem_init big_env cold_state = Some (Ret n s') \<and>
     kernel_space big_memmap big_kernel big_hhdm (ram s') (kernel_pml4_table s')"
  using mem_init_builds [OF big_env_answers big_memmap_ok big_fits cold_facts(1,3)] big_tables
  by (simp add: big_length cold_facts(4)) blast

text \<open>The same machine after \<open>find_free_frames\<close>: all its frames on the list.\<close>

definition big_started :: paging_state where
  "big_started = (fold linked (usable_frames big_memmap) cold_state)\<lparr>
     n_free_page_frames := of_nat (length (usable_frames big_memmap))\<rparr>"

lemma big_started_facts:
  shows "pmem_ok big_env big_started (rev (usable_frames big_memmap))" "console_ready big_env big_started"
    and "page_aligned g \<Longrightarrow> clean_frame (ram big_started) g"
    and "f \<in> set (usable_frames big_memmap) \<Longrightarrow> 0x100000000 \<le> unat f"
    and "kernel_pml4_table big_started = 0" "aspace big_started = None"
proof -
  show "pmem_ok big_env big_started (rev (usable_frames big_memmap))"
    using collected_ok [OF big_memmap_ok cold_facts(1,2)] by (simp add: big_started_def)
  show "clean_frame (ram big_started) g" if "page_aligned g"
    using collected_clean [OF big_memmap_ok cold_facts(4) that] by (simp add: big_started_def)
  show "console_ready big_env big_started"
    using cold_facts(3) console_ready_cong [of big_started cold_state big_env]
      fold_linked_same [of "usable_frames big_memmap" cold_state] by (simp add: big_started_def)
  have same: "pmem_state.more (fold linked xs s) = pmem_state.more s" "aspace (fold linked xs s) = aspace s"
    for xs and s :: paging_state
    by (induction xs arbitrary: s) (simp_all add: linked_def)
  show "aspace big_started = None" by (simp add: big_started_def same cold_state_def)
  have "kernel_pml4_table s = kernel_pml4_table s'" if "pmem_state.more s = pmem_state.more s'" for s s' :: paging_state
    using that by (cases s; cases s') simp
  from this [OF same(1)] show "kernel_pml4_table big_started = 0" by (simp add: big_started_def cold_state_def)
  show "0x100000000 \<le> unat f" if f: "f \<in> set (usable_frames big_memmap)"
  proof -
    obtain b where b: "f = 0x100000000 + b" "b \<in> set (step_range 4096 0 0x400000000)"
      using f unfolding big_usable set_map by blast
    then have "b < 0x400000000" using in_step_range [of "0x400000000" b] by simp
    then show ?thesis using unat_plus_exact [of "0x100000000" b] b(1) by (simp add: word_less_nat_alt)
  qed
qed

theorem setup_kernel_map_layout_witness:
  "\<exists>(s :: paging_state) s'. setup_kernel_map big_env s = Some (Ret () s') \<and>
     translate (ram s') (kernel_pml4_table s') 0xffff800000001234 = Some 0x1234"
proof -
  let ?us = "usable_frames big_memmap"
  have "?us \<noteq> []" using big_length by auto
  then have rev: "rev ?us = last ?us # rev (butlast ?us)"
    by (metis append_butlast_last_id rev_eq_Cons_iff rev_rev_ident)
  note ok = big_started_facts(1) [unfolded rev]
  have "page_aligned (last ?us)" using ok by (simp add: pmem_ok_def)
  moreover have "kernel_tables big_memmap big_kernel big_hhdm \<le> length (rev (butlast ?us))"
    using big_tables big_length by simp
  ultimately obtain s' where s': "setup_kernel_map big_env big_started = Some (Ret () s')" "kernel_pml4_table s' = last ?us"
      "page_aligned (hhdm_offset big_hhdm) \<longrightarrow> (\<forall>p. unat p < 2 ^ 32 \<and> canonical (hhdm_offset big_hhdm + p) \<longrightarrow>
         translate (ram s') (last ?us) (hhdm_offset big_hhdm + p) = Some p)"
    using setup_kernel_map_layout [OF big_env_answers big_fits ok] big_started_facts(2,3) by blast
  have "translate (ram s') (last ?us) (hhdm_offset big_hhdm + 0x1234) = Some 0x1234"
    using s'(3) [THEN mp, rule_format, of "0x1234"] by (simp add: big_hhdm_def canonical_def aligned_def drop_bit_eq_div)
  then show ?thesis using s'(1,2) by (intro exI [of _ big_started] exI [of _ s']) (simp add: big_hhdm_def)
qed

theorem kernel_memory_open_witness:
  "\<exists>n s'. mem_init big_env cold_state = Some (Ret n s') \<and>
     user_writes (ram s') (kernel_pml4_table s') (FLUX_BASE_VIRT + 0x123)"
proof -
  let ?e = "\<lparr>memmap_base = 0x200000, memmap_length = 0x3000, memmap_type = LIMINE_MEMMAP_KERNEL_AND_MODULES\<rparr>"
  have e: "?e \<in> set (memmap_entries big_memmap)" "is_kernel_entry ?e" "entry_offset big_kernel ?e = 0"
    by (simp_all add: big_memmap_def is_kernel_entry_def entry_offset_def big_kernel_def)
  have sizes: "length (usable_frames big_memmap) < 2 ^ 31"
    "kernel_tables big_memmap big_kernel big_hhdm < length (usable_frames big_memmap)"
    using big_tables by (simp_all add: big_length)
  obtain n s' where s': "mem_init big_env cold_state = Some (Ret n s')"
      "\<forall>e \<in> set (memmap_entries big_memmap). is_kernel_entry e \<longrightarrow> (\<forall>b. b < memmap_length e \<longrightarrow>
       page_aligned (entry_offset big_kernel e) \<or> page_aligned b \<longrightarrow>
       canonical (FLUX_BASE_VIRT + (entry_offset big_kernel e + b)) \<longrightarrow>
       user_writes (ram s') (kernel_pml4_table s') (FLUX_BASE_VIRT + (entry_offset big_kernel e + b)))"
    using kernel_memory_open [OF big_env_answers big_memmap_ok big_fits cold_facts(1,3) sizes cold_facts(4)] by blast
  have "user_writes (ram s') (kernel_pml4_table s') (FLUX_BASE_VIRT + (entry_offset big_kernel ?e + 0x123))"
    using s'(2) [rule_format, OF e(1,2), of "0x123"] e(3)
    by (simp add: aligned_def high_canonical kernel_address(2))
  then show ?thesis using s'(1) e(3) by auto
qed

theorem mem_init_no_memmap_witness:
  "\<exists>s'. mem_init idle_env cold_state = Some (Stop Spin s') \<and> ram s' = (\<lambda>_. 0)"
proof -
  have "console_ready idle_env cold_state"
    using idle_sends by (auto simp: console_ready_def cold_state_def)
  moreover have "memmap_response idle_env = None" by (simp add: idle_env_def)
  ultimately show ?thesis using mem_init_no_memmap [of idle_env cold_state] by (auto simp: cold_state_def)
qed

end
