(* ===== verification/Gdt.thy ===== *)
theory Gdt
  imports Paging
begin

section \<open>The global descriptor table (\<open>arch/x64/gdt.c\<close>, \<open>gdt-helpers.asm\<close>)\<close>

text \<open>
  The kernel's segment table and its loading. The segment registers and the GDTR are state;
  what the processor makes of a selector (the descriptor it names in the loaded table) is
  the specification.
\<close>

record gdt_state = paging_state +
  gdtr :: gdtr_image
  cpu_gdtr :: "gdtr_image option"
  cs_reg :: segment_selector_t
  data_regs :: "segment_selector_t list"
  interrupts_enabled :: bool

text \<open>\<open>data_regs\<close> holds DS, ES, FS, GS and SS, in this order.\<close>

definition gdt_table :: "gdt_descriptor_long list" where
  "gdt_table =
    [INIT_SEG_DESCRIPTOR 0 0 0 0,
     INIT_SEG_DESCRIPTOR 0 0
       (SEG_AB_PRESENT OR SEG_AB_DPL 0 OR SEG_AB_CODE_DATA OR SEG_AB_EXEC OR SEG_AB_RW)
       (SEG_FLAG_LONG OR SEG_FLAG_4K_BLOCKS),
     INIT_SEG_DESCRIPTOR 0 0
       (SEG_AB_PRESENT OR SEG_AB_DPL 0 OR SEG_AB_CODE_DATA OR SEG_AB_RW) SEG_FLAG_4K_BLOCKS,
     INIT_SEG_DESCRIPTOR 0 0
       (SEG_AB_PRESENT OR SEG_AB_DPL 3 OR SEG_AB_CODE_DATA OR SEG_AB_EXEC OR SEG_AB_RW)
       (SEG_FLAG_LONG OR SEG_FLAG_4K_BLOCKS),
     INIT_SEG_DESCRIPTOR 0 0
       (SEG_AB_PRESENT OR SEG_AB_DPL 3 OR SEG_AB_CODE_DATA OR SEG_AB_RW) SEG_FLAG_4K_BLOCKS]"

text \<open>The task state segment has no initialiser and is in no descriptor; nothing uses it.\<close>

definition tss_table :: tss_long where
  "tss_table = \<lparr>tss_0 = 0, rsp0 = 0, rsp1 = 0, rsp2 = 0, tss_1 = 0, ist1 = 0, ist2 = 0, ist3 = 0, ist4 = 0,
     ist5 = 0, ist6 = 0, ist7 = 0, tss_2 = 0, tss_3 = 0, io_map_base_address = 0\<rparr>"

definition load_gdt :: "(unit, 'z gdt_state_scheme) kmon" where
  "load_gdt = modify (\<lambda>s. s\<lparr>interrupts_enabled := False, cpu_gdtr := Some (gdtr s)\<rparr>)"

definition reload_seg_registers :: "(unit, 'z gdt_state_scheme) kmon" where
  "reload_seg_registers =
     andthen (modify (\<lambda>s. s\<lparr>cs_reg := 0x08\<rparr>)) (\<lambda>_.
     modify (\<lambda>s. s\<lparr>data_regs := [0x10, 0x10, 0x10, 0x10, 0x10]\<rparr>))"

definition gdt_init :: "env \<Rightarrow> (unit, 'z gdt_state_scheme) kmon" where
  "gdt_init E =
     andthen (printk E (SYSTEM_GDT @ ''Loading GDT table (at %x).'' @ NL) [VInt (gdt_table_address E)]) (\<lambda>_.
     andthen (modify (\<lambda>s. s\<lparr>gdtr := \<lparr>
       gdtr_limit = ucast (of_nat (length gdt_table) * sizeof_gdt_descriptor_long),
       gdtr_base = gdt_table_address E\<rparr>\<rparr>)) (\<lambda>_.
     andthen load_gdt (\<lambda>_.
     reload_seg_registers)))"

subsection \<open>What the processor reads\<close>

text \<open>The descriptor a selector names: the eight bytes at eight times its index must end
  within the limit, which is the offset of the last byte. The table in memory is \<open>gdt_table\<close>.\<close>

definition selected :: "gdtr_image \<Rightarrow> segment_selector_t \<Rightarrow> gdt_descriptor_long option" where
  "selected g sel =
     (let i = unat (SEGMENT_SELECTOR_INDEX sel) in
      if SEGMENT_SELECTOR_TABLE_INDEX sel = 0 \<and> i \<noteq> 0 \<and> 8 * i + 7 \<le> unat (gdtr_limit g) \<and> i < length gdt_table
      then Some (gdt_table ! i) else None)"

definition seg_present :: "gdt_descriptor_long \<Rightarrow> bool" where
  "seg_present d \<longleftrightarrow> bit (access_byte d) 7 \<and> bit (access_byte d) 4"

definition seg_dpl :: "gdt_descriptor_long \<Rightarrow> u8" where
  "seg_dpl d = drop_bit 5 (access_byte d) AND 3"

definition code_segment :: "u8 \<Rightarrow> gdt_descriptor_long \<Rightarrow> bool" where
  "code_segment dpl d \<longleftrightarrow> seg_present d \<and> bit (access_byte d) 3 \<and> bit (seg_flags d) 1 \<and> \<not> bit (seg_flags d) 2 \<and>
     seg_dpl d = dpl"

definition data_segment :: "u8 \<Rightarrow> gdt_descriptor_long \<Rightarrow> bool" where
  "data_segment dpl d \<longleftrightarrow> seg_present d \<and> \<not> bit (access_byte d) 3 \<and> bit (access_byte d) 1 \<and> seg_dpl d = dpl"

lemmas seg_ab_defs = SEG_AB_PRESENT_def SEG_AB_DPL_def SEG_AB_CODE_DATA_def SEG_AB_EXEC_def SEG_AB_RW_def
  SEG_FLAG_LONG_def SEG_FLAG_4K_BLOCKS_def

lemma gdt_table_segments:
  "length gdt_table = 5"
  "code_segment 0 (gdt_table ! 1)" "data_segment 0 (gdt_table ! 2)"
  "code_segment 3 (gdt_table ! 3)" "data_segment 3 (gdt_table ! 4)"
  by (simp_all add: gdt_table_def code_segment_def data_segment_def seg_present_def seg_dpl_def
      seg_flags_INIT access_byte_INIT seg_ab_defs)

definition kernel_gdtr :: "env \<Rightarrow> gdtr_image" where
  "kernel_gdtr E = \<lparr>gdtr_limit = 40, gdtr_base = gdt_table_address E\<rparr>"

lemma selected_simps:
  "selected (kernel_gdtr E) 0x08 = Some (gdt_table ! 1)" "selected (kernel_gdtr E) 0x10 = Some (gdt_table ! 2)"
  "selected (kernel_gdtr E) (INIT_SEGMENT_SELECTOR 3 0 3) = Some (gdt_table ! 3)"
  "selected (kernel_gdtr E) (INIT_SEGMENT_SELECTOR 3 0 4) = Some (gdt_table ! 4)"
  by (simp_all add: selected_def kernel_gdtr_def SEGMENT_SELECTOR_INDEX_def SEGMENT_SELECTOR_TABLE_INDEX_def
      INIT_SEGMENT_SELECTOR_def gdt_table_segments(1))

definition gdt_loaded :: "env \<Rightarrow> 'z gdt_state_scheme \<Rightarrow> 'z gdt_state_scheme" where
  "gdt_loaded E s = s\<lparr>gdtr := kernel_gdtr E, interrupts_enabled := False, cpu_gdtr := Some (kernel_gdtr E),
     cs_reg := 0x08, data_regs := [0x10, 0x10, 0x10, 0x10, 0x10]\<rparr>"

text \<open>What \<open>gdt_init\<close> prints.\<close>

definition gdt_text :: "env \<Rightarrow> string" where
  "gdt_text E = SYSTEM_GDT @ ''Loading GDT table (at '' @ hex_text (gdt_table_address E) @ '').'' @ NL"

lemma gdt_message: "render (SYSTEM_GDT @ ''Loading GDT table (at %x).'' @ NL) [VInt (gdt_table_address E)] = Some (gdt_text E)"
  by (simp add: colour_defs gdt_text_def)

lemma gdt_init_run:
  assumes "console_ready E s"
  obtains s1 where "gdt_init E s = Some (Ret () (gdt_loaded E s1))" "only_io s s1" "console_ready E s1"
    "console_out s1 = console_out s @ gdt_text E"
proof -
  obtain s1 where s1: "printk E (SYSTEM_GDT @ ''Loading GDT table (at %x).'' @ NL) [VInt (gdt_table_address E)] s =
      Some (Ret () s1)" "only_io s s1" "console_ready E s1" "console_out s1 = console_out s @ gdt_text E"
    using printk_ready [OF assms gdt_message] by blast
  have "gdt_init E s = Some (Ret () (gdt_loaded E s1))"
    by (simp only: gdt_init_def andthen_apply s1(1) option.case outcome.case modify_apply load_gdt_def
        reload_seg_registers_def)
      (simp add: gdt_loaded_def kernel_gdtr_def gdt_table_segments(1) sizeof_gdt_descriptor_long_def)
  then show ?thesis using that s1 by blast
qed

text \<open>C31: \<open>gdt_init\<close> loads the kernel's table. Afterwards CS names a present 64-bit code
  segment and each data register a present writable data segment, both of privilege 0, in
  the table the GDTR describes; the selectors used for user code and stacks name a 64-bit
  code and a data segment of privilege 3; interrupts are off; memory and address space are
  untouched. The limit in the GDTR is the size of the table, one more than the last byte.\<close>

theorem gdt_init_loads:
  assumes "console_ready E s"
  shows "\<exists>s' g. gdt_init E s = Some (Ret () s') \<and> cpu_gdtr s' = Some g \<and> gdtr_base g = gdt_table_address E \<and>
    unat (gdtr_limit g) = 8 * length gdt_table \<and>
    (\<exists>d. selected g (cs_reg s') = Some d \<and> code_segment 0 d) \<and>
    (\<forall>sel \<in> set (data_regs s'). \<exists>d. selected g sel = Some d \<and> data_segment 0 d) \<and>
    (\<exists>d. selected g (INIT_SEGMENT_SELECTOR 3 0 3) = Some d \<and> code_segment 3 d) \<and>
    (\<exists>d. selected g (INIT_SEGMENT_SELECTOR 3 0 4) = Some d \<and> data_segment 3 d) \<and>
    \<not> interrupts_enabled s' \<and> ram s' = ram s \<and> aspace s' = aspace s"
proof -
  obtain s1 where s1: "gdt_init E s = Some (Ret () (gdt_loaded E s1))" "only_io s s1"
    using gdt_init_run [OF assms] by blast
  have "ram s1 = ram s" "aspace s1 = aspace s" using s1(2) by (auto simp: only_io_def)
  then show ?thesis
    using s1(1) gdt_table_segments selected_simps
    by (intro exI [of _ "gdt_loaded E s1"] exI [of _ "kernel_gdtr E"])
      (simp add: gdt_loaded_def kernel_gdtr_def)
qed

text \<open>A console and unloaded tables.\<close>

definition idle_gdt :: gdt_state where
  "idle_gdt = \<lparr>io_trace = [], ram = (\<lambda>_. 0), aspace = None,
     com_ports = [\<lparr>io_port_base = 0x3f8, port_status = COM_PORT_STATUS_READY\<rparr>],
     primary_com_port = Some 0, first_page_frame = 0, n_free_page_frames = 0, kernel_pml4_table = 0,
     gdtr = \<lparr>gdtr_limit = 0, gdtr_base = 0\<rparr>, cpu_gdtr = None, cs_reg = 0, data_regs = [],
     interrupts_enabled = True\<rparr>"

theorem gdt_init_loads_witness:
  "\<exists>s'. gdt_init idle_env idle_gdt = Some (Ret () s') \<and> \<not> interrupts_enabled s'"
proof -
  have "console_ready idle_env idle_gdt" using idle_sends by (auto simp: console_ready_def idle_gdt_def)
  from gdt_init_loads [OF this] show ?thesis by blast
qed

end
