(* ===== verification/Proc.thy ===== *)
theory Proc
  imports Address_Space Gdt
begin

section \<open>Processes (\<open>arch/x64/proc.h\<close>, \<open>proc.c\<close>)\<close>

text \<open>
  The saved registers of a task, their default values, and the address space a task starts
  in: its stack just below the kernel and its code at address 0. The caller passes where the
  address of the top-level table is kept; that pointer is read and written through memory.
\<close>

record processor_regs =
  rax :: u64
  rbx :: u64
  rcx :: u64
  rdx :: u64
  rsi :: u64
  rdi :: u64
  rsp :: u64
  rbp :: u64
  r8 :: u64
  r9 :: u64
  r10 :: u64
  r11 :: u64
  r12 :: u64
  r13 :: u64
  r14 :: u64
  r15 :: u64
  rip :: u64
  cs :: u16
  ds :: u16
  ss :: u16
  rflags :: u64
  cr3 :: u64

definition default_regs_userspace :: processor_regs where
  "default_regs_userspace = \<lparr>rax = 0, rbx = 0, rcx = 0, rdx = 0, rsi = 0, rdi = 0, rsp = 0, rbp = 0,
     r8 = 0, r9 = 0, r10 = 0, r11 = 0, r12 = 0, r13 = 0, r14 = 0, r15 = 0, rip = 0,
     cs = INIT_SEGMENT_SELECTOR 3 0 3, ds = INIT_SEGMENT_SELECTOR 3 0 4, ss = INIT_SEGMENT_SELECTOR 3 0 4,
     rflags = 0, cr3 = 0\<rparr>"

definition default_regs_kernel :: processor_regs where
  "default_regs_kernel = \<lparr>rax = 0, rbx = 0, rcx = 0, rdx = 0, rsi = 0, rdi = 0, rsp = 0, rbp = 0,
     r8 = 0, r9 = 0, r10 = 0, r11 = 0, r12 = 0, r13 = 0, r14 = 0, r15 = 0, rip = 0,
     cs = INIT_SEGMENT_SELECTOR 0 0 3, ds = INIT_SEGMENT_SELECTOR 0 0 4, ss = INIT_SEGMENT_SELECTOR 0 0 4,
     rflags = 0, cr3 = 0\<rparr>"

definition print_regs :: "env \<Rightarrow> processor_regs \<Rightarrow> (unit, 'z serial_state_scheme) kmon" where
  "print_regs E r = printk E (
     ''rax:'' @ TAB @ ''0x%p'' @ NL @ ''rbx:'' @ TAB @ ''0x%p'' @ NL @
     ''rcx:'' @ TAB @ ''0x%p'' @ NL @ ''rdx:'' @ TAB @ ''0x%p'' @ NL @
     ''rsi:'' @ TAB @ ''0x%p'' @ NL @ ''rdi:'' @ TAB @ ''0x%p'' @ NL @
     ''rsp:'' @ TAB @ ''0x%p'' @ NL @ ''rbp:'' @ TAB @ ''0x%p'' @ NL @
     ''r8:'' @ TAB @ ''0x%p'' @ NL @ ''r9:'' @ TAB @ ''0x%p'' @ NL @
     ''r10:'' @ TAB @ ''0x%p'' @ NL @ ''r11:'' @ TAB @ ''0x%p'' @ NL @
     ''r12:'' @ TAB @ ''0x%p'' @ NL @ ''r13:'' @ TAB @ ''0x%p'' @ NL @
     ''r14:'' @ TAB @ ''0x%p'' @ NL @ ''r15:'' @ TAB @ ''0x%p'' @ NL @
     ''rip:'' @ TAB @ ''0x%p'' @ NL @ ''cs:'' @ TAB @ ''0x%x'' @ NL @
     ''ds:'' @ TAB @ ''0x%x'' @ NL @ ''ss:'' @ TAB @ ''0x%x'' @ NL @
     ''rflags:'' @ TAB @ ''0x%p'' @ NL @ ''cr3:'' @ TAB @ ''0x%p'' @ NL)
     [VInt (rax r), VInt (rbx r), VInt (rcx r), VInt (rdx r), VInt (rsi r), VInt (rdi r), VInt (rsp r),
      VInt (rbp r), VInt (r8 r), VInt (r9 r), VInt (r10 r), VInt (r11 r), VInt (r12 r), VInt (r13 r),
      VInt (r14 r), VInt (r15 r), VInt (rip r), VInt (ucast (cs r)), VInt (ucast (ds r)), VInt (ucast (ss r)),
      VInt (rflags r), VInt (cr3 r)]"

text \<open>The result is \<open>Some (- 1)\<close> for the error return; at its end the function returns no
  value (\<open>None\<close>), although its type is \<open>int\<close>.\<close>

definition init_task_space_from_mem ::
    "env \<Rightarrow> u64 \<Rightarrow> u64 \<Rightarrow> u64 \<Rightarrow> (u32 option, 'z pmem_state_scheme) kmon" where
  "init_task_space_from_mem E pml4 pmem_offset n_blocks =
     andthen (load64 E pml4) (\<lambda>v.
     andthen (printk E (''pml4 = %p; *pml4 = %p'' @ NL) [VInt pml4, VInt v]) (\<lambda>_.
     andthen (printk E (''Getting block for pml4'' @ NL) []) (\<lambda>_.
     andthen (get_phys_block E) (\<lambda>b.
     andthen (store64 E pml4 b) (\<lambda>_.
     andthen (load64 E pml4) (\<lambda>p. if p = 0 then ret (Some (- 1)) else
     andthen (printk E (''Getting block for stack'' @ NL) []) (\<lambda>_.
     andthen (get_phys_block E) (\<lambda>stack_block_start. if stack_block_start = 0 then ret (Some (- 1)) else
     andthen (printk E (''Mapping task stack'' @ NL) []) (\<lambda>_.
     andthen (andthen (load64 E pml4) (\<lambda>p. map_page_specific_pml4 E p stack_block_start
       (FLUX_BASE_VIRT - 4096) (PSE_WRITEABLE OR PSE_USER_MODE))) (\<lambda>_.
     andthen (printk E (''Mapping task'' @ [CHR 0x27] @ ''s executable'' @ NL) []) (\<lambda>_.
     andthen (for_step 1 n_blocks (\<lambda>bn. andthen (load64 E pml4) (\<lambda>p.
       map_page_specific_pml4 E p (pmem_offset + 4096 * bn) (4096 * bn) PSE_USER_MODE)) 0) (\<lambda>_.
     ret None))))))))))))"

section \<open>What is printed of the registers\<close>

definition reg_line :: "string \<Rightarrow> string \<Rightarrow> string" where
  "reg_line name value = name @ '':'' @ TAB @ ''0x'' @ value @ NL"

definition regs_text :: "processor_regs \<Rightarrow> string" where
  "regs_text r = concat
     [reg_line ''rax'' (pointer_text (rax r)), reg_line ''rbx'' (pointer_text (rbx r)),
      reg_line ''rcx'' (pointer_text (rcx r)), reg_line ''rdx'' (pointer_text (rdx r)),
      reg_line ''rsi'' (pointer_text (rsi r)), reg_line ''rdi'' (pointer_text (rdi r)),
      reg_line ''rsp'' (pointer_text (rsp r)), reg_line ''rbp'' (pointer_text (rbp r)),
      reg_line ''r8'' (pointer_text (r8 r)), reg_line ''r9'' (pointer_text (r9 r)),
      reg_line ''r10'' (pointer_text (r10 r)), reg_line ''r11'' (pointer_text (r11 r)),
      reg_line ''r12'' (pointer_text (r12 r)), reg_line ''r13'' (pointer_text (r13 r)),
      reg_line ''r14'' (pointer_text (r14 r)), reg_line ''r15'' (pointer_text (r15 r)),
      reg_line ''rip'' (pointer_text (rip r)), reg_line ''cs'' (hex_text (ucast (cs r))),
      reg_line ''ds'' (hex_text (ucast (ds r))), reg_line ''ss'' (hex_text (ucast (ss r))),
      reg_line ''rflags'' (pointer_text (rflags r)), reg_line ''cr3'' (pointer_text (cr3 r))]"

section \<open>A pointer in memory\<close>

text \<open>The word at the virtual address \<open>p\<close> is entry \<open>i\<close> of the frame \<open>f\<close>.\<close>

definition cell :: "env \<Rightarrow> u64 \<Rightarrow> u64 \<Rightarrow> u64 \<Rightarrow> bool" where
  "cell E p f i \<longleftrightarrow> aligned 8 p \<and> page_aligned f \<and> i < 512 \<and> boot_map E p = Some (slot f i)"

lemma cell_load: "cell E p f i \<Longrightarrow> aspace s = None \<Longrightarrow> load64 E p s = Some (Ret (rd64 (ram s) (slot f i)) s)"
  by (simp add: cell_def load64_def phys_addr_def)

lemma cell_store: "cell E p f i \<Longrightarrow> aspace s = None \<Longrightarrow>
    store64 E p v s = Some (Ret () (s\<lparr>ram := wr64 (ram s) (slot f i) v\<rparr>))"
  by (simp add: cell_def store64_def phys_addr_def)

section \<open>The task's mappings\<close>

definition task_map_page :: "env \<Rightarrow> u64 \<Rightarrow> u32 \<Rightarrow> mapping_step \<Rightarrow> (unit, 'z pmem_state_scheme) kmon" where
  "task_map_page E p flags x = andthen (load64 E p) (\<lambda>pml4. map_page_specific_pml4 E pml4 (fst x) (snd x) flags)"

text \<open>The stack is writeable, and so are the tables on the way to it; nothing else is.\<close>

definition stack_path :: path where
  "stack_path = page_path (FLUX_BASE_VIRT - 4096)"

definition task_flags :: "path \<Rightarrow> u32" where
  "task_flags p = (if prefix p stack_path then PSE_WRITEABLE OR PSE_USER_MODE else PSE_USER_MODE)"

text \<open>The cell holds the root of the task's tables; it lies outside of the frames \<open>A\<close>, where the
  tables are made, and outside of the tables memory is \<open>w\<close>.\<close>

definition task_rel :: "env \<Rightarrow> u64 \<Rightarrow> u64 \<Rightarrow> u64 \<Rightarrow> u64 set \<Rightarrow> (u64 \<Rightarrow> u64) \<Rightarrow> u64 \<Rightarrow> 'z paging_state_scheme \<Rightarrow>
    (path \<Rightarrow> u64 option) \<times> u64 list \<Rightarrow> bool" where
  "task_rel E p f i A w root s a \<longleftrightarrow> cell E p f i \<and> w (slot f i) = root \<and> f \<notin> A \<and>
     footprint root s \<subseteq> A \<and>
     (\<forall>g j. page_aligned g \<and> g \<notin> tables (rd64 (ram s)) root \<and> j < 512 \<longrightarrow> rd64 (ram s) (slot g j) = w (slot g j)) \<and>
     paging_ok E s root (snd a) \<and> pt_view s root = fst a \<and> console_ready E s \<and>
     flagged task_flags root (rd64 (ram s))"

lemma tables_footprint: "m = ram s \<Longrightarrow> tables (rd64 m) root \<subseteq> footprint root s"
  by (simp add: footprint_def)

lemma task_rel_cell: "task_rel E p f i A w root s a \<Longrightarrow> rd64 (ram s) (slot f i) = root"
  using tables_footprint [of "ram s" s root] by (auto simp: task_rel_def cell_def)

text \<open>What is new after a mapping lies on the way to the page.\<close>

lemma map_spec_new:
  assumes "length q = 4" "map_spec v fs q a = Some (v', fs')" "v' p \<noteq> None" "v p = None" "length p \<le> 4"
  shows "prefix p q"
proof (cases "length p = 4")
  case True
  then show ?thesis using map_spec_view(2) [OF assms(1,2)] assms(3,4) by (cases "p = q") auto
next
  case False
  then have "p \<in> set (levels q)" using map_spec_view(3) [OF assms(1,2), of p] assms(3-5) by auto
  then show ?thesis by (auto simp: levels_def take_is_prefix)
qed

lemma flagged_step:
  assumes m: "step_spec x a = Some a'" "fst a = view w root" "fst a' = view w' root"
    and s: "sets_entries flags {page_path (snd x)} root w w'" and f: "flagged task_flags root w"
    and new: "\<And>q. prefix q (page_path (snd x)) \<Longrightarrow> fst a q = None \<or> q = page_path (snd x) \<Longrightarrow> task_flags q = flags"
  shows "flagged task_flags root w'"
proof (rule flagged_sets [OF f s])
  fix q assume q: "q \<noteq> []" "view w' root q \<noteq> None" "view w root q = None \<or> q \<in> {page_path (snd x)}"
  have "length q \<le> 4" using q(2) by (simp add: view_def split: if_splits)
  then have "prefix q (page_path (snd x))"
    using map_spec_new [of "page_path (snd x)" "fst a" "snd a" "PSE_PTR (fst x)" "fst a'" "snd a'" q] m q(2,3)
    by (cases a') (auto simp: step_spec_def)
  then show "task_flags q = flags" using new q(3) m(2) by simp
qed

lemma task_map_page_step:
  assumes r: "task_rel E p f i A w root s a" and fl: "entry_flags flags"
    and new: "\<And>q. prefix q (page_path (snd x)) \<Longrightarrow> fst a q = None \<or> q = page_path (snd x) \<Longrightarrow> task_flags q = flags"
  shows "case step_spec x a of
      Some a' \<Rightarrow> \<exists>s'. task_map_page E p flags x s = Some (Ret () s') \<and> task_rel E p f i A w root s' a' \<and> pmem_only s s'
    | None \<Rightarrow> \<exists>s'. task_map_page E p flags x s = Some (Stop Spin s') \<and> gave_up s s'"
proof -
  have c: "cell E p f i" "rd64 (ram s) (slot f i) = root" and
    fr: "w (slot f i) = root" "f \<notin> A" "footprint root s \<subseteq> A"
      "\<And>g j. page_aligned g \<Longrightarrow> g \<notin> tables (rd64 (ram s)) root \<Longrightarrow> j < 512 \<Longrightarrow>
        rd64 (ram s) (slot g j) = w (slot g j)" and
    ok: "paging_ok E s root (snd a)" "pt_view s root = fst a" "console_ready E s" and
    flg: "flagged task_flags root (rd64 (ram s))"
    using r task_rel_cell [OF r] by (simp_all add: task_rel_def)
  have run: "task_map_page E p flags x s = map_page_specific_pml4 E root (fst x) (snd x) flags s"
    using cell_load [OF c(1) paging_ok_boot [OF ok(1)]]
    by (simp add: task_map_page_def andthen_Ret [where m = "load64 E p"] c(2))
  have m: "refines E root flags {page_path (snd x)} (map_page_specific_pml4 E root (fst x) (snd x) flags) s (step_spec x a)"
    using map_page_refines [OF ok(1) fl ok(3), of "snd x" "fst x"] by (simp add: step_spec_def ok(2))
  show ?thesis
  proof (cases "step_spec x a")
    case None
    obtain s' where "map_page_specific_pml4 E root (fst x) (snd x) flags s = Some (Stop Spin s')"
        "console_out s' = console_out s @ [] @ out_of_frames"
      using m by (auto simp: refines_def None)
    then show ?thesis unfolding None gave_up_def run by auto
  next
    case (Some a')
    obtain s' where s': "map_page_specific_pml4 E root (fst x) (snd x) flags s = Some (Ret () s')"
        "paging_ok E s' root (snd a')" "pt_view s' root = fst a'" "pmem_only s s'" "stays root s s'"
        "sets_entries flags {page_path (snd x)} root (rd64 (ram s)) (rd64 (ram s'))"
      using m by (auto simp: refines_def Some split: prod.splits)
    have "flagged task_flags root (rd64 (ram s'))"
      using flagged_step [OF Some _ _ s'(6) flg new] ok(2) s'(3) by (simp add: pt_view_def)
    moreover have "footprint root s' \<subseteq> A" using s'(5) fr(3) unfolding stays_def by blast
    moreover have "rd64 (ram s') (slot g j) = w (slot g j)"
      if "page_aligned g" "g \<notin> tables (rd64 (ram s')) root" "j < 512" for g j
      using s'(5) fr(4) [OF that(1) _ that(3)] that unfolding stays_def by auto
    ultimately have "task_rel E p f i A w root s' a'"
      using c(1) fr(1,2) s' pmem_only_ready [OF s'(4), of E] ok(3) by (simp add: task_rel_def)
    then show ?thesis using s'(1,4) unfolding Some run by auto
  qed
qed

lemma user_flags: "entry_flags PSE_USER_MODE"
  by (simp add: entry_flags_def PSE_USER_MODE_def bit_iff_odd_drop_bit)

text \<open>The stack is mapped first; then pages other than its own leave its entries alone.\<close>

definition code_page :: "mapping_step \<Rightarrow> bool" where
  "code_page x \<longleftrightarrow> page_path (snd x) \<noteq> stack_path"

lemma code_page_new:
  assumes "fst a = view w root" "fst a stack_path \<noteq> None" "code_page x"
    and "prefix q (page_path (snd x))" "fst a q = None \<or> q = page_path (snd x)"
  shows "task_flags q = PSE_USER_MODE"
proof -
  have "\<not> prefix q stack_path"
  proof
    assume q: "prefix q stack_path"
    then have "fst a q \<noteq> None" using view_prefix [of w root stack_path q] assms(1,2) by simp
    then have "q = page_path (snd x)" using assms(5) by auto
    moreover obtain r where r: "stack_path = q @ r" using q by (auto simp: prefix_def)
    moreover have "length stack_path = 4" by (simp add: stack_path_def)
    ultimately have "length (page_path (snd x) @ r) = 4" by simp
    then have "r = []" by simp
    then show False using assms(3) r \<open>q = page_path (snd x)\<close> by (simp add: code_page_def)
  qed
  then show ?thesis by (simp add: task_flags_def)
qed

interpretation task_pages: refining_loop "task_map_page E p PSE_USER_MODE" step_spec
    "\<lambda>s a. task_rel E p f i A w root s a \<and> fst a stack_path \<noteq> None" pmem_only gave_up code_page for E p f i A w root
proof unfold_locales
  fix s s' s'' :: "'a paging_state_scheme" and a a' x
  show "pmem_only s s" by simp
  show "pmem_only s s' \<Longrightarrow> pmem_only s' s'' \<Longrightarrow> pmem_only s s''" by (rule pmem_only_trans)
  show "pmem_only s s' \<Longrightarrow> gave_up s' s'' \<Longrightarrow> gave_up s s''" by (rule gave_up_kept [OF mapping_kept_pmem])
  assume x: "code_page x" and r: "task_rel E p f i A w root s a \<and> fst a stack_path \<noteq> None"
  have v: "fst a = view (rd64 (ram s)) root" using r by (simp add: task_rel_def pt_view_def)
  have new: "task_flags q = PSE_USER_MODE"
    if "prefix q (page_path (snd x))" "fst a q = None \<or> q = page_path (snd x)" for q
    using code_page_new [OF v _ x that] r by simp
  have step: "case step_spec x a of
      Some a' \<Rightarrow> \<exists>s'. task_map_page E p PSE_USER_MODE x s = Some (Ret () s') \<and> task_rel E p f i A w root s' a' \<and> pmem_only s s'
    | None \<Rightarrow> \<exists>s'. task_map_page E p PSE_USER_MODE x s = Some (Stop Spin s') \<and> gave_up s s'"
    by (rule task_map_page_step [OF conjunct1 [OF r] user_flags new])
  show "\<exists>s'. task_map_page E p PSE_USER_MODE x s = Some (Ret () s') \<and>
      (task_rel E p f i A w root s' a' \<and> fst a' stack_path \<noteq> None) \<and> pmem_only s s'"
    if a': "step_spec x a = Some a'"
  proof -
    have "fst a' stack_path = fst a stack_path"
      using map_spec_view(2) [of "page_path (snd x)" "fst a" "snd a" "PSE_PTR (fst x)" "fst a'" "snd a'" stack_path] a' x
      by (simp add: step_spec_def code_page_def stack_path_def eq_commute [of "page_path (snd x)"])
    then show ?thesis using step a' r by auto
  qed
  show "\<exists>s'. task_map_page E p PSE_USER_MODE x s = Some (Stop Spin s') \<and> gave_up s s'"
    if "step_spec x a = None" using step that by simp
qed

lemma footprint_io: "only_io s s' \<Longrightarrow> footprint root s' = footprint root s"
  by (auto simp: only_io_def footprint_def)

lemma task_rel_printed:
  assumes "task_rel E p f i A w root s a" "render fmt args = Some t"
  obtains s' where "printk E fmt args s = Some (Ret () s')" "task_rel E p f i A w root s' a" "mapping_kept s s'"
    "console_out s' = console_out s @ t"
proof -
  have "console_ready E s" using assms(1) by (simp add: task_rel_def)
  then obtain s' where s': "printk E fmt args s = Some (Ret () s')" "console_ready E s'" "only_io s s'"
      "console_out s' = console_out s @ t"
    using printk_ready assms(2) by blast
  have "task_rel E p f i A w root s' a"
    using assms(1) s'(2) footprint_io [OF s'(3)] paging_ok_io [OF s'(3)] only_io_fields [OF s'(3)]
    by (simp add: task_rel_def pt_view_def)
  then show ?thesis using that s'(1,4) mapping_kept_io [OF s'(3)] by blast
qed

text \<open>The mappings of a task, in the order they are made.\<close>

definition code_steps :: "u64 \<Rightarrow> u64 \<Rightarrow> mapping_step list" where
  "code_steps off n = map (\<lambda>bn. (off + 4096 * bn, 4096 * bn)) (step_range 1 0 n)"

definition task_steps :: "u64 \<Rightarrow> u64 \<Rightarrow> u64 \<Rightarrow> mapping_step list" where
  "task_steps stack off n = (stack, FLUX_BASE_VIRT - 4096) # code_steps off n"

lemma code_loop: "for_step 1 n (\<lambda>bn. andthen (load64 E p) (\<lambda>pml4.
      map_page_specific_pml4 E pml4 (off + 4096 * bn) (4096 * bn) PSE_USER_MODE)) 0 =
    for_each (task_map_page E p PSE_USER_MODE) (code_steps off n)"
proof -
  have "unat n + unat (1 :: u64) \<le> 2 ^ 64" using unsigned_less [of n, where 'a = nat] by simp
  then show ?thesis
    by (intro ext) (simp add: for_step_for_each code_steps_def for_each_map task_map_page_def)
qed

text \<open>What is printed for a task whose pointer is \<open>p\<close> and was \<open>v\<close> before: one line before each
  of the two frames is taken and one before each of the two kinds of mappings.\<close>

definition task_text :: "u64 \<Rightarrow> u64 \<Rightarrow> string" where
  "task_text p v = ''pml4 = '' @ pointer_text p @ ''; *pml4 = '' @ pointer_text v @ NL @
     ''Getting block for pml4'' @ NL @ ''Getting block for stack'' @ NL @ ''Mapping task stack'' @ NL @
     ''Mapping task'' @ [CHR 0x27] @ ''s executable'' @ NL"

lemma task_messages_render:
  "render (''pml4 = %p; *pml4 = %p'' @ NL) [VInt a, VInt b] =
     Some (''pml4 = '' @ pointer_text a @ ''; *pml4 = '' @ pointer_text b @ NL)"
  "render (''Getting block for pml4'' @ NL) [] = Some (''Getting block for pml4'' @ NL)"
  "render (''Getting block for stack'' @ NL) [] = Some (''Getting block for stack'' @ NL)"
  "render (''Mapping task stack'' @ NL) [] = Some (''Mapping task stack'' @ NL)"
  "render (''Mapping task'' @ [CHR 0x27] @ ''s executable'' @ NL) [] =
     Some (''Mapping task'' @ [CHR 0x27] @ ''s executable'' @ NL)"
  by (simp_all add: NL_def)

text \<open>Taking the two frames and storing the first in the cell.\<close>

lemma frame_taken:
  assumes "pmem_ok E s (f # fs)"
  obtains s' where "get_phys_block E s = Some (Ret f s')" "pmem_ok E s' fs" "ram s' = ram s" "mapping_kept s s'"
    "console_ready E s' = console_ready E s" "console_out s' = console_out s"
proof -
  define s' where "s' = s\<lparr>first_page_frame := rd64 (ram s) f, n_free_page_frames := n_free_page_frames s - 1\<rparr>"
  have "mapping_kept s s'"
    unfolding mapping_kept_def s'_def
    by (intro exI [of _ "[]"] exI [of _ "ram s"] exI [of _ "rd64 (ram s) f"] exI [of _ "n_free_page_frames s - 1"]) simp
  moreover have "console_ready E s' = console_ready E s" by (rule console_ready_cong) (simp_all add: s'_def)
  moreover have "console_out s' = console_out s" by (rule console_out_cong) (simp_all add: s'_def)
  ultimately show ?thesis
    using that [of s'] get_phys_block_eq [OF assms] pmem_ok_taken [OF assms] by (simp add: s'_def)
qed

lemma cell_written:
  assumes ok: "pmem_ok E s fs" and c: "cell E p f i" "f \<notin> set fs"
  obtains s' where "store64 E p v s = Some (Ret () s')" "pmem_ok E s' fs" "mapping_kept s s'"
    "console_ready E s' = console_ready E s" "rd64 (ram s') (slot f i) = v"
    "\<And>g j. page_aligned g \<Longrightarrow> j < 512 \<Longrightarrow> rd64 (ram s') (slot g j) = ((rd64 (ram s))(slot f i := v)) (slot g j)"
    "console_out s' = console_out s"
proof -
  define s' where "s' = s\<lparr>ram := wr64 (ram s) (slot f i) v\<rparr>"
  have f: "page_aligned f" "i < 512" using c(1) by (simp_all add: cell_def)
  have "mapping_kept s s'"
    unfolding mapping_kept_def s'_def
    by (intro exI [of _ "[]"] exI [of _ "wr64 (ram s) (slot f i) v"] exI [of _ "first_page_frame s"]
        exI [of _ "n_free_page_frames s"]) simp
  moreover have "console_ready E s' = console_ready E s" by (rule console_ready_cong) (simp_all add: s'_def)
  moreover have "console_out s' = console_out s" by (rule console_out_cong) (simp_all add: s'_def)
  moreover have "pmem_ok E s' fs" using pmem_ok_write [OF ok f(1) c(2) f(2)] by (simp add: s'_def)
  moreover have "rd64 (ram s') (slot f i) = v" using f by (simp add: s'_def rd64_wr64_same)
  moreover have "rd64 (ram s') (slot g j) = ((rd64 (ram s))(slot f i := v)) (slot g j)" if "page_aligned g" "j < 512" for g j
    using that f by (cases "slot g j = slot f i") (simp_all add: s'_def rd64_wr64_other rd64_wr64_same)
  ultimately show ?thesis
    using that cell_store [OF c(1), of s v] ok by (simp add: s'_def pmem_ok_def)
qed

text \<open>The code from the stack's frame on.\<close>

definition task_rest :: "env \<Rightarrow> u64 \<Rightarrow> u64 \<Rightarrow> u64 \<Rightarrow> (u32 option, 'z pmem_state_scheme) kmon" where
  "task_rest E p off n =
     andthen (printk E (''Getting block for stack'' @ NL) []) (\<lambda>_.
     andthen (get_phys_block E) (\<lambda>stack. if stack = 0 then ret (Some (- 1)) else
     andthen (printk E (''Mapping task stack'' @ NL) []) (\<lambda>_.
     andthen (task_map_page E p (PSE_WRITEABLE OR PSE_USER_MODE) (stack, FLUX_BASE_VIRT - 4096)) (\<lambda>_.
     andthen (printk E (''Mapping task'' @ [CHR 0x27] @ ''s executable'' @ NL) []) (\<lambda>_.
     andthen (for_each (task_map_page E p PSE_USER_MODE) (code_steps off n)) (\<lambda>_. ret None))))))"

lemma task_root_taken:
  assumes ok: "pmem_ok E s (root # fs)" and c: "cell E p f i" "f \<notin> set (root # fs)" and ready: "console_ready E s"
  obtains s' where "init_task_space_from_mem E p off n s = task_rest E p off n s'" "pmem_ok E s' fs" "mapping_kept s s'"
    "console_ready E s'" "console_out s' = console_out s @ ''pml4 = '' @ pointer_text p @ ''; *pml4 = '' @
      pointer_text (rd64 (ram s) (slot f i)) @ NL @ ''Getting block for pml4'' @ NL"
    "\<And>g j. page_aligned g \<Longrightarrow> j < 512 \<Longrightarrow> rd64 (ram s') (slot g j) = ((rd64 (ram s))(slot f i := root)) (slot g j)"
proof -
  have "aspace s = None" using ok by (simp add: pmem_ok_def)
  note l0 = cell_load [OF c(1) this]
  obtain s1 where s1: "printk E (''pml4 = %p; *pml4 = %p'' @ NL) [VInt p, VInt (rd64 (ram s) (slot f i))] s =
      Some (Ret () s1)" "console_ready E s1" "only_io s s1"
      "console_out s1 = console_out s @ ''pml4 = '' @ pointer_text p @ ''; *pml4 = '' @ pointer_text (rd64 (ram s) (slot f i)) @ NL"
    using printk_ready [OF ready task_messages_render(1)] by blast
  obtain s2 where s2: "printk E (''Getting block for pml4'' @ NL) [] s1 = Some (Ret () s2)" "console_ready E s2" "only_io s1 s2"
      "console_out s2 = console_out s1 @ ''Getting block for pml4'' @ NL"
    using printk_ready [OF s1(2) task_messages_render(2)] by blast
  have "pmem_ok E s2 (root # fs)" using ok pmem_ok_io [OF s1(3)] pmem_ok_io [OF s2(3)] by simp
  then obtain s3 where s3: "get_phys_block E s2 = Some (Ret root s3)" "pmem_ok E s3 fs" "ram s3 = ram s2"
      "mapping_kept s2 s3" "console_ready E s3 = console_ready E s2" "console_out s3 = console_out s2"
    using frame_taken by blast
  have cs3: "f \<notin> set fs" using c(2) by simp
  obtain s4 where s4: "store64 E p root s3 = Some (Ret () s4)" "pmem_ok E s4 fs" "mapping_kept s3 s4"
      "console_ready E s4 = console_ready E s3" "rd64 (ram s4) (slot f i) = root"
      "\<And>g j. page_aligned g \<Longrightarrow> j < 512 \<Longrightarrow> rd64 (ram s4) (slot g j) = ((rd64 (ram s3))(slot f i := root)) (slot g j)"
      "console_out s4 = console_out s3"
    using cell_written [OF s3(2) c(1) cs3, of root] by blast
  have l4: "load64 E p s4 = Some (Ret root s4)"
    using cell_load [OF c(1), of s4] s4(2,5) by (simp add: pmem_ok_def)
  have nz: "root \<noteq> 0" using ok by (simp add: pmem_ok_def)
  show ?thesis
  proof (rule that [of s4])
    show "init_task_space_from_mem E p off n s = task_rest E p off n s4"
      unfolding init_task_space_from_mem_def code_loop task_rest_def
      by (simp only: andthen_apply l0 l4 s1(1) s2(1) s3(1) s4(1) option.case outcome.case nz if_False
          task_map_page_def fst_conv snd_conv)
    show "mapping_kept s s4"
      by (rule mapping_kept_trans [OF mapping_kept_io [OF s1(3)]], rule mapping_kept_trans [OF mapping_kept_io [OF s2(3)]],
          rule mapping_kept_trans [OF s3(4) s4(3)])
    show "rd64 (ram s4) (slot g j) = ((rd64 (ram s))(slot f i := root)) (slot g j)" if "page_aligned g" "j < 512" for g j
      using s4(6) [OF that] s3(3) only_io_fields(1) [OF s2(3)] only_io_fields(1) [OF s1(3)] by simp
  qed (use s4(2,4,7) s3(5,6) s2(2,4) s1(4) in simp_all)
qed

lemma task_start:
  assumes ok: "pmem_ok E s (root # stack # fs)" and clean: "clean_frame (ram s) root"
    and c: "cell E p f i" "f \<notin> set (root # stack # fs)" and ready: "console_ready E s"
  obtains s' where "init_task_space_from_mem E p off n s =
      andthen (task_map_page E p (PSE_WRITEABLE OR PSE_USER_MODE) (stack, FLUX_BASE_VIRT - 4096)) (\<lambda>_.
      andthen (printk E (''Mapping task'' @ [CHR 0x27] @ ''s executable'' @ NL) []) (\<lambda>_.
      andthen (for_each (task_map_page E p PSE_USER_MODE) (code_steps off n)) (\<lambda>_. ret None))) s'"
    "task_rel E p f i (set (root # stack # fs)) ((rd64 (ram s))(slot f i := root)) root s' ([[] \<mapsto> root], fs)"
    "mapping_kept s s'" "console_out s' @ ''Mapping task'' @ [CHR 0x27] @ ''s executable'' @ NL =
      console_out s @ task_text p (rd64 (ram s) (slot f i))"
proof -
  obtain s4 where s4: "init_task_space_from_mem E p off n s = task_rest E p off n s4" "pmem_ok E s4 (stack # fs)"
      "mapping_kept s s4" "console_ready E s4"
      "console_out s4 = console_out s @ ''pml4 = '' @ pointer_text p @ ''; *pml4 = '' @
        pointer_text (rd64 (ram s) (slot f i)) @ NL @ ''Getting block for pml4'' @ NL"
      "\<And>g j. page_aligned g \<Longrightarrow> j < 512 \<Longrightarrow> rd64 (ram s4) (slot g j) = ((rd64 (ram s))(slot f i := root)) (slot g j)"
    using task_root_taken [OF ok c ready] by metis
  obtain s5 where s5: "printk E (''Getting block for stack'' @ NL) [] s4 = Some (Ret () s5)" "console_ready E s5" "only_io s4 s5"
      "console_out s5 = console_out s4 @ ''Getting block for stack'' @ NL"
    using printk_ready [OF s4(4) task_messages_render(3)] by blast
  have "pmem_ok E s5 (stack # fs)" using s4(2) pmem_ok_io [OF s5(3)] by simp
  then obtain s6 where s6: "get_phys_block E s5 = Some (Ret stack s6)" "pmem_ok E s6 fs" "ram s6 = ram s5"
      "mapping_kept s5 s6" "console_ready E s6 = console_ready E s5" "console_out s6 = console_out s5"
    using frame_taken by blast
  have "console_ready E s6" using s6(5) s5(2) by simp
  then obtain s7 where s7: "printk E (''Mapping task stack'' @ NL) [] s6 = Some (Ret () s7)" "console_ready E s7" "only_io s6 s7"
      "console_out s7 = console_out s6 @ ''Mapping task stack'' @ NL"
    using printk_ready [OF _ task_messages_render(4)] by blast
  have fr: "frame_ok E root" "root \<notin> set fs" "root \<noteq> 0" "stack \<noteq> 0" "root \<noteq> f"
    using ok pmem_ok_distinct [OF ok] c(2) by (auto simp: pmem_ok_def frame_ok_def)
  have ram7: "ram s7 = ram s4" using only_io_fields(1) [OF s7(3)] s6(3) only_io_fields(1) [OF s5(3)] by simp
  have fi: "page_aligned f" "i < 512" using c(1) by (simp_all add: cell_def)
  have "rd64 (ram s7) (slot root j) AND PSE_PRESENT = 0" if "j < 512" for j
    using s4(6) [of root j] that clean_entries [OF ok clean that] frame_ok_addr [OF fr(1)] fr(5) fi
    by (simp add: ram7 slot_eq_iff)
  moreover have "pmem_ok E s7 fs" using s6(2) pmem_ok_io [OF s7(3)] by simp
  ultimately have pg: "paging_ok E s7 root fs" "pt_view s7 root = [[] \<mapsto> root]"
    using empty_root [of E s7 fs root] fr by auto
  have "tables (rd64 (ram s7)) root = {root}"
    using pg(2) by (auto simp: tables_view pt_view_def split: if_splits)
  then have "footprint root s7 \<subseteq> set (root # stack # fs)" by (auto simp: footprint_ok [OF pg(1)])
  then have rel: "task_rel E p f i (set (root # stack # fs)) ((rd64 (ram s))(slot f i := root)) root s7 ([[] \<mapsto> root], fs)"
    using c pg s7(2) s4(6) flagged_empty [of "rd64 (ram s7)" root task_flags] unfolding task_rel_def ram7
    by (simp add: pt_view_def ram7)
  show ?thesis
  proof (rule that [OF _ rel])
    show "init_task_space_from_mem E p off n s =
        andthen (task_map_page E p (PSE_WRITEABLE OR PSE_USER_MODE) (stack, FLUX_BASE_VIRT - 4096)) (\<lambda>_.
        andthen (printk E (''Mapping task'' @ [CHR 0x27] @ ''s executable'' @ NL) []) (\<lambda>_.
        andthen (for_each (task_map_page E p PSE_USER_MODE) (code_steps off n)) (\<lambda>_. ret None))) s7"
      by (simp only: s4(1) task_rest_def andthen_apply s5(1) s6(1) s7(1) option.case outcome.case fr(4) if_False)
    show "mapping_kept s s7"
      by (rule mapping_kept_trans [OF s4(3)], rule mapping_kept_trans [OF mapping_kept_io [OF s5(3)]],
          rule mapping_kept_trans [OF s6(4) mapping_kept_io [OF s7(3)]])
    show "console_out s7 @ ''Mapping task'' @ [CHR 0x27] @ ''s executable'' @ NL =
        console_out s @ task_text p (rd64 (ram s) (slot f i))"
      by (simp only: s7(4) s6(6) s5(4) s4(5) task_text_def append_assoc)
  qed
qed

subsection \<open>The task's address space\<close>

lemma in_code_steps: "x \<in> set (code_steps off n) \<longleftrightarrow> (\<exists>b < unat n. x = (off + 4096 * of_nat b, 4096 * of_nat b))"
  by (auto simp: code_steps_def step_range_def)

lemma code_step_facts:
  assumes n: "unat n \<le> 2 ^ 35" and b: "b < unat n"
  shows "unat (4096 * of_nat b :: u64) = 4096 * b" "canonical (4096 * of_nat b)" "page_aligned (4096 * of_nat b :: u64)"
proof -
  have lt: "4096 * b < 2 ^ 47" using n b by simp
  then show u: "unat (4096 * of_nat b :: u64) = 4096 * b"
    using unat_of_nat [of "4096 * b", where 'a = 64] by simp
  show "canonical (4096 * of_nat b)" using lt by (intro low_canonical) (simp only: u)
  show "page_aligned (4096 * of_nat b :: u64)" by (simp only: aligned_def u) simp
qed

lemma stack_page: "canonical (FLUX_BASE_VIRT - 4096)" "page_aligned (FLUX_BASE_VIRT - 4096)"
    "unat (FLUX_BASE_VIRT - 4096) = 2 ^ 64 - 2 ^ 31 - 4096"
  by (simp_all add: FLUX_BASE_VIRT_def canonical_def aligned_def)

lemma task_step_facts:
  assumes "unat n \<le> 2 ^ 35" and "x \<in> set (task_steps stack off n)"
  shows "canonical (snd x)" "page_aligned (snd x)"
proof -
  consider "x = (stack, FLUX_BASE_VIRT - 4096)" | b where "b < unat n" "x = (off + 4096 * of_nat b, 4096 * of_nat b)"
    using assms(2) by (auto simp: task_steps_def in_code_steps)
  then have "canonical (snd x) \<and> page_aligned (snd x)"
    using stack_page(1,2) code_step_facts(2,3) [OF assms(1)] by cases simp_all
  then show "canonical (snd x)" "page_aligned (snd x)" by simp_all
qed

lemma task_steps_consistent:
  assumes n: "unat n \<le> 2 ^ 35"
  shows "consistent (task_steps stack off n)"
  unfolding consistent_def
proof (intro ballI impI)
  fix x y assume x: "x \<in> set (task_steps stack off n)" and y: "y \<in> set (task_steps stack off n)"
    and p: "page_path (snd x) = page_path (snd y)"
  note fx = task_step_facts [OF n x] and fy = task_step_facts [OF n y]
  have "page_base (snd y) = snd x" by (rule same_page [OF fx(1) fy(1) fx(2)]) (simp only: p)
  moreover have "page_base (snd y) = snd y" by (rule same_page [OF fy(1) fy(1) fy(2)]) simp
  ultimately have eq: "snd x = snd y" by simp
  have low: "unat (snd z) < 2 ^ 47" "fst z = off + snd z" if z: "z \<in> set (code_steps off n)" for z
  proof -
    obtain b where b: "b < unat n" "z = (off + 4096 * of_nat b, 4096 * of_nat b)" using z by (auto simp: in_code_steps)
    show "fst z = off + snd z" using b(2) by simp
    show "unat (snd z) < 2 ^ 47" using code_step_facts(1) [OF n b(1)] b n by simp
  qed
  show "fst x = fst y"
    using x y eq low [of x] low [of y] stack_page(3) by (auto simp: task_steps_def)
qed

lemma low_not_stack:
  assumes "unat a < 2 ^ 47"
  shows "page_path a \<noteq> stack_path"
proof -
  have "\<not> bit a 47" using bit_less [OF assms, of 47] by auto
  moreover have "bit (FLUX_BASE_VIRT - 4096) 47" by (simp add: FLUX_BASE_VIRT_def)
  ultimately have "\<exists>n\<ge>12. n < 48 \<and> bit a n \<noteq> bit (FLUX_BASE_VIRT - 4096) n" by (intro exI [of _ 47]) simp
  then show ?thesis unfolding stack_path_def page_path_eq_iff by blast
qed

lemma code_pages:
  assumes n: "unat n \<le> 2 ^ 35"
  shows "\<forall>x \<in> set (code_steps off n). code_page x"
proof
  fix x assume "x \<in> set (code_steps off n)"
  then obtain b where b: "b < unat n" "snd x = 4096 * of_nat b" by (auto simp: in_code_steps)
  have "4096 * b < 2 ^ 47" using n b(1) by simp
  then have "unat (snd x) < 2 ^ 47" using unat_of_nat [of "4096 * b", where 'a = 64] b(2) by simp
  then show "code_page x" unfolding code_page_def by (rule low_not_stack)
qed

text \<open>The code after the stack is mapped.\<close>

lemma task_code_refines:
  assumes r: "task_rel E p f i A w root s b" "fst b stack_path \<noteq> None"
    and code: "\<forall>x \<in> set (code_steps off n). code_page x"
  defines "m \<equiv> andthen (printk E (''Mapping task'' @ [CHR 0x27] @ ''s executable'' @ NL) []) (\<lambda>_.
      andthen (for_each (task_map_page E p PSE_USER_MODE) (code_steps off n)) (\<lambda>_. ret None))"
  shows "case iterate step_spec (code_steps off n) b of
      Some a \<Rightarrow> \<exists>s'. m s = Some (Ret None s') \<and> task_rel E p f i A w root s' a \<and> mapping_kept s s' \<and>
        console_out s' = console_out s @ ''Mapping task'' @ [CHR 0x27] @ ''s executable'' @ NL
    | None \<Rightarrow> \<exists>s'. m s = Some (Stop Spin s') \<and> gave_up s s'"
proof -
  obtain s3 where s3: "printk E (''Mapping task'' @ [CHR 0x27] @ ''s executable'' @ NL) [] s = Some (Ret () s3)"
      "task_rel E p f i A w root s3 b" "mapping_kept s s3"
      "console_out s3 = console_out s @ ''Mapping task'' @ [CHR 0x27] @ ''s executable'' @ NL"
    using task_rel_printed [OF r(1) task_messages_render(5)] by blast
  have run: "m s = andthen (for_each (task_map_page E p PSE_USER_MODE) (code_steps off n)) (\<lambda>_. ret None) s3"
    unfolding m_def by (simp only: andthen_apply s3(1) option.case outcome.case)
  show ?thesis
  proof (cases "iterate step_spec (code_steps off n) b")
    case None
    obtain s4 where "for_each (task_map_page E p PSE_USER_MODE) (code_steps off n) s3 = Some (Stop Spin s4)" "gave_up s3 s4"
      using task_pages.loop_stuck [OF code conjI [OF s3(2) r(2)] None] by blast
    then show ?thesis using gave_up_kept [OF s3(3)] by (simp add: None run andthen_Stop)
  next
    case (Some a)
    obtain s4 where "for_each (task_map_page E p PSE_USER_MODE) (code_steps off n) s3 = Some (Ret () s4)"
        "task_rel E p f i A w root s4 a" "pmem_only s3 s4"
      using task_pages.loop_ok [OF code conjI [OF s3(2) r(2)] Some] by blast
    then show ?thesis
      using mapping_kept_trans [OF s3(3) mapping_kept_pmem] pmem_only_out [of s3 s4] s3(4)
      unfolding Some run by (auto simp: andthen_Ret ret_apply)
  qed
qed

lemma init_task_space_refines:
  assumes ok: "pmem_ok E s (root # stack # fs)" and clean: "clean_frame (ram s) root"
    and c: "cell E p f i" "f \<notin> set (root # stack # fs)" and ready: "console_ready E s"
    and code: "\<forall>x \<in> set (code_steps off n). code_page x"
  shows "case iterate step_spec (task_steps stack off n) ([[] \<mapsto> root], fs) of
      Some a \<Rightarrow> \<exists>s'. init_task_space_from_mem E p off n s = Some (Ret None s') \<and>
        task_rel E p f i (set (root # stack # fs)) ((rd64 (ram s))(slot f i := root)) root s' a \<and> mapping_kept s s' \<and>
        console_out s' = console_out s @ task_text p (rd64 (ram s) (slot f i))
    | None \<Rightarrow> \<exists>s'. init_task_space_from_mem E p off n s = Some (Stop Spin s') \<and> gave_up s s'"
proof -
  let ?stack = "(stack, FLUX_BASE_VIRT - 4096)"
  let ?A = "set (root # stack # fs)" and ?w = "(rd64 (ram s))(slot f i := root)"
  obtain s1 where s1: "init_task_space_from_mem E p off n s =
      andthen (task_map_page E p (PSE_WRITEABLE OR PSE_USER_MODE) ?stack) (\<lambda>_.
      andthen (printk E (''Mapping task'' @ [CHR 0x27] @ ''s executable'' @ NL) []) (\<lambda>_.
      andthen (for_each (task_map_page E p PSE_USER_MODE) (code_steps off n)) (\<lambda>_. ret None))) s1"
    "task_rel E p f i ?A ?w root s1 ([[] \<mapsto> root], fs)" "mapping_kept s s1"
    "console_out s1 @ ''Mapping task'' @ [CHR 0x27] @ ''s executable'' @ NL = console_out s @ task_text p (rd64 (ram s) (slot f i))"
    using task_start [OF assms(1-5)] by blast
  have step: "case step_spec ?stack ([[] \<mapsto> root], fs) of
      Some a' \<Rightarrow> \<exists>s'. task_map_page E p (PSE_WRITEABLE OR PSE_USER_MODE) ?stack s1 = Some (Ret () s') \<and>
        task_rel E p f i ?A ?w root s' a' \<and> pmem_only s1 s'
    | None \<Rightarrow> \<exists>s'. task_map_page E p (PSE_WRITEABLE OR PSE_USER_MODE) ?stack s1 = Some (Stop Spin s') \<and> gave_up s1 s'"
    by (rule task_map_page_step [OF s1(2) kernel_flags]) (simp add: task_flags_def stack_path_def)
  show ?thesis
  proof (cases "step_spec ?stack ([[] \<mapsto> root], fs)")
    case None
    obtain s2 where "task_map_page E p (PSE_WRITEABLE OR PSE_USER_MODE) ?stack s1 = Some (Stop Spin s2)" "gave_up s1 s2"
      using step by (auto simp: None)
    then show ?thesis
      using gave_up_kept [OF s1(3)] by (simp add: task_steps_def None s1(1) andthen_Stop)
  next
    case (Some b)
    obtain s2 where s2: "task_map_page E p (PSE_WRITEABLE OR PSE_USER_MODE) ?stack s1 = Some (Ret () s2)"
        "task_rel E p f i ?A ?w root s2 b" "pmem_only s1 s2"
      using step by (auto simp: Some)
    have run: "init_task_space_from_mem E p off n s = andthen (printk E (''Mapping task'' @ [CHR 0x27] @ ''s executable'' @ NL) [])
        (\<lambda>_. andthen (for_each (task_map_page E p PSE_USER_MODE) (code_steps off n)) (\<lambda>_. ret None)) s2"
      unfolding s1(1) by (simp only: andthen_apply s2(1) option.case outcome.case)
    have kept: "mapping_kept s s2" using mapping_kept_trans [OF s1(3) mapping_kept_pmem [OF s2(3)]] .
    have out: "console_out s2 @ ''Mapping task'' @ [CHR 0x27] @ ''s executable'' @ NL =
        console_out s @ task_text p (rd64 (ram s) (slot f i))"
      using s1(4) pmem_only_out [OF s2(3)] by simp
    have st: "fst b stack_path \<noteq> None"
      using map_spec_view(1) [of stack_path "[[] \<mapsto> root]" fs "PSE_PTR stack" "fst b" "snd b"] Some
      by (simp add: step_spec_def stack_path_def)
    have spec: "iterate step_spec (task_steps stack off n) ([[] \<mapsto> root], fs) = iterate step_spec (code_steps off n) b"
      by (simp add: task_steps_def Some)
    show ?thesis
      using task_code_refines [OF s2(2) st code] mapping_kept_trans [OF kept] gave_up_kept [OF kept]
      unfolding spec run out [symmetric] by (fastforce split: option.splits)
  qed
qed

text \<open>The tables below the root that a task of \<open>n\<close> pages needs.\<close>

definition task_tables :: "u64 \<Rightarrow> nat" where
  "task_tables n = tables_of (task_steps 0 0 n)"

lemma task_tables_steps: "tables_of (task_steps stack off n) = task_tables n"
proof -
  have "snd ` set (task_steps stack off n) = snd ` set (task_steps 0 0 n)"
    by (force simp: task_steps_def in_code_steps)
  then have "(\<exists>x \<in> set (task_steps stack off n). P (snd x)) = (\<exists>x \<in> set (task_steps 0 0 n). P (snd x))" for P
    by (metis (mono_tags, lifting) imageE imageI)
  from this [of "\<lambda>v. p \<in> set (levels (page_path v))" for p] show ?thesis
    by (simp add: task_tables_def tables_of_def)
qed

lemma task_tables_le: "task_tables n \<le> 3 * (unat n + 1)"
  using tables_of_le [of "task_steps 0 0 n"] by (simp add: task_tables_def task_steps_def code_steps_def step_range_def)

text \<open>What is mapped where and nothing else, and what the task may do: write to its stack, read
  its code but not write to it.\<close>

definition task_space :: "u64 \<Rightarrow> u64 \<Rightarrow> u64 \<Rightarrow> ram \<Rightarrow> u64 \<Rightarrow> bool" where
  "task_space stack off n m root \<longleftrightarrow>
     (\<forall>k. unat k < 4096 \<longrightarrow> translate m root (FLUX_BASE_VIRT - 4096 + k) = Some (stack + k)) \<and>
     (\<forall>a. unat a < 4096 * unat n \<longrightarrow> translate m root a = Some (PSE_PTR (off + page_base a) + EXTRACT_OFFSET a)) \<and>
     (\<forall>va. translate m root va \<noteq> None \<longrightarrow>
        unat va < 4096 * unat n \<or> (\<exists>k. unat k < 4096 \<and> va = FLUX_BASE_VIRT - 4096 + k)) \<and>
     (\<forall>k. unat k < 4096 \<longrightarrow> user_writes m root (FLUX_BASE_VIRT - 4096 + k)) \<and>
     (\<forall>a. unat a < 4096 * unat n \<longrightarrow> user_reads m root a \<and> \<not> user_writes m root a)"

lemma task_flags_bits: "bit (task_flags p) 2" "bit (task_flags p) 1 \<longleftrightarrow> prefix p stack_path"
  by (simp_all add: task_flags_def PSE_WRITEABLE_def PSE_USER_MODE_def bit_or_iff bit_push_bit_iff)

lemma prefix_page_path: "prefix (page_path a) (page_path b) \<longleftrightarrow> page_path a = page_path b"
  by (simp add: page_path_def)

lemma task_rights:
  assumes sm: "small (rd64 m) root" and f: "flagged task_flags root (rd64 m)" and root: "frame_addr root" and t: "translate m root va \<noteq> None"
  shows "user_reads m root va" "user_writes m root va \<longleftrightarrow> page_path va = stack_path"
proof -
  note access = user_access_flagged [OF sm f root t]
  show "user_reads m root va" using access(1) task_flags_bits(1) by blast
  have "page_path va \<noteq> []" by (simp add: page_path_def)
  then have "user_writes m root va \<longleftrightarrow> prefix (page_path va) stack_path"
    unfolding access(2) using prefix_order.trans task_flags_bits by blast
  then show "user_writes m root va \<longleftrightarrow> page_path va = stack_path" by (simp add: stack_path_def prefix_page_path)
qed

lemma low_page_base:
  assumes "unat a < 4096 * unat n"
  shows "\<exists>b < unat n. page_base a = 4096 * of_nat b"
proof (intro exI conjI)
  have le: "unat (page_base a) \<le> unat a" by (rule page_base_le)
  have "page_aligned (page_base a)" by simp
  then have m: "unat (page_base a) = 4096 * (unat (page_base a) div 4096)" by (auto simp: aligned_def)
  show "unat (page_base a) div 4096 < unat n" using le assms m by linarith
  have "page_base a = of_nat (unat (page_base a))" by simp
  also have "\<dots> = 4096 * of_nat (unat (page_base a) div 4096)" by (subst m) (simp only: of_nat_mult of_nat_numeral)
  finally show "page_base a = 4096 * of_nat (unat (page_base a) div 4096)" .
qed

text \<open>Nothing is mapped but the code and the stack.\<close>

lemma describes_task_only:
  assumes n: "unat n \<le> 2 ^ 35" and d: "describes E s root fs (task_steps stack off n)"
    and t: "translate (ram s) root va \<noteq> None"
  shows "unat va < 4096 * unat n \<or> (\<exists>k. unat k < 4096 \<and> va = FLUX_BASE_VIRT - 4096 + k)"
proof -
  have c: "canonical va" using translate_canonical [OF t] .
  then obtain x where x: "x \<in> set (task_steps stack off n)" "page_path (snd x) = page_path va"
    using d t step_map_out [of "task_steps stack off n" "page_path va"] by (auto simp: describes_def)
  note fx = task_step_facts [OF n x(1)]
  have "page_base va = snd x" by (rule same_page [OF fx(1) c fx(2) x(2) [symmetric]])
  then have va: "va = snd x + EXTRACT_OFFSET va" using page_base_offset [of va] by simp
  consider "x = (stack, FLUX_BASE_VIRT - 4096)" | b where "b < unat n" "x = (off + 4096 * of_nat b, 4096 * of_nat b)"
    using x(1) by (auto simp: task_steps_def in_code_steps)
  then show ?thesis
  proof cases
    case 1
    then show ?thesis using va EXTRACT_OFFSET_less [of va] by auto
  next
    case (2 b)
    have s: "unat (snd x) = 4096 * b" using code_step_facts(1) [OF n 2(1)] 2(2) by simp
    have "4096 * Suc b \<le> 4096 * unat n" using 2(1) by (intro mult_le_mono2) simp
    moreover have "unat (snd x + EXTRACT_OFFSET va) \<le> unat (snd x) + unat (EXTRACT_OFFSET va)"
      by (simp only: unat_word_ariths(1) mod_less_eq_dividend)
    moreover have "unat va = unat (snd x + EXTRACT_OFFSET va)" using va by (rule arg_cong)
    ultimately show ?thesis using s EXTRACT_OFFSET_less [of va] by simp
  qed
qed

lemma describes_task_space:
  assumes n: "unat n \<le> 2 ^ 35" and st: "frame_addr stack"
    and d: "describes E s root fs (task_steps stack off n)" and fl: "flagged task_flags root (rd64 (ram s))"
  shows "task_space stack off n (ram s) root"
  unfolding task_space_def
proof (intro conjI allI impI)
  have at: "translate (ram s) root (snd x + k) = Some (PSE_PTR (fst x) + k)"
    if "x \<in> set (task_steps stack off n)" "unat k < 4096" for x k
    using describes_at [OF d task_steps_consistent [OF n] that(1) _ _ that(2)]
      task_step_facts [OF n that(1)] by simp
  have root: "frame_addr root" and sm: "small (rd64 (ram s)) root"
    using d paging_ok_root frame_ok_addr paging_ok_small unfolding describes_def by blast+
  note rights = task_rights [OF sm fl root]
  show stk: "translate (ram s) root (FLUX_BASE_VIRT - 4096 + k) = Some (stack + k)" if "unat k < 4096" for k
    using at [of "(stack, FLUX_BASE_VIRT - 4096)", OF _ that] by (simp add: task_steps_def PSE_PTR_frame [OF st])
  show "user_writes (ram s) root (FLUX_BASE_VIRT - 4096 + k)" if "unat k < 4096" for k
    using rights(2) [of "FLUX_BASE_VIRT - 4096 + k"] stk [OF that] page_plus [OF stack_page(2) that]
    by (simp add: stack_path_def)
  show code: "translate (ram s) root a = Some (PSE_PTR (off + page_base a) + EXTRACT_OFFSET a)" if a: "unat a < 4096 * unat n" for a
  proof -
    have "(off + page_base a, page_base a) \<in> set (task_steps stack off n)"
      using low_page_base [OF a] by (auto simp: task_steps_def in_code_steps)
    from at [OF this EXTRACT_OFFSET_less [of a]] show ?thesis by (simp add: page_base_offset)
  qed
  show "user_reads (ram s) root a" "\<not> user_writes (ram s) root a" if a: "unat a < 4096 * unat n" for a
    using rights [of a] code [OF a] low_not_stack [of a] a n by simp_all
  show "unat va < 4096 * unat n \<or> (\<exists>k. unat k < 4096 \<and> va = FLUX_BASE_VIRT - 4096 + k)"
    if "translate (ram s) root va \<noteq> None" for va
    using describes_task_only [OF n d that] .
qed

text \<open>Where the offset is page aligned and the memory lies below the limit of an entry, the code
  is mapped where it is.\<close>

lemma task_page_exact:
  assumes "page_aligned off" "unat off + 4096 * unat n \<le> 2 ^ 52" "unat a < 4096 * unat n"
  shows "PSE_PTR (off + page_base a) + EXTRACT_OFFSET a = off + a"
proof -
  have "unat off + unat (page_base a) < 2 ^ 52" using page_base_le [of a] assms(2,3) by simp
  then have "frame_addr (off + page_base a)"
    using unat_plus_exact [of off "page_base a"] assms(1) by (simp add: frame_addr_def aligned_add)
  then show ?thesis by (simp add: PSE_PTR_frame add.assoc page_base_offset)
qed

lemma init_task_space_run:
  assumes ok: "pmem_ok E s (root # stack # fs)" and clean: "clean_frame (ram s) root"
    and c: "cell E p f i" "f \<notin> set (root # stack # fs)" and ready: "console_ready E s"
    and n: "unat n \<le> 2 ^ 35"
  shows "if task_tables n \<le> length fs
    then \<exists>s'. init_task_space_from_mem E p off n s = Some (Ret None s') \<and> rd64 (ram s') (slot f i) = root \<and>
      paging_ok E s' root (drop (task_tables n) fs) \<and> task_space stack off n (ram s') root \<and> mapping_kept s s' \<and>
      console_ready E s' \<and> console_out s' = console_out s @ task_text p (rd64 (ram s) (slot f i)) \<and> (\<forall>g j. page_aligned g \<and>
        (g \<notin> set (root # stack # fs) \<or> g \<in> set (drop (task_tables n) fs)) \<and> j < 512 \<longrightarrow>
        rd64 (ram s') (slot g j) = ((rd64 (ram s))(slot f i := root)) (slot g j))
    else \<exists>s'. init_task_space_from_mem E p off n s = Some (Stop Spin s') \<and> gave_up s s'"
proof -
  note run = init_task_space_refines [OF ok clean c ready code_pages [OF n], of off]
  note it = iterate_step_spec [of "[[] \<mapsto> root]" "task_steps stack off n" fs, unfolded tables_of_missing task_tables_steps]
  have st: "frame_addr stack" using ok by (simp add: pmem_ok_def frame_ok_addr)
  show ?thesis
  proof (cases "task_tables n \<le> length fs")
    case False
    then show ?thesis using run it by simp
  next
    case True
    then obtain a where a: "iterate step_spec (task_steps stack off n) ([[] \<mapsto> root], fs) = Some a" using it by auto
    obtain s' where s': "init_task_space_from_mem E p off n s = Some (Ret None s')"
        "task_rel E p f i (set (root # stack # fs)) ((rd64 (ram s))(slot f i := root)) root s' a" "mapping_kept s s'"
        "console_out s' = console_out s @ task_text p (rd64 (ram s) (slot f i))"
      using run unfolding a by auto
    have "describes E s' root (drop (task_tables n) fs) (task_steps stack off n)"
      using iterate_describes [OF _ _ a, of E s', unfolded tables_of_missing task_tables_steps] s'(2)
      by (simp add: task_rel_def)
    then have space: "task_space stack off n (ram s') root" and pg: "paging_ok E s' root (drop (task_tables n) fs)"
      using describes_task_space [OF n st, where off = off] s'(2) unfolding task_rel_def describes_def by auto
    have "g \<notin> tables (rd64 (ram s')) root"
      if "g \<notin> set (root # stack # fs) \<or> g \<in> set (drop (task_tables n) fs)" for g
      using that pg s'(2) unfolding task_rel_def paging_ok_def footprint_def by blast
    then have "rd64 (ram s') (slot g j) = ((rd64 (ram s))(slot f i := root)) (slot g j)"
      if "page_aligned g" "g \<notin> set (root # stack # fs) \<or> g \<in> set (drop (task_tables n) fs)" "j < 512" for g j
      using s'(2) that unfolding task_rel_def by blast
    moreover have "console_ready E s'" using s'(2) by (simp add: task_rel_def)
    ultimately show ?thesis
      using True s'(1,3,4) space pg task_rel_cell [OF s'(2)] by auto
  qed
qed

text \<open>With fewer than two frames, the allocator gives up at the first or the second request.\<close>

lemma init_task_space_starved:
  fixes s :: "'z paging_state_scheme"
  assumes ok: "pmem_ok E s fs" "length fs < 2" and c: "cell E p f i" "f \<notin> set fs" and ready: "console_ready E s"
  shows "\<exists>s'. init_task_space_from_mem E p off n s = Some (Stop Spin s') \<and> gave_up s s'"
proof (cases fs)
  case Nil
  have "aspace s = None" using ok by (simp add: pmem_ok_def)
  note l0 = cell_load [OF c(1) this]
  obtain s1 where s1: "printk E (''pml4 = %p; *pml4 = %p'' @ NL) [VInt p, VInt (rd64 (ram s) (slot f i))] s =
      Some (Ret () s1)" "console_ready E s1" "only_io s s1"
    using printk_ready [OF ready task_messages_render(1)] by blast
  obtain s2 where s2: "printk E (''Getting block for pml4'' @ NL) [] s1 = Some (Ret () s2)" "console_ready E s2" "only_io s1 s2"
    using printk_ready [OF s1(2) task_messages_render(2)] by blast
  have "pmem_ok E s2 []" using ok(1) pmem_ok_io [OF s1(3)] pmem_ok_io [OF s2(3)] by (simp add: Nil)
  then obtain s3 where s3: "get_phys_block E s2 = Some (Stop Spin s3)" "gave_up s2 s3"
    using out_of_frames_gave_up s2(2) by blast
  have "init_task_space_from_mem E p off n s = Some (Stop Spin s3)"
    by (simp only: init_task_space_from_mem_def andthen_apply l0 s1(1) s2(1) s3(1) option.case outcome.case)
  then show ?thesis
    using gave_up_kept [OF mapping_kept_trans [OF mapping_kept_io [OF s1(3)] mapping_kept_io [OF s2(3)]] s3(2)] by blast
next
  case (Cons root gs)
  then have fs: "fs = [root]" using ok(2) by simp
  obtain s4 where s4: "init_task_space_from_mem E p off n s = task_rest E p off n s4" "pmem_ok E s4 []"
      "mapping_kept s s4" "console_ready E s4"
    using task_root_taken [OF ok(1) [unfolded fs] c(1) c(2) [unfolded fs] ready] by metis
  obtain s5 where s5: "printk E (''Getting block for stack'' @ NL) [] s4 = Some (Ret () s5)" "console_ready E s5" "only_io s4 s5"
    using printk_ready [OF s4(4) task_messages_render(3)] by blast
  have "pmem_ok E s5 []" using s4(2) pmem_ok_io [OF s5(3)] by simp
  then obtain s6 where s6: "get_phys_block E s5 = Some (Stop Spin s6)" "gave_up s5 s6"
    using out_of_frames_gave_up s5(2) by blast
  have "init_task_space_from_mem E p off n s = Some (Stop Spin s6)"
    by (simp only: s4(1) task_rest_def andthen_apply s5(1) s6(1) option.case outcome.case)
  then show ?thesis using gave_up_kept [OF mapping_kept_trans [OF s4(3) mapping_kept_io [OF s5(3)]] s6(2)] by blast
qed

section \<open>Properties\<close>

text \<open>The function \<open>print_regs\<close> prints one line for each of the 22 registers, the general ones in the
  pointer format and the three segment selectors in plain hexadecimal, and changes nothing
  but the trace.\<close>

theorem print_regs_prints:
  assumes "console_ready E s"
  shows "\<exists>s'. print_regs E r s = Some (Ret () s') \<and> console_out s' = console_out s @ regs_text r \<and> only_io s s'"
proof -
  have "print_regs E r s = for_each (KPUTC E) (regs_text r) s"
    unfolding print_regs_def
    by (subst printk_render [where t = "regs_text r"])
      (simp_all add: NL_def TAB_def regs_text_def reg_line_def)
  then show ?thesis using console.puts [OF assms, of "regs_text r"] by auto
qed

text \<open>C5: the address space of a new task. With two free frames for the top-level table, which
  must be clean, and the stack, and one for every table: \<open>init_task_space_from_mem\<close> stores the
  root where the caller's pointer says; in the new space the page below the kernel is the
  stack frame, the first \<open>n\<close> pages are the memory at the given offset, nothing else is
  mapped; the tables are well formed and took exactly their number of frames. Any offset is
  accepted: what does not fit the address field of an entry is cut off. It prints exactly
  \<open>task_text\<close> and returns without a value.\<close>

theorem init_task_space_layout:
  fixes s :: "'z paging_state_scheme"
  assumes "pmem_ok E s (root # stack # fs)" "clean_frame (ram s) root"
    and "cell E p f i" "f \<notin> set (root # stack # fs)" and "console_ready E s"
    and "unat n \<le> 2 ^ 35" "task_tables n \<le> length fs"
  shows "\<exists>s'. init_task_space_from_mem E p off n s = Some (Ret None s') \<and> rd64 (ram s') (slot f i) = root \<and>
    paging_ok E s' root (drop (task_tables n) fs) \<and>
    console_out s' = console_out s @ task_text p (rd64 (ram s) (slot f i)) \<and>
    (\<forall>k. unat k < 4096 \<longrightarrow> translate (ram s') root (FLUX_BASE_VIRT - 4096 + k) = Some (stack + k)) \<and>
    (\<forall>a. unat a < 4096 * unat n \<longrightarrow> translate (ram s') root a = Some (PSE_PTR (off + page_base a) + EXTRACT_OFFSET a)) \<and>
    (page_aligned off \<and> unat off + 4096 * unat n \<le> 2 ^ 52 \<longrightarrow>
       (\<forall>a. unat a < 4096 * unat n \<longrightarrow> translate (ram s') root a = Some (off + a))) \<and>
    (\<forall>va. translate (ram s') root va \<noteq> None \<longrightarrow>
       unat va < 4096 * unat n \<or> (\<exists>k. unat k < 4096 \<and> va = FLUX_BASE_VIRT - 4096 + k))"
proof -
  obtain s' where "init_task_space_from_mem E p off n s = Some (Ret None s')" "rd64 (ram s') (slot f i) = root"
      "paging_ok E s' root (drop (task_tables n) fs)" "task_space stack off n (ram s') root"
      "console_out s' = console_out s @ task_text p (rd64 (ram s) (slot f i))"
    using init_task_space_run [OF assms(1-6), of off] assms(7) by auto
  then show ?thesis unfolding task_space_def using task_page_exact [of off n] by (intro exI [of _ s']) simp
qed

text \<open>C17: what a task may do in its address space. User mode can write to the stack page, can read
  the pages of the code but not write to them, and can access nothing else.\<close>

theorem init_task_space_rights:
  fixes s :: "'z paging_state_scheme"
  assumes "pmem_ok E s (root # stack # fs)" "clean_frame (ram s) root"
    and "cell E p f i" "f \<notin> set (root # stack # fs)" and "console_ready E s"
    and "unat n \<le> 2 ^ 35" "task_tables n \<le> length fs"
  shows "\<exists>s'. init_task_space_from_mem E p off n s = Some (Ret None s') \<and>
    (\<forall>va. user_writes (ram s') root va \<longleftrightarrow> (\<exists>k. unat k < 4096 \<and> va = FLUX_BASE_VIRT - 4096 + k)) \<and>
    (\<forall>va. user_reads (ram s') root va \<longleftrightarrow>
       unat va < 4096 * unat n \<or> (\<exists>k. unat k < 4096 \<and> va = FLUX_BASE_VIRT - 4096 + k))"
proof -
  obtain s' where s': "init_task_space_from_mem E p off n s = Some (Ret None s')" "task_space stack off n (ram s') root"
    using init_task_space_run [OF assms(1-6), of off] assms(7) by auto
  have m: "translate (ram s') root va \<noteq> None" if "user_reads (ram s') root va" for va
    using that by (simp add: user_reads_def)
  have w: "user_reads (ram s') root va" if "user_writes (ram s') root va" for va
    using that by (simp add: user_writes_def)
  show ?thesis using s' m w unfolding task_space_def by (intro exI [of _ s']) blast
qed

text \<open>C36: without enough frames \<open>init_task_space_from_mem\<close> does not come back with its error
  code -1: it hangs in the allocator, whose failed assertion is the last thing printed.\<close>

theorem init_task_space_exhausts:
  fixes s :: "'z paging_state_scheme"
  assumes "pmem_ok E s fs" "fs \<noteq> [] \<Longrightarrow> clean_frame (ram s) (hd fs)"
    and "cell E p f i" "f \<notin> set fs" and "console_ready E s"
    and "unat n \<le> 2 ^ 35" and "length fs < task_tables n + 2"
  shows "\<exists>s' t. init_task_space_from_mem E p off n s = Some (Stop Spin s') \<and>
    console_out s' = console_out s @ t @ trace_text (''arch/x64/mem.c'', 136, ''get_phys_block'')
      (PBAD ''Assertion (ret != NULL) failed'')"
proof -
  have "\<exists>s'. init_task_space_from_mem E p off n s = Some (Stop Spin s') \<and> gave_up s s'"
  proof (cases "length fs < 2")
    case True
    then show ?thesis using init_task_space_starved [OF assms(1) _ assms(3-5)] by simp
  next
    case False
    then obtain root stack gs where fs: "fs = root # stack # gs" by (cases fs; cases "tl fs") auto
    then show ?thesis
      using init_task_space_run [OF assms(1) [unfolded fs] _ assms(3) assms(4) [unfolded fs] assms(5,6), of off] assms(2,7) by auto
  qed
  then show ?thesis by (auto simp: gave_up_def out_of_frames_def)
qed

text \<open>C37: the default registers. Those for user tasks name the user code and data segments; but
  those for the kernel name, with privilege level 0 requested, the user segments as well,
  not the kernel's.\<close>

theorem default_segments:
  "(\<exists>c d. selected (kernel_gdtr E) (cs default_regs_userspace) = Some c \<and> code_segment 3 c \<and>
      selected (kernel_gdtr E) (ds default_regs_userspace) = Some d \<and> data_segment 3 d \<and>
      ss default_regs_userspace = ds default_regs_userspace) \<and>
   (\<exists>c d. selected (kernel_gdtr E) (cs default_regs_kernel) = Some c \<and> code_segment 3 c \<and> \<not> code_segment 0 c \<and>
      selected (kernel_gdtr E) (ds default_regs_kernel) = Some d \<and> data_segment 3 d \<and> \<not> data_segment 0 d \<and>
      SEGMENT_SELECTOR_RPL (cs default_regs_kernel) = 0)"
proof -
  have "selected (kernel_gdtr E) (INIT_SEGMENT_SELECTOR 0 0 3) = Some (gdt_table ! 3)"
    "selected (kernel_gdtr E) (INIT_SEGMENT_SELECTOR 0 0 4) = Some (gdt_table ! 4)"
    by (simp_all add: selected_def kernel_gdtr_def SEGMENT_SELECTOR_INDEX_def SEGMENT_SELECTOR_TABLE_INDEX_def
        INIT_SEGMENT_SELECTOR_def gdt_table_segments(1))
  moreover have "\<not> code_segment 0 (gdt_table ! 3)" "\<not> data_segment 0 (gdt_table ! 4)"
    using gdt_table_segments(4,5) by (auto simp: code_segment_def data_segment_def)
  ultimately show ?thesis
    using selected_simps(3,4) gdt_table_segments(4,5)
    by (simp add: default_regs_userspace_def default_regs_kernel_def selector_rpl)
qed

subsection \<open>Witnesses\<close>

lemma big_frames: "\<exists>root stack fs. rev (usable_frames big_memmap) = root # stack # fs \<and> length fs = 0x3ffffe"
proof -
  have l: "length (rev (usable_frames big_memmap)) = Suc (Suc 0x3ffffe)" using big_length by simp
  then show ?thesis by (simp only: length_Suc_conv) blast
qed

lemma big_cell: "cell big_env 0x5008 0x5000 1"
  by (simp add: cell_def big_env_def idle_env_def slot_def aligned_def)

theorem print_regs_prints_witness:
  "\<exists>s'. print_regs idle_env default_regs_userspace idle_console = Some (Ret () s') \<and>
     console_out s' = regs_text default_regs_userspace"
  using print_regs_prints [OF idle_console_ready, of default_regs_userspace]
  by (auto simp: idle_console_def console_out_def)

lemma one_page: "unat (1 :: u64) \<le> 2 ^ 35" "page_aligned (0x300000 :: u64)"
    "unat (0x300000 :: u64) + 4096 * unat (1 :: u64) \<le> 2 ^ 52"
  by (simp_all add: aligned_def)

lemma big_task_start:
  obtains root stack fs where "pmem_ok big_env big_started (root # stack # fs)" "clean_frame (ram big_started) root"
    "0x5000 \<notin> set (root # stack # fs)" "task_tables 1 \<le> length fs"
proof -
  obtain root stack fs where f: "rev (usable_frames big_memmap) = root # stack # fs" "length fs = 0x3ffffe"
    using big_frames by blast
  have ok: "pmem_ok big_env big_started (root # stack # fs)" using big_started_facts(1) by (simp only: f(1))
  then have "page_aligned root" by (simp add: pmem_ok_def)
  moreover have "0x5000 \<notin> set (root # stack # fs)" using big_started_facts(4) [of "0x5000"] by (auto simp flip: f(1))
  moreover have "task_tables 1 \<le> length fs" using task_tables_le [of 1] f(2) by simp
  ultimately show ?thesis using that [OF ok] big_started_facts(3) by blast
qed

theorem init_task_space_layout_witness:
  "\<exists>s' root. init_task_space_from_mem big_env 0x5008 0x300000 1 big_started = Some (Ret None s') \<and>
     translate (ram s') root 0x123 = Some 0x300123"
proof -
  obtain root stack fs where f: "pmem_ok big_env big_started (root # stack # fs)" "clean_frame (ram big_started) root"
      "0x5000 \<notin> set (root # stack # fs)" "task_tables 1 \<le> length fs"
    using big_task_start by blast
  obtain s' where s': "init_task_space_from_mem big_env 0x5008 0x300000 1 big_started = Some (Ret None s')"
      "\<forall>a. unat a < 4096 * unat (1 :: u64) \<longrightarrow> translate (ram s') root a = Some (0x300000 + a)"
    using init_task_space_layout [OF f(1,2) big_cell f(3) big_started_facts(2) one_page(1) f(4), of "0x300000"] one_page(2,3)
    by blast
  have "translate (ram s') root 0x123 = Some 0x300123" using s'(2) [rule_format, of "0x123"] by simp
  with s'(1) show ?thesis by blast
qed

theorem init_task_space_rights_witness:
  "\<exists>s' root. init_task_space_from_mem big_env 0x5008 0x300000 1 big_started = Some (Ret None s') \<and>
     user_reads (ram s') root 0x123 \<and> \<not> user_writes (ram s') root 0x123"
proof -
  obtain root stack fs where f: "pmem_ok big_env big_started (root # stack # fs)" "clean_frame (ram big_started) root"
      "0x5000 \<notin> set (root # stack # fs)" "task_tables 1 \<le> length fs"
    using big_task_start by blast
  obtain s' where s': "init_task_space_from_mem big_env 0x5008 0x300000 1 big_started = Some (Ret None s')"
      "\<forall>va. user_writes (ram s') root va \<longleftrightarrow> (\<exists>k. unat k < 4096 \<and> va = FLUX_BASE_VIRT - 4096 + k)"
      "\<forall>va. user_reads (ram s') root va \<longleftrightarrow>
        unat va < 4096 * unat (1 :: u64) \<or> (\<exists>k. unat k < 4096 \<and> va = FLUX_BASE_VIRT - 4096 + k)"
    using init_task_space_rights [OF f(1,2) big_cell f(3) big_started_facts(2) one_page(1) f(4), of "0x300000"]
    by blast
  have "(0x123 :: u64) \<noteq> FLUX_BASE_VIRT - 4096 + k" if "unat k < 4096" for k
  proof
    assume "0x123 = FLUX_BASE_VIRT - 4096 + k"
    then have "k = 0x123 - (FLUX_BASE_VIRT - 4096)" by (simp add: algebra_simps)
    then show False using that by (simp add: FLUX_BASE_VIRT_def)
  qed
  then have "user_reads (ram s') root 0x123" "\<not> user_writes (ram s') root 0x123"
    unfolding s'(2) [rule_format] s'(3) [rule_format] by auto
  with s'(1) show ?thesis by blast
qed

theorem init_task_space_exhausts_witness:
  "\<exists>s'. init_task_space_from_mem big_env 0x5008 0x300000 1 cold_state = Some (Stop Spin s')"
proof -
  have ok: "pmem_ok big_env cold_state []" by (simp add: pmem_ok_def cold_state_def)
  have "cell big_env 0x5008 0x5000 1" "0x5000 \<notin> set ([] :: u64 list)" using big_cell by simp_all
  then show ?thesis
    using init_task_space_exhausts [OF ok, of "0x5008" "0x5000" 1 1 "0x300000"] cold_facts(3) by (auto simp: aligned_def)
qed

end
