(* ===== verification/Interrupts.thy ===== *)
theory Interrupts
  imports Gdt
begin

section \<open>Interrupts (\<open>arch/x64/idt.c\<close>, \<open>exceptions.c\<close>, \<open>syscall.c\<close>)\<close>

text \<open>
  The interrupt table, its loading, and the service routines. What the
  processor does with a vector is the theory \<open>Delivery\<close>.
\<close>

record idt_state = gdt_state +
  idt_table :: "idt_entry list"
  idtr :: "idt_descriptor option"

text \<open>\<open>int n_entries\<close> is sign-extended when the macro multiplies it with a \<open>size_t\<close>.\<close>

definition idt_load :: "u64 \<Rightarrow> u32 \<Rightarrow> (unit, 'z idt_state_scheme) kmon" where
  "idt_load table n_entries = modify (\<lambda>s. s\<lparr>idtr := Some (INIT_IDT_DESCRIPTOR table (scast n_entries))\<rparr>)"

text \<open>A vector outside the array is undefined; a negative \<open>int\<close> is a large word.\<close>

definition idt_attach_handler ::
    "u32 \<Rightarrow> segment_selector_t \<Rightarrow> idt_attributes_t \<Rightarrow> u64 \<Rightarrow> (unit, 'z idt_state_scheme) kmon" where
  "idt_attach_handler vector seg attr handler =
     (if unat vector < IDT_N_ENTRIES
      then modify (\<lambda>s. s\<lparr>idt_table := (idt_table s)[unat vector := INIT_IDT_ENTRY seg attr handler]\<rparr>)
      else stop Undefined)"

definition idt_init :: "env \<Rightarrow> (unit, 'z idt_state_scheme) kmon" where
  "idt_init E =
     andthen (idt_load (idt_table_address E) (of_nat IDT_N_ENTRIES)) (\<lambda>_.
     let isr_seg = INIT_SEGMENT_SELECTOR 0 0 1;
         interrupt = INIT_IDT_ATTRIBUTES 0 IDT_ATTRIBUTES_TYPE_INTERRUPT 0;
         trap = INIT_IDT_ATTRIBUTES 0 IDT_ATTRIBUTES_TYPE_TRAP 0 in
     andthen (idt_attach_handler 0x02 isr_seg interrupt (isr_address E isr_NMI)) (\<lambda>_.
     andthen (idt_attach_handler 0x32 isr_seg interrupt (isr_address E isr_SYSCALL)) (\<lambda>_.
     andthen (idt_attach_handler 0x00 isr_seg trap (isr_address E isr_DE)) (\<lambda>_.
     andthen (idt_attach_handler 0x03 isr_seg trap (isr_address E isr_BP)) (\<lambda>_.
     andthen (idt_attach_handler 0x04 isr_seg trap (isr_address E isr_OF)) (\<lambda>_.
     andthen (idt_attach_handler 0x05 isr_seg trap (isr_address E isr_BR)) (\<lambda>_.
     andthen (idt_attach_handler 0x06 isr_seg trap (isr_address E isr_UD)) (\<lambda>_.
     andthen (idt_attach_handler 0x08 isr_seg trap (isr_address E isr_DF)) (\<lambda>_.
     andthen (idt_attach_handler 0x0a isr_seg trap (isr_address E isr_TS)) (\<lambda>_.
     andthen (idt_attach_handler 0x0b isr_seg trap (isr_address E isr_NP)) (\<lambda>_.
     andthen (idt_attach_handler 0x0c isr_seg trap (isr_address E isr_SS)) (\<lambda>_.
     andthen (idt_attach_handler 0x0d isr_seg trap (isr_address E isr_GP)) (\<lambda>_.
     idt_attach_handler 0x0e isr_seg trap (isr_address E isr_PF))))))))))))))"

subsection \<open>The service routines\<close>

text \<open>The \<open>xchg %bx,%bx\<close> in \<open>isr_GP\<close> is a breakpoint of an emulator and changes nothing.\<close>

definition handle_DE :: "env \<Rightarrow> isr_frame \<Rightarrow> (unit, 'z serial_state_scheme) kmon" where
  "handle_DE E frame = ERROR E (''arch/x64/exceptions.c'', 8, ''isr_DE'') ''DE''"

definition handle_NMI :: "env \<Rightarrow> isr_frame \<Rightarrow> (unit, 'z serial_state_scheme) kmon" where
  "handle_NMI E frame = ERROR E (''arch/x64/exceptions.c'', 12, ''isr_NMI'') ''NMI''"

definition handle_BP :: "env \<Rightarrow> isr_frame \<Rightarrow> (unit, 'z serial_state_scheme) kmon" where
  "handle_BP E frame = ERROR E (''arch/x64/exceptions.c'', 16, ''isr_BP'') ''BP''"

definition handle_OF :: "env \<Rightarrow> isr_frame \<Rightarrow> (unit, 'z serial_state_scheme) kmon" where
  "handle_OF E frame = ERROR E (''arch/x64/exceptions.c'', 20, ''isr_OF'') ''OF''"

definition handle_BR :: "env \<Rightarrow> isr_frame \<Rightarrow> (unit, 'z serial_state_scheme) kmon" where
  "handle_BR E frame = ERROR E (''arch/x64/exceptions.c'', 24, ''isr_BR'') ''BR''"

definition handle_UD :: "env \<Rightarrow> isr_frame \<Rightarrow> (unit, 'z serial_state_scheme) kmon" where
  "handle_UD E frame = ERROR E (''arch/x64/exceptions.c'', 28, ''isr_UD'') ''UD''"

definition handle_DF :: "env \<Rightarrow> isr_frame \<Rightarrow> u64 \<Rightarrow> (unit, 'z serial_state_scheme) kmon" where
  "handle_DF E frame error_code = ERROR E (''arch/x64/exceptions.c'', 32, ''isr_DF'') ''DF''"

definition handle_TS :: "env \<Rightarrow> isr_frame \<Rightarrow> u64 \<Rightarrow> (unit, 'z serial_state_scheme) kmon" where
  "handle_TS E frame error_code = ERROR E (''arch/x64/exceptions.c'', 36, ''isr_TS'') ''TS''"

definition handle_NP :: "env \<Rightarrow> isr_frame \<Rightarrow> u64 \<Rightarrow> (unit, 'z serial_state_scheme) kmon" where
  "handle_NP E frame error_code = ERROR E (''arch/x64/exceptions.c'', 40, ''isr_NP'') ''NP''"

definition handle_SS :: "env \<Rightarrow> isr_frame \<Rightarrow> u64 \<Rightarrow> (unit, 'z serial_state_scheme) kmon" where
  "handle_SS E frame error_code = ERROR E (''arch/x64/exceptions.c'', 44, ''isr_SS'') ''SS''"

definition handle_GP :: "env \<Rightarrow> isr_frame \<Rightarrow> u64 \<Rightarrow> (unit, 'z serial_state_scheme) kmon" where
  "handle_GP E frame error_code =
     andthen (printk E (''#GP w/ error code %x'' @ NL) [VInt error_code]) (\<lambda>_.
     ERROR E (''arch/x64/exceptions.c'', 50, ''isr_GP'') ''GP'')"

definition handle_PF :: "env \<Rightarrow> isr_frame \<Rightarrow> u64 \<Rightarrow> (unit, 'z serial_state_scheme) kmon" where
  "handle_PF E frame error_code = ERROR E (''arch/x64/exceptions.c'', 54, ''isr_PF'') ''PF''"

definition handle_SYSCALL :: "env \<Rightarrow> isr_frame \<Rightarrow> (unit, 'z serial_state_scheme) kmon" where
  "handle_SYSCALL E frame = ERROR E (''arch/x64/syscall.c'', 7, ''isr_SYSCALL'') ''SYSCALL not implemented!''"

text \<open>The code behind a service routine's address. A routine without an error code ignores the
  argument.\<close>

fun isr_code :: "env \<Rightarrow> isr \<Rightarrow> isr_frame \<Rightarrow> u64 \<Rightarrow> (unit, 'z serial_state_scheme) kmon" where
  "isr_code E isr_DE fr ec = handle_DE E fr"
| "isr_code E isr_NMI fr ec = handle_NMI E fr"
| "isr_code E isr_BP fr ec = handle_BP E fr"
| "isr_code E isr_OF fr ec = handle_OF E fr"
| "isr_code E isr_BR fr ec = handle_BR E fr"
| "isr_code E isr_UD fr ec = handle_UD E fr"
| "isr_code E isr_DF fr ec = handle_DF E fr ec"
| "isr_code E isr_TS fr ec = handle_TS E fr ec"
| "isr_code E isr_NP fr ec = handle_NP E fr ec"
| "isr_code E isr_SS fr ec = handle_SS E fr ec"
| "isr_code E isr_GP fr ec = handle_GP E fr ec"
| "isr_code E isr_PF fr ec = handle_PF E fr ec"
| "isr_code E isr_SYSCALL fr ec = handle_SYSCALL E fr"

lemmas handler_defs = handle_DE_def handle_NMI_def handle_BP_def handle_OF_def handle_BR_def handle_UD_def
  handle_DF_def handle_TS_def handle_NP_def handle_SS_def handle_GP_def handle_PF_def handle_SYSCALL_def

text \<open>The routines are finitely many, in the order of their declarations.\<close>

instantiation isr :: enum
begin

definition enum_isr :: "isr list" where
  "enum_isr = [isr_DE, isr_NMI, isr_BP, isr_OF, isr_BR, isr_UD, isr_DF, isr_TS, isr_NP, isr_SS, isr_GP, isr_PF,
     isr_SYSCALL]"

definition enum_all_isr :: "(isr \<Rightarrow> bool) \<Rightarrow> bool" where
  "enum_all_isr P \<longleftrightarrow> list_all P Enum.enum"

definition enum_ex_isr :: "(isr \<Rightarrow> bool) \<Rightarrow> bool" where
  "enum_ex_isr P \<longleftrightarrow> list_ex P Enum.enum"

instance
proof
  have all: "i \<in> set Enum.enum" for i :: isr by (cases i) (simp_all add: enum_isr_def)
  then show "(UNIV :: isr set) = set Enum.enum" by blast
  show "distinct (Enum.enum :: isr list)" by (simp add: enum_isr_def)
  show "Enum.enum_all P \<longleftrightarrow> Ball UNIV P" "Enum.enum_ex P \<longleftrightarrow> Bex UNIV P" for P :: "isr \<Rightarrow> bool"
    using all by (auto simp: enum_all_isr_def enum_ex_isr_def list_all_iff list_ex_iff)
qed

end

section \<open>The table that is built\<close>

text \<open>C's static initialisation: every field zero.\<close>

definition initial_idt_table :: "idt_entry list" where
  "initial_idt_table = replicate IDT_N_ENTRIES
     \<lparr>offset_a = 0, segment_selector = 0, attributes = 0, offset_b = 0, offset_c = 0, reserved = 0\<rparr>"

text \<open>Which routine serves which vector, through which kind of gate.\<close>

definition served :: "nat \<Rightarrow> (isr \<times> u16) option" where
  "served = [0x00 \<mapsto> (isr_DE, IDT_ATTRIBUTES_TYPE_TRAP), 0x02 \<mapsto> (isr_NMI, IDT_ATTRIBUTES_TYPE_INTERRUPT),
     0x03 \<mapsto> (isr_BP, IDT_ATTRIBUTES_TYPE_TRAP), 0x04 \<mapsto> (isr_OF, IDT_ATTRIBUTES_TYPE_TRAP),
     0x05 \<mapsto> (isr_BR, IDT_ATTRIBUTES_TYPE_TRAP), 0x06 \<mapsto> (isr_UD, IDT_ATTRIBUTES_TYPE_TRAP),
     0x08 \<mapsto> (isr_DF, IDT_ATTRIBUTES_TYPE_TRAP), 0x0a \<mapsto> (isr_TS, IDT_ATTRIBUTES_TYPE_TRAP),
     0x0b \<mapsto> (isr_NP, IDT_ATTRIBUTES_TYPE_TRAP), 0x0c \<mapsto> (isr_SS, IDT_ATTRIBUTES_TYPE_TRAP),
     0x0d \<mapsto> (isr_GP, IDT_ATTRIBUTES_TYPE_TRAP), 0x0e \<mapsto> (isr_PF, IDT_ATTRIBUTES_TYPE_TRAP),
     0x32 \<mapsto> (isr_SYSCALL, IDT_ATTRIBUTES_TYPE_INTERRUPT)]"

definition kernel_gate :: "env \<Rightarrow> isr \<times> u16 \<Rightarrow> idt_entry" where
  "kernel_gate E g = INIT_IDT_ENTRY (INIT_SEGMENT_SELECTOR 0 0 1) (INIT_IDT_ATTRIBUTES 0 (snd g) 0) (isr_address E (fst g))"

text \<open>Attaching, seen as a function on tables.\<close>

definition attach :: "(nat \<Rightarrow> idt_entry option) \<Rightarrow> idt_entry list \<Rightarrow> idt_entry list" where
  "attach f t = map (\<lambda>v. case f v of Some g \<Rightarrow> g | None \<Rightarrow> t ! v) [0..<length t]"

lemma attach_update: "v < length t \<Longrightarrow> (attach f t)[v := g] = attach (f(v \<mapsto> g)) t"
  by (rule nth_equalityI) (auto simp: attach_def nth_list_update)

lemma attach_empty: "attach Map.empty t = t"
  by (rule nth_equalityI) (auto simp: attach_def)

text \<open>The state \<open>idt_init\<close> leaves.\<close>

definition idt_built :: "env \<Rightarrow> 'z idt_state_scheme \<Rightarrow> 'z idt_state_scheme" where
  "idt_built E s = s\<lparr>idtr := Some (INIT_IDT_DESCRIPTOR (idt_table_address E) 256),
     idt_table := attach (map_option (kernel_gate E) \<circ> served) (idt_table s)\<rparr>"

lemma idt_init_run:
  assumes "length (idt_table s) = IDT_N_ENTRIES"
  shows "idt_init E s = Some (Ret () (idt_built E s))"
proof -
  define t where "t = idt_table s"
  have t: "idt_table s = attach Map.empty t" "length t = 256"
    using assms by (simp_all add: t_def attach_empty IDT_N_ENTRIES_def)
  have same: "attach f (attach Map.empty t) = attach f t" for f by (simp add: attach_empty)
  show ?thesis
    by (simp add: idt_init_def idt_load_def idt_attach_handler_def IDT_N_ENTRIES_def kmon_simps Let_def t attach_update
        idt_built_def same served_def map_option_o_map_upd kernel_gate_def fun_upd_twist)
qed

lemma nth_attach: "v < length t \<Longrightarrow> attach f t ! v = (case f v of Some g \<Rightarrow> g | None \<Rightarrow> t ! v)"
  by (simp add: attach_def split: option.split)

lemma length_attach [simp]: "length (attach f t) = length t"
  by (simp add: attach_def)

lemma idt_built_same: "ram (idt_built E s) = ram s" "aspace (idt_built E s) = aspace s"
  "cpu_gdtr (idt_built E s) = cpu_gdtr s" "com_ports (idt_built E s) = com_ports s"
  "primary_com_port (idt_built E s) = primary_com_port s" "io_trace (idt_built E s) = io_trace s"
  by (simp_all add: idt_built_def)

lemma served_type: "served v = Some (i, ty) \<Longrightarrow> ty \<in> {IDT_ATTRIBUTES_TYPE_INTERRUPT, IDT_ATTRIBUTES_TYPE_TRAP}"
  by (auto simp: served_def split: if_splits)

lemma type_nibble: "IDT_ATTRIBUTES_TYPE_INTERRUPT AND 0xf = IDT_ATTRIBUTES_TYPE_INTERRUPT"
  "IDT_ATTRIBUTES_TYPE_TRAP AND 0xf = IDT_ATTRIBUTES_TYPE_TRAP"
  by (simp_all add: IDT_ATTRIBUTES_TYPE_INTERRUPT_def IDT_ATTRIBUTES_TYPE_TRAP_def)

section \<open>What the routines report\<close>

text \<open>Where a routine reports an error, and under which name.\<close>

fun isr_place :: "isr \<Rightarrow> srcloc \<times> string" where
  "isr_place isr_DE = ((''arch/x64/exceptions.c'', 8, ''isr_DE''), ''DE'')"
| "isr_place isr_NMI = ((''arch/x64/exceptions.c'', 12, ''isr_NMI''), ''NMI'')"
| "isr_place isr_BP = ((''arch/x64/exceptions.c'', 16, ''isr_BP''), ''BP'')"
| "isr_place isr_OF = ((''arch/x64/exceptions.c'', 20, ''isr_OF''), ''OF'')"
| "isr_place isr_BR = ((''arch/x64/exceptions.c'', 24, ''isr_BR''), ''BR'')"
| "isr_place isr_UD = ((''arch/x64/exceptions.c'', 28, ''isr_UD''), ''UD'')"
| "isr_place isr_DF = ((''arch/x64/exceptions.c'', 32, ''isr_DF''), ''DF'')"
| "isr_place isr_TS = ((''arch/x64/exceptions.c'', 36, ''isr_TS''), ''TS'')"
| "isr_place isr_NP = ((''arch/x64/exceptions.c'', 40, ''isr_NP''), ''NP'')"
| "isr_place isr_SS = ((''arch/x64/exceptions.c'', 44, ''isr_SS''), ''SS'')"
| "isr_place isr_GP = ((''arch/x64/exceptions.c'', 50, ''isr_GP''), ''GP'')"
| "isr_place isr_PF = ((''arch/x64/exceptions.c'', 54, ''isr_PF''), ''PF'')"
| "isr_place isr_SYSCALL = ((''arch/x64/syscall.c'', 7, ''isr_SYSCALL''), ''SYSCALL not implemented!'')"

definition report :: "isr \<Rightarrow> u64 \<Rightarrow> string" where
  "report i ec = (if i = isr_GP then ''#GP w/ error code '' @ hex_text ec @ NL else []) @
     trace_text (fst (isr_place i)) (PBAD (snd (isr_place i)))"

lemma isr_code_reports:
  assumes "console_ready E s"
  shows "\<exists>s'. isr_code E i fr ec s = Some (Stop Spin s') \<and> console_out s' = console_out s @ report i ec \<and> only_io s s'"
proof -
  have plain: "CHR ''%'' \<notin> set (snd (isr_place i))" by (cases i) simp_all
  note err = ERROR_ready [OF _ plain, of E _ "fst (isr_place i)"]
  show ?thesis
  proof (cases "i = isr_GP")
    case False
    then have "isr_code E i fr ec s = ERROR E (fst (isr_place i)) (snd (isr_place i)) s"
      by (cases i) (simp_all add: handler_defs)
    then show ?thesis using err [OF assms] False by (auto simp: report_def)
  next
    case True
    have r: "render (''#GP w/ error code %x'' @ NL) [VInt ec] = Some (''#GP w/ error code '' @ hex_text ec @ NL)"
      by (simp add: NL_def)
    obtain s1 where s1: "printk E (''#GP w/ error code %x'' @ NL) [VInt ec] s = Some (Ret () s1)" "console_ready E s1"
        "console_out s1 = console_out s @ (''#GP w/ error code '' @ hex_text ec @ NL)" "only_io s s1"
      using printk_ready [OF assms r] by blast
    have "isr_code E i fr ec s = ERROR E (fst (isr_place i)) (snd (isr_place i)) s1"
      by (simp only: True isr_code.simps handle_GP_def andthen_apply s1(1) option.case outcome.case isr_place.simps fst_conv snd_conv)
    then show ?thesis
      using err [OF s1(2)] only_io_trans [OF s1(4)] unfolding s1(3) report_def True by auto
  qed
qed

lemma idt_built_console: "console_ready E (idt_built E s) = console_ready E s"
  by (rule console_ready_cong) (simp_all add: idt_built_same)

section \<open>Properties\<close>

text \<open>C30: \<open>idt_init\<close> installs the kernel's gates. Afterwards the loaded descriptor covers the
  256 entries; each of the thirteen vectors has a present gate of its kind to its own
  service routine, through the kernel's code segment, closed to all but privilege level 0
  and on the current stack; every other entry is as before, and so are memory and the
  address space.\<close>

theorem idt_init_gates:
  assumes "length (idt_table s) = IDT_N_ENTRIES"
  shows "\<exists>s' d. idt_init E s = Some (Ret () s') \<and> idtr s' = Some d \<and> idt_offset d = idt_table_address E \<and>
    unat (idt_size d) + 1 = 16 * IDT_N_ENTRIES \<and> length (idt_table s') = IDT_N_ENTRIES \<and>
    (\<forall>v<IDT_N_ENTRIES. case served v of
         None \<Rightarrow> idt_table s' ! v = idt_table s ! v
       | Some (i, ty) \<Rightarrow> idt_entry_isr (idt_table s' ! v) = isr_address E i \<and>
           IDT_ATTRIBUTES_PRESENT (attributes (idt_table s' ! v)) = 1 \<and>
           IDT_ATTRIBUTES_TYPE (attributes (idt_table s' ! v)) = ty \<and>
           IDT_ATTRIBUTES_DPL (attributes (idt_table s' ! v)) = 0 \<and>
           IDT_ATTRIBUTES_IST (attributes (idt_table s' ! v)) = 0 \<and>
           SEGMENT_SELECTOR_INDEX (segment_selector (idt_table s' ! v)) = 1 \<and>
           SEGMENT_SELECTOR_RPL (segment_selector (idt_table s' ! v)) = 0) \<and>
    ram s' = ram s \<and> aspace s' = aspace s"
proof -
  have gate: "segment_selector (kernel_gate E g) = INIT_SEGMENT_SELECTOR 0 0 1"
    "attributes (kernel_gate E g) = INIT_IDT_ATTRIBUTES 0 (snd g) 0"
    "idt_entry_isr (kernel_gate E g) = isr_address E (fst g)" for g
    by (simp_all add: kernel_gate_def idt_entry_isr_INIT) (simp_all add: INIT_IDT_ENTRY_def)
  have sel: "SEGMENT_SELECTOR_INDEX (INIT_SEGMENT_SELECTOR 0 0 1) = 1" "SEGMENT_SELECTOR_RPL (INIT_SEGMENT_SELECTOR 0 0 1) = 0"
    by (simp_all add: selector_index selector_rpl)
  have nib: "ty AND 0xf = ty" if "served v = Some (i, ty)" for v i ty
    using served_type [OF that] type_nibble by auto
  show ?thesis
    using assms idt_init_run [OF assms]
    by (intro exI [of _ "idt_built E s"] exI [of _ "INIT_IDT_DESCRIPTOR (idt_table_address E) 256"])
      (auto simp: idt_built_def INIT_IDT_DESCRIPTOR_def sizeof_idt_entry_def IDT_N_ENTRIES_def nth_attach gate sel
        attributes_dpl attributes_type attributes_ist attributes_present nib
        split: option.split)
qed

subsection \<open>Witnesses\<close>

text \<open>Service routines at distinct addresses.\<close>

definition isr_layout :: "isr \<Rightarrow> u64" where
  "isr_layout i = 0xffffffff80001000 + 0x40 * of_nat (length (takeWhile (\<lambda>j. j \<noteq> i) Enum.enum))"

definition idt_env :: env where
  "idt_env = idle_env\<lparr>isr_address := isr_layout, gdt_table_address := 0xffffffff80003000,
     idt_table_address := 0xffffffff80004000\<rparr>"

definition idle_idt :: idt_state where
  "idle_idt = \<lparr>io_trace = [], ram = (\<lambda>_. 0), aspace = None,
     com_ports = [\<lparr>io_port_base = 0x3f8, port_status = COM_PORT_STATUS_READY\<rparr>],
     primary_com_port = Some 0, first_page_frame = 0, n_free_page_frames = 0, kernel_pml4_table = 0,
     gdtr = \<lparr>gdtr_limit = 0, gdtr_base = 0\<rparr>, cpu_gdtr = None, cs_reg = 0, data_regs = [],
     interrupts_enabled = True, idt_table = initial_idt_table, idtr = None\<rparr>"

lemma isr_layout_inj: "inj isr_layout"
proof (rule injI)
  fix i j assume "isr_layout i = isr_layout j"
  then show "i = j" by (cases i; cases j; simp add: isr_layout_def enum_isr_def)
qed

lemma sends_cong:
  assumes "port_value E' = port_value E"
  shows "sends_eventually E' p t = sends_eventually E p t"
proof -
  have "after_poll E' p = after_poll E p" using assms by (simp add: fun_eq_iff after_poll_def line_stat_def)
  then show ?thesis using assms by (simp add: sends_eventually_def line_stat_def)
qed

lemma idle_idt_facts: "inj (isr_address idt_env)" "idt_table idle_idt = initial_idt_table" "console_ready idt_env idle_idt"
  using isr_layout_inj idle_sends sends_cong [of idt_env idle_env]
  by (auto simp: idt_env_def idle_idt_def console_ready_def)

theorem idt_init_gates_witness:
  "\<exists>s'. idt_init idt_env idle_idt = Some (Ret () s') \<and> length (idt_table s') = 256"
proof -
  have "length (idt_table idle_idt) = IDT_N_ENTRIES" by (simp add: idle_idt_def initial_idt_table_def)
  from idt_init_gates [OF this, of idt_env] show ?thesis by (auto simp: IDT_N_ENTRIES_def)
qed

end
