(* ===== verification/Delivery.thy ===== *)
theory Delivery
  imports Interrupts
begin

section \<open>How the processor delivers an interrupt\<close>

text \<open>
  The specification against which the kernel's tables are read: what a processor in long
  mode does with a vector, from the documented rules. \<open>deliver\<close> is one attempt. It reads the
  sixteen bytes at sixteen times the vector, which must end within the limit; the gate must
  be an interrupt or trap gate, open to the privilege level of a software interrupt, and
  present; its selector must name a code segment of privilege level 0; and coming from
  another level, or with a stack number in the gate, the task register must offer a stack.
  A check that fails raises an exception, which is delivered in turn; the third failure in
  a row shuts the processor down.
\<close>

text \<open>An \<open>INT\<close> instruction (\<open>INT3\<close> and \<open>INTO\<close> included), or anything else, with the privilege
  level of the code that was interrupted.\<close>

datatype cause = Exception (level: u16) | Software (level: u16)

datatype delivery = Entered isr u64 | Elsewhere u64 | Raised cause nat u64 | Shutdown

definition gate_at :: "env \<Rightarrow> 'z idt_state_scheme \<Rightarrow> nat \<Rightarrow> idt_entry option" where
  "gate_at E s v = (case idtr s of None \<Rightarrow> None | Some d \<Rightarrow>
     if idt_offset d = idt_table_address E \<and> 16 * v + 15 \<le> unat (idt_size d) \<and> v < length (idt_table s)
     then Some (idt_table s ! v) else None)"

fun open_to :: "cause \<Rightarrow> idt_entry \<Rightarrow> bool" where
  "open_to (Exception cpl) g = True"
| "open_to (Software cpl) g = (cpl \<le> IDT_ATTRIBUTES_DPL (attributes g))"

definition kernel_code :: "'z gdt_state_scheme \<Rightarrow> segment_selector_t \<Rightarrow> bool" where
  "kernel_code s sel = (case cpu_gdtr s of None \<Rightarrow> False | Some table \<Rightarrow>
     (case selected table sel of None \<Rightarrow> False | Some d \<Rightarrow> code_segment 0 d))"

definition stack_offered :: "env \<Rightarrow> cause \<Rightarrow> idt_entry \<Rightarrow> bool" where
  "stack_offered E c g \<longleftrightarrow> level c = 0 \<and> IDT_ATTRIBUTES_IST (attributes g) = 0 \<or> ring0_stack E \<noteq> None"

text \<open>The error codes name the gate or the selector; the lowest bit says that no instruction
  asked for the interrupt.\<close>

fun external :: "cause \<Rightarrow> u64" where
  "external (Exception cpl) = 1"
| "external (Software cpl) = 0"

definition gate_error :: "cause \<Rightarrow> nat \<Rightarrow> u64" where
  "gate_error c v = of_nat (8 * v + 2) + external c"

text \<open>Exceptions that, when delivering them fails, become a double fault.\<close>

definition contributory :: "nat \<Rightarrow> bool" where
  "contributory v \<longleftrightarrow> v \<in> {0, 10, 11, 12, 13, 14}"

fun escalate :: "cause \<Rightarrow> nat \<Rightarrow> nat \<Rightarrow> u64 \<Rightarrow> delivery" where
  "escalate (Software cpl) v v' ec = Raised (Exception cpl) v' ec"
| "escalate (Exception cpl) v v' ec =
     (if v = 8 then Shutdown
      else if contributory v then Raised (Exception cpl) 8 0
      else Raised (Exception cpl) v' ec)"

definition deliver :: "env \<Rightarrow> 'z idt_state_scheme \<Rightarrow> cause \<Rightarrow> nat \<Rightarrow> u64 \<Rightarrow> delivery" where
  "deliver E s c v ec = (case gate_at E s v of
       None \<Rightarrow> escalate c v 13 (gate_error c v)
     | Some g \<Rightarrow>
         if IDT_ATTRIBUTES_TYPE (attributes g) \<notin> {IDT_ATTRIBUTES_TYPE_INTERRUPT, IDT_ATTRIBUTES_TYPE_TRAP} \<or> \<not> open_to c g
         then escalate c v 13 (gate_error c v)
         else if IDT_ATTRIBUTES_PRESENT (attributes g) = 0 then escalate c v 11 (gate_error c v)
         else if \<not> kernel_code s (segment_selector g)
         then escalate c v 13 (ucast (segment_selector g AND 0xfffc) + external c)
         else if \<not> stack_offered E c g then escalate c v 10 (external c)
         else (case List.find (\<lambda>i. isr_address E i = idt_entry_isr g) Enum.enum of
             Some i \<Rightarrow> Entered i ec
           | None \<Rightarrow> Elsewhere (idt_entry_isr g)))"

text \<open>The attempts, one after the other, until one does not raise another exception.\<close>

fun settled :: "delivery \<Rightarrow> bool" where
  "settled (Raised c v ec) = False"
| "settled (Entered i ec) = True"
| "settled (Elsewhere a) = True"
| "settled Shutdown = True"

inductive ends_in :: "env \<Rightarrow> 'z idt_state_scheme \<Rightarrow> cause \<Rightarrow> nat \<Rightarrow> u64 \<Rightarrow> delivery \<Rightarrow> bool" for E s where
  stops: "deliver E s c v ec = d \<Longrightarrow> settled d \<Longrightarrow> ends_in E s c v ec d"
| goes_on: "deliver E s c v ec = Raised c' v' ec' \<Longrightarrow> ends_in E s c' v' ec' d \<Longrightarrow> ends_in E s c v ec d"

inductive_simps ends_in_step: "ends_in E s c v ec d"

lemma ends_in_settled: "deliver E s c v ec = r \<Longrightarrow> settled r \<Longrightarrow> ends_in E s c v ec = (\<lambda>d. d = r)"
  by (rule ext, subst ends_in_step) auto

lemma ends_in_raised: "deliver E s c v ec = Raised c' v' ec' \<Longrightarrow> ends_in E s c v ec = ends_in E s c' v' ec'"
  by (rule ext, subst ends_in_step) auto

subsection \<open>Every delivery ends, in one way\<close>

text \<open>How many attempts can still fail after this one.\<close>

fun patience :: "cause \<Rightarrow> nat \<Rightarrow> nat" where
  "patience (Software cpl) v = 3"
| "patience (Exception cpl) v = (if v = 8 then 0 else if contributory v then 1 else 2)"

lemma escalate_patience:
  "escalate c v v' ec = Raised c' v'' ec' \<Longrightarrow> contributory v' \<Longrightarrow> patience c' v'' < patience c v"
  by (cases c) (auto simp: contributory_def split: if_splits)

lemma deliver_escalates:
  assumes "deliver E s c v ec = Raised c' v' ec'"
  shows "\<exists>v0 e. contributory v0 \<and> escalate c v v0 e = Raised c' v' ec'"
proof -
  have "contributory 10" "contributory 11" "contributory 13" by (simp_all add: contributory_def)
  then show ?thesis using assms unfolding deliver_def by (auto split: option.splits if_splits)
qed

lemma deliver_patience: "deliver E s c v ec = Raised c' v' ec' \<Longrightarrow> patience c' v' < patience c v"
  using deliver_escalates escalate_patience by blast

lemma delivery_ends: "\<exists>!d. ends_in E s c v ec d"
proof (induction "patience c v" arbitrary: c v ec rule: less_induct)
  case less
  show ?case
  proof (cases "deliver E s c v ec")
    case (Raised c' v' ec')
    show ?thesis using less [OF deliver_patience [OF Raised], of ec'] by (simp add: ends_in_raised [OF Raised])
  qed (simp_all add: ends_in_settled)
qed

subsection \<open>Delivery through the kernel's table\<close>

text \<open>A machine on which the tables have been set up.\<close>

definition interrupts_ready :: "env \<Rightarrow> 'z idt_state_scheme \<Rightarrow> bool" where
  "interrupts_ready E s \<longleftrightarrow> inj (isr_address E) \<and> cpu_gdtr s = Some (kernel_gdtr E) \<and>
     idtr s = Some (INIT_IDT_DESCRIPTOR (idt_table_address E) 256) \<and>
     idt_table s = attach (map_option (kernel_gate E) \<circ> served) initial_idt_table"

lemma idt_built_ready:
  assumes "inj (isr_address E)" "cpu_gdtr s = Some (kernel_gdtr E)" "idt_table s = initial_idt_table"
  shows "interrupts_ready E (idt_built E s)"
  using assms by (simp add: interrupts_ready_def idt_built_def)

definition empty_gate :: idt_entry where
  "empty_gate = \<lparr>offset_a = 0, segment_selector = 0, attributes = 0, offset_b = 0, offset_c = 0, reserved = 0\<rparr>"

lemma gate_at_ready:
  assumes "interrupts_ready E s" "v < 256"
  shows "gate_at E s v = Some (case served v of Some g \<Rightarrow> kernel_gate E g | None \<Rightarrow> empty_gate)"
  using assms
  by (simp add: gate_at_def interrupts_ready_def INIT_IDT_DESCRIPTOR_def sizeof_idt_entry_def nth_attach
      initial_idt_table_def empty_gate_def IDT_N_ENTRIES_def split: option.split)

lemma find_isr:
  fixes a :: "isr \<Rightarrow> u64"
  assumes "inj a"
  shows "List.find (\<lambda>i. a i = a j) Enum.enum = Some j"
proof -
  have "(\<lambda>i. a i = a j) = (\<lambda>i. i = j)" using assms by (auto simp: inj_eq)
  moreover have "List.find (\<lambda>i. i = j) Enum.enum = Some j" by (cases j) (simp_all add: enum_isr_def)
  ultimately show ?thesis by (simp only:)
qed

lemma kernel_gate_fields:
  assumes "served v = Some (i, ty)"
  shows "IDT_ATTRIBUTES_TYPE (attributes (kernel_gate E (i, ty))) \<in> {IDT_ATTRIBUTES_TYPE_INTERRUPT, IDT_ATTRIBUTES_TYPE_TRAP}"
    "IDT_ATTRIBUTES_DPL (attributes (kernel_gate E (i, ty))) = 0" "IDT_ATTRIBUTES_IST (attributes (kernel_gate E (i, ty))) = 0"
    "IDT_ATTRIBUTES_PRESENT (attributes (kernel_gate E (i, ty))) = 1" "segment_selector (kernel_gate E (i, ty)) = 0x08"
    "idt_entry_isr (kernel_gate E (i, ty)) = isr_address E i"
proof -
  have a: "attributes (kernel_gate E (i, ty)) = INIT_IDT_ATTRIBUTES 0 ty 0" "segment_selector (kernel_gate E (i, ty)) = 0x08"
    by (simp_all add: kernel_gate_def INIT_IDT_ENTRY_def INIT_SEGMENT_SELECTOR_def)
  show "IDT_ATTRIBUTES_TYPE (attributes (kernel_gate E (i, ty))) \<in> {IDT_ATTRIBUTES_TYPE_INTERRUPT, IDT_ATTRIBUTES_TYPE_TRAP}"
    using served_type [OF assms] type_nibble by (auto simp: a(1) attributes_type)
  show "IDT_ATTRIBUTES_DPL (attributes (kernel_gate E (i, ty))) = 0" "IDT_ATTRIBUTES_IST (attributes (kernel_gate E (i, ty))) = 0"
    "IDT_ATTRIBUTES_PRESENT (attributes (kernel_gate E (i, ty))) = 1" "segment_selector (kernel_gate E (i, ty)) = 0x08"
    "idt_entry_isr (kernel_gate E (i, ty)) = isr_address E i"
    by (simp_all only: a attributes_dpl attributes_ist attributes_present)
      (simp_all add: kernel_gate_def idt_entry_isr_INIT)
qed

lemma kernel_code_ready: "interrupts_ready E s \<Longrightarrow> kernel_code s 0x08"
  using selected_simps(1) gdt_table_segments(2) by (simp add: kernel_code_def interrupts_ready_def)

text \<open>One attempt on such a machine.\<close>

lemma deliver_ready:
  assumes ready: "interrupts_ready E s" and v: "v < 256"
  shows "deliver E s c v ec = (case served v of
       None \<Rightarrow> escalate c v 13 (gate_error c v)
     | Some (i, ty) \<Rightarrow>
         if c \<noteq> Exception (level c) \<and> level c \<noteq> 0 then escalate c v 13 (gate_error c v)
         else if level c \<noteq> 0 \<and> ring0_stack E = None then escalate c v 10 (external c)
         else Entered i ec)"
proof (cases "served v")
  case None
  then show ?thesis
    by (simp add: deliver_def gate_at_ready [OF assms] empty_gate_def IDT_ATTRIBUTES_TYPE_def IDT_ATTRIBUTES_TYPE_INTERRUPT_def
        IDT_ATTRIBUTES_TYPE_TRAP_def)
next
  case (Some g)
  obtain i ty where g: "g = (i, ty)" by (cases g)
  note f = kernel_gate_fields [OF Some [unfolded g], of E]
  have "inj (isr_address E)" using ready by (simp add: interrupts_ready_def)
  note find = find_isr [OF this, of i]
  show ?thesis
    using f(1) Some g find
    by (cases c) (auto simp: deliver_def gate_at_ready [OF assms] f(2-) kernel_code_ready [OF ready] stack_offered_def)
qed

text \<open>Where a vector ends on such a machine.\<close>

definition kernel_reaction :: "env \<Rightarrow> cause \<Rightarrow> nat \<Rightarrow> u64 \<Rightarrow> delivery" where
  "kernel_reaction E c v ec =
     (if level c \<noteq> 0 \<and> ring0_stack E = None then Shutdown
      else case served v of
        None \<Rightarrow> Entered isr_GP (gate_error c v)
      | Some (i, ty) \<Rightarrow> if c \<noteq> Exception (level c) \<and> level c \<noteq> 0 then Entered isr_GP (gate_error c v) else Entered i ec)"

text \<open>Loading both tables leaves a machine whose interrupts go through the kernel's table.\<close>

lemma tables_run:
  assumes "inj (isr_address E)" "idt_table s = initial_idt_table" "console_ready E s"
  obtains s' where "andthen (gdt_init E) (\<lambda>_. idt_init E) s = Some (Ret () s')" "interrupts_ready E s'" "console_ready E s'"
proof -
  obtain s1 where s1: "gdt_init E s = Some (Ret () (gdt_loaded E s1))" "only_io s s1" "console_ready E s1"
    using gdt_init_run [OF assms(3)] by blast
  have t: "idt_table (gdt_loaded E s1) = initial_idt_table"
    using s1(2) assms(2) by (auto simp: only_io_def gdt_loaded_def)
  have "andthen (gdt_init E) (\<lambda>_. idt_init E) s = Some (Ret () (idt_built E (gdt_loaded E s1)))"
    using idt_init_run [of "gdt_loaded E s1" E] t by (simp add: andthen_Ret [where m = "gdt_init E", OF s1(1)] initial_idt_table_def)
  moreover have "interrupts_ready E (idt_built E (gdt_loaded E s1))"
    using idt_built_ready [OF assms(1) _ t] by (simp add: gdt_loaded_def)
  moreover have "console_ready E (gdt_loaded E s1) = console_ready E s1"
    by (rule console_ready_cong) (simp_all add: gdt_loaded_def)
  ultimately show ?thesis using that s1(3) by (simp add: idt_built_console)
qed

lemma served_exceptions: "served 8 = Some (isr_DF, IDT_ATTRIBUTES_TYPE_TRAP)" "served 10 = Some (isr_TS, IDT_ATTRIBUTES_TYPE_TRAP)"
  "served 13 = Some (isr_GP, IDT_ATTRIBUTES_TYPE_TRAP)"
  by (simp_all add: served_def)

lemma unserved_benign: "served v = None \<Longrightarrow> v \<noteq> 8 \<and> \<not> contributory v"
  by (auto simp: served_def contributory_def split: if_splits)

text \<open>Without a stack for level 0, each attempt to leave another level fails.\<close>

lemma no_stack_shutdown:
  assumes ready: "interrupts_ready E s" and v: "v < 256" and out: "level c \<noteq> 0" "ring0_stack E = None"
  shows "ends_in E s c v ec = (\<lambda>d. d = Shutdown)"
proof -
  have f8: "ends_in E s (Exception cpl) 8 e = (\<lambda>d. d = Shutdown)" if "cpl \<noteq> 0" for cpl e
    by (rule ends_in_settled) (use that out(2) in \<open>simp_all add: deliver_ready [OF ready] served_exceptions\<close>)
  have hard: "ends_in E s (Exception cpl) w e = (\<lambda>d. d = Shutdown)" if "cpl \<noteq> 0" "w = 10 \<or> w = 13" for cpl w e
  proof -
    have "deliver E s (Exception cpl) w e = Raised (Exception cpl) 8 0"
      using that out(2) by (auto simp: deliver_ready [OF ready] served_exceptions contributory_def)
    from ends_in_raised [OF this] f8 [OF that(1)] show ?thesis by simp
  qed
  show ?thesis
  proof (cases "deliver E s c v ec = Shutdown")
    case True
    then show ?thesis by (simp add: ends_in_settled)
  next
    case False
    then obtain w e where w: "deliver E s c v ec = Raised (Exception (level c)) w e" "w \<in> {8, 10, 13}"
      using out by (cases c) (auto simp: deliver_ready [OF ready v] split: option.splits if_splits)
    then show ?thesis using f8 hard out(1) by (auto simp: ends_in_raised [OF w(1)])
  qed
qed

lemma ends_in_ready:
  assumes ready: "interrupts_ready E s" and v: "v < 256"
  shows "ends_in E s c v ec = (\<lambda>d. d = kernel_reaction E c v ec)"
proof (cases "level c \<noteq> 0 \<and> ring0_stack E = None")
  case True
  then show ?thesis using no_stack_shutdown [OF assms] by (simp add: kernel_reaction_def)
next
  case False
  have gp: "ends_in E s (Exception (level c)) 13 e = (\<lambda>d. d = Entered isr_GP e)" for e
    by (rule ends_in_settled) (use False in \<open>auto simp: deliver_ready [OF ready] served_exceptions\<close>)
  show ?thesis
  proof (cases "deliver E s c v ec")
    case (Raised c' w e)
    then have "c' = Exception (level c)" "w = 13" "e = gate_error c v" "kernel_reaction E c v ec = Entered isr_GP e"
      using False unserved_benign [of v]
      by (cases c; auto simp: deliver_ready [OF ready v] kernel_reaction_def split: option.splits if_splits)+
    then show ?thesis using ends_in_raised [OF Raised] gp by simp
  next
    case (Entered i e)
    then have "kernel_reaction E c v ec = Entered i e"
      using False by (cases c; auto simp: deliver_ready [OF ready v] kernel_reaction_def split: option.splits if_splits)+
    then show ?thesis using ends_in_settled [OF Entered] by simp
  next
    case (Elsewhere a)
    then show ?thesis
      using False unserved_benign [of v]
      by (cases c; auto simp: deliver_ready [OF ready v] split: option.splits if_splits)
  next
    case Shutdown
    then show ?thesis
      using False unserved_benign [of v]
      by (cases c; auto simp: deliver_ready [OF ready v] split: option.splits if_splits)
  qed
qed

section \<open>Properties\<close>

text \<open>C28: interrupts reach their routines. On the machine that \<open>gdt_init\<close> and then \<open>idt_init\<close>
  leave, whatever is raised at privilege level 0 enters a routine of the kernel: a vector
  with a gate its own, with the processor's error code; any other vector below 256 the
  general protection routine, whose error code names the vector. The routine reports its name
  and place on the console and hangs, having changed nothing but the trace of port
  accesses.\<close>

theorem exceptions_reported:
  assumes "inj (isr_address E)" "idt_table s = initial_idt_table" "console_ready E s" and "v < 256"
  shows "\<exists>s1. andthen (gdt_init E) (\<lambda>_. idt_init E) s = Some (Ret () s1) \<and>
    (let (i, ec') = (case served v of Some (i, ty) \<Rightarrow> (i, ec) | None \<Rightarrow> (isr_GP, of_nat (8 * v + 3))) in
      (\<forall>d. ends_in E s1 (Exception 0) v ec d \<longleftrightarrow> d = Entered i ec') \<and>
      (\<exists>s2. isr_code E i fr ec' s1 = Some (Stop Spin s2) \<and> console_out s2 = console_out s1 @ report i ec' \<and> only_io s1 s2))"
proof -
  obtain s1 where s1: "andthen (gdt_init E) (\<lambda>_. idt_init E) s = Some (Ret () s1)" "interrupts_ready E s1"
      "console_ready E s1"
    using tables_run [OF assms(1-3)] by blast
  have e: "gate_error (Exception 0) v = of_nat (8 * v + 3)"
    by (simp add: gate_error_def)
  show ?thesis
    using s1(1) isr_code_reports [OF s1(3)] ends_in_ready [OF s1(2) assms(4)]
    by (auto simp: kernel_reaction_def e simp del: of_nat_add of_nat_mult split: option.split)
qed

text \<open>C29: nothing outside the kernel can call it. On that machine a software interrupt of any
  vector, executed at privilege level 1, 2 or 3, is refused, the system call vector 0x32
  included: it ends in the general protection routine, whose error code is eight times the
  vector plus two, and which prints that code and hangs. But the kernel loads no task
  register: unless the boot loader left one that offers a stack for level 0, that interrupt,
  and anything else raised outside level 0, shuts the processor down. System calls are
  documented to be made with this vector.\<close>

theorem user_interrupts_refused:
  assumes "inj (isr_address E)" "idt_table s = initial_idt_table" "console_ready E s" and "v < 256" "cpl \<noteq> 0"
  shows "\<exists>s1. andthen (gdt_init E) (\<lambda>_. idt_init E) s = Some (Ret () s1) \<and>
    (if ring0_stack E = None
     then \<forall>c ec d. level c = cpl \<longrightarrow> (ends_in E s1 c v ec d \<longleftrightarrow> d = Shutdown)
     else \<forall>ec d. ends_in E s1 (Software cpl) v ec d \<longleftrightarrow> d = Entered isr_GP (of_nat (8 * v + 2))) \<and>
    (\<exists>s2. isr_code E isr_GP fr (of_nat (8 * v + 2)) s1 = Some (Stop Spin s2) \<and>
       console_out s2 = console_out s1 @ ''#GP w/ error code '' @ hex_text (of_nat (8 * v + 2)) @ NL @
         trace_text (''arch/x64/exceptions.c'', 50, ''isr_GP'') (PBAD ''GP''))"
proof -
  obtain s1 where s1: "andthen (gdt_init E) (\<lambda>_. idt_init E) s = Some (Ret () s1)" "interrupts_ready E s1"
      "console_ready E s1"
    using tables_run [OF assms(1-3)] by blast
  have "kernel_reaction E (Software cpl) v ec = Entered isr_GP (of_nat (8 * v + 2))" if "ring0_stack E \<noteq> None" for ec
    using assms(5) that by (simp add: kernel_reaction_def gate_error_def split: option.split)
  moreover have "kernel_reaction E c v ec = Shutdown" if "ring0_stack E = None" "level c = cpl" for c ec
    using assms(5) that by (simp add: kernel_reaction_def)
  moreover have "\<exists>s2. isr_code E isr_GP fr (of_nat (8 * v + 2)) s1 = Some (Stop Spin s2) \<and>
       console_out s2 = console_out s1 @ ''#GP w/ error code '' @ hex_text (of_nat (8 * v + 2)) @ NL @
         trace_text (''arch/x64/exceptions.c'', 50, ''isr_GP'') (PBAD ''GP'')"
    using isr_code_reports [OF s1(3), of isr_GP fr "of_nat (8 * v + 2)"] by (auto simp: report_def simp del: of_nat_add of_nat_mult)
  ultimately show ?thesis
    using s1(1) ends_in_ready [OF s1(2) assms(4)] by (intro exI [of _ s1]) (simp del: of_nat_add of_nat_mult)
qed

subsection \<open>Witnesses\<close>

theorem exceptions_reported_witness:
  "\<exists>s1. andthen (gdt_init idt_env) (\<lambda>_. idt_init idt_env) idle_idt = Some (Ret () s1) \<and>
     ends_in idt_env s1 (Exception 0) 0x20 0 (Entered isr_GP 0x103)"
proof -
  have "served 0x20 = None" by (simp add: served_def)
  then show ?thesis using exceptions_reported [OF idle_idt_facts, where v = "0x20" and ec = 0] by (auto simp: Let_def)
qed

text \<open>The same machine, with a task register that offers a stack.\<close>

definition stack_env :: env where
  "stack_env = idt_env\<lparr>ring0_stack := Some 0x9000\<rparr>"

lemma stack_env_facts: "inj (isr_address stack_env)" "console_ready stack_env idle_idt"
  using idle_idt_facts sends_cong [of stack_env idt_env] by (auto simp: stack_env_def console_ready_def split: option.splits)

theorem user_interrupts_refused_witness:
  "(\<exists>s1. andthen (gdt_init idt_env) (\<lambda>_. idt_init idt_env) idle_idt = Some (Ret () s1) \<and>
      ends_in idt_env s1 (Software 3) 0x32 0 Shutdown) \<and>
   (\<exists>s1. andthen (gdt_init stack_env) (\<lambda>_. idt_init stack_env) idle_idt = Some (Ret () s1) \<and>
      ends_in stack_env s1 (Software 3) 0x32 0 (Entered isr_GP 0x192))"
proof
  have v: "0x32 < (256 :: nat)" "(3 :: u16) \<noteq> 0" by simp_all
  have none: "ring0_stack idt_env = None" by (simp add: idt_env_def idle_env_def)
  obtain s1 where "andthen (gdt_init idt_env) (\<lambda>_. idt_init idt_env) idle_idt = Some (Ret () s1)"
      "\<forall>c ec d. level c = 3 \<longrightarrow> (ends_in idt_env s1 c 0x32 ec d \<longleftrightarrow> d = Shutdown)"
    using user_interrupts_refused [OF idle_idt_facts v] unfolding if_P [OF none] by blast
  moreover have "level (Software 3) = 3" by simp
  ultimately show "\<exists>s1. andthen (gdt_init idt_env) (\<lambda>_. idt_init idt_env) idle_idt = Some (Ret () s1) \<and>
      ends_in idt_env s1 (Software 3) 0x32 0 Shutdown" by blast
  have some: "ring0_stack stack_env \<noteq> None" by (simp add: stack_env_def)
  show "\<exists>s1. andthen (gdt_init stack_env) (\<lambda>_. idt_init stack_env) idle_idt = Some (Ret () s1) \<and>
      ends_in stack_env s1 (Software 3) 0x32 0 (Entered isr_GP 0x192)"
    using user_interrupts_refused [OF stack_env_facts(1) idle_idt_facts(2) stack_env_facts(2) v] unfolding if_not_P [OF some]
    by (simp only: of_nat_numeral arith_simps) blast
qed

end
