(* ===== verification/Scheduler.thy ===== *)
theory Scheduler
  imports Proc Delivery
begin

section \<open>The scheduler (\<open>generic/scheduler.h\<close>, \<open>scheduler.c\<close>)\<close>

text \<open>
  The table of tasks and the creation of a task. Switching and preemption are empty in the
  sources, and are empty here. \<open>default_regs_kernel\<close> is a static object of a header, so
  \<open>scheduler.c\<close> changes its own copy, the field \<open>sched_regs_kernel\<close>.
\<close>

datatype sched_state = RUNNING | BLOCKED | READY

record task =
  present :: u32
  state :: sched_state
  elapsed_total :: u64
  elapsed_since_run :: u64
  regs :: processor_regs
  pml4_table :: u64
  privilege_level :: u16

type_synonym task_id = u32

definition N_TASKS :: nat where "N_TASKS = 128"

record scheduler_state = idt_state +
  tasks :: "task list"
  current_task :: task_id
  sched_regs_kernel :: processor_regs

definition switch_to_task :: "task_id \<Rightarrow> (unit, 'z scheduler_state_scheme) kmon" where
  "switch_to_task next_task = ret ()"

definition scheduler_preempt :: "(unit, 'z scheduler_state_scheme) kmon" where
  "scheduler_preempt = ret ()"

text \<open>The loop that looks for an entry that is not present; \<open>i\<close> is the index of the first
  entry of the rest.\<close>

fun free_slot :: "task list \<Rightarrow> nat \<Rightarrow> nat option" where
  "free_slot [] i = None"
| "free_slot (t # ts) i = (if present t = 0 then Some i else free_slot ts (i + 1))"

definition update_task :: "nat \<Rightarrow> (task \<Rightarrow> task) \<Rightarrow> (unit, 'z scheduler_state_scheme) kmon" where
  "update_task i f = modify (\<lambda>s. s\<lparr>tasks := (tasks s)[i := f (tasks s ! i)]\<rparr>)"

definition new_task :: "env \<Rightarrow> (u64, 'z scheduler_state_scheme) kmon" where
  "new_task E = andthen (gets (\<lambda>s. free_slot (tasks s) 0)) (\<lambda>tsk. case tsk of
       None \<Rightarrow> andthen (WARN E (''Failed to find free space for new task!'' @ NL)) (\<lambda>_. ret (- 1))
     | Some i \<Rightarrow>
         andthen (update_task i (\<lambda>t. t\<lparr>present := 1, state := READY, elapsed_total := 0, elapsed_since_run := 0\<rparr>)) (\<lambda>_.
         andthen (get_phys_block E) (\<lambda>b.
         andthen (update_task i (\<lambda>t. t\<lparr>pml4_table := b, privilege_level := 3, regs := default_regs_userspace\<rparr>)) (\<lambda>_.
         andthen (gets (\<lambda>s. pml4_table (tasks s ! i))) (\<lambda>p.
         andthen (init_task_space_from_mem E p 0 0) (\<lambda>_.
         ret (of_nat i)))))))"

definition scheduler_init :: "env \<Rightarrow> (unit, 'z scheduler_state_scheme) kmon" where
  "scheduler_init E =
     andthen (modify (\<lambda>s. s\<lparr>sched_regs_kernel := (sched_regs_kernel s)\<lparr>cr3 := CR3_BASE_ADDR (kernel_pml4_table s)\<rparr>\<rparr>)) (\<lambda>_.
     andthen (modify (\<lambda>s. s\<lparr>current_task := - 1\<rparr>)) (\<lambda>_.
     andthen (for_each (\<lambda>i. update_task i (\<lambda>t. t\<lparr>present := 0\<rparr>)) [0..<N_TASKS]) (\<lambda>_.
     printk E (SYSTEM_SCHED @ ''Initialised task scheduler.'' @ NL) [])))"

subsection \<open>Messages (\<open>generic/ipc.h\<close>)\<close>

text \<open>The sources declare the format of a message and no operation on it. The members \<open>from\<close> and
  \<open>to\<close> share their place, so there is one field for both.\<close>

type_synonym ipc_endpoint_id = u16
type_synonym ipc_msg_seq = u16

record ipc_msg =
  ipc_seq :: ipc_msg_seq
  ipc_from_to :: ipc_endpoint_id
  ipc_code :: u32
  ipc_data :: u64
  ipc_len :: u64

section \<open>The table\<close>

text \<open>The abstract table: which task ids are in use.\<close>

definition live :: "'z scheduler_state_scheme \<Rightarrow> nat set" where
  "live s = {i. i < length (tasks s) \<and> present (tasks s ! i) \<noteq> 0}"

lemma free_slot_Some: "free_slot ts k = Some i \<Longrightarrow>
    k \<le> i \<and> i - k < length ts \<and> present (ts ! (i - k)) = 0 \<and> (\<forall>j < i - k. present (ts ! j) \<noteq> 0)"
proof (induction ts k rule: free_slot.induct)
  case (2 t ts k)
  show ?case
  proof (cases "present t = 0")
    case False
    then have IH: "Suc k \<le> i" "i - Suc k < length ts" "present (ts ! (i - Suc k)) = 0"
        "\<forall>j < i - Suc k. present (ts ! j) \<noteq> 0"
      using 2 by simp_all
    have e: "i - k = Suc (i - Suc k)" using IH(1) by simp
    have "present ((t # ts) ! j) \<noteq> 0" if "j < i - k" for j
      using that IH(4) False by (cases j) (auto simp: e)
    then show ?thesis using IH(1-3) by (simp add: e)
  qed (use 2 in simp)
qed simp

lemma free_slot_None: "free_slot ts k = None \<longleftrightarrow> (\<forall>t \<in> set ts. present t \<noteq> 0)"
  by (induction ts k rule: free_slot.induct) auto

lemma free_slot_least:
  assumes "free_slot (tasks s) 0 = Some i"
  shows "i < length (tasks s)" "i \<notin> live s" "\<forall>j<i. j \<in> live s"
proof -
  have i: "i < length (tasks s)" "present (tasks s ! i) = 0" "\<forall>j<i. present (tasks s ! j) \<noteq> 0"
    using free_slot_Some [OF assms] by simp_all
  show "i < length (tasks s)" by (rule i(1))
  show "i \<notin> live s" using i(2) by (simp add: live_def)
  show "\<forall>j<i. j \<in> live s" using i(1,3) unfolding live_def by simp
qed

lemma free_slot_full: "free_slot (tasks s) 0 = None \<longleftrightarrow> live s = {..<length (tasks s)}"
proof -
  have "free_slot (tasks s) 0 = None \<longleftrightarrow> (\<forall>i < length (tasks s). present (tasks s ! i) \<noteq> 0)"
    by (simp only: free_slot_None all_set_conv_all_nth)
  also have "\<dots> \<longleftrightarrow> live s = {..<length (tasks s)}" unfolding live_def by blast
  finally show ?thesis .
qed

lemma clear_tasks:
  assumes "n \<le> length (tasks s)"
  shows "for_each (\<lambda>i. update_task i (\<lambda>t. t\<lparr>present := 0\<rparr>)) [0..<n] s =
    Some (Ret () (s\<lparr>tasks := map (\<lambda>t. t\<lparr>present := 0\<rparr>) (take n (tasks s)) @ drop n (tasks s)\<rparr>))"
  using assms
proof (induction n)
  case (Suc n)
  have "(map (\<lambda>t. t\<lparr>present := 0\<rparr>) (take n (tasks s)) @ drop n (tasks s))[n := (tasks s ! n)\<lparr>present := 0\<rparr>] =
      map (\<lambda>t. t\<lparr>present := 0\<rparr>) (take (Suc n) (tasks s)) @ drop (Suc n) (tasks s)"
    using Suc.prems by (simp add: list_update_append take_Suc_conv_app_nth Cons_nth_drop_Suc [symmetric])
  then show ?case
    using Suc by (simp add: for_each_append kmon_simps update_task_def nth_append)
qed (simp add: kmon_simps)

section \<open>Creating a task\<close>

text \<open>Changes to the task table alone are invisible to the allocator and the console.\<close>

lemma update_task_apply [kmon_simps]:
  "update_task i f s = Some (Ret () (s\<lparr>tasks := (tasks s)[i := f (tasks s ! i)]\<rparr>))"
  by (simp add: update_task_def kmon_simps)

lemma tasks_update_same: "pmem_ok E (s\<lparr>tasks := ts\<rparr>) fs = pmem_ok E s fs"
    "console_ready E (s\<lparr>tasks := ts\<rparr>) = console_ready E s"
  by (simp add: pmem_ok_def) (rule console_ready_cong, simp_all)

lemma mapping_kept_tasks: "mapping_kept s s' \<Longrightarrow> tasks s' = tasks s \<and> current_task s' = current_task s"
  by (auto simp: mapping_kept_def)

lemma only_io_tasks: "only_io s s' \<Longrightarrow> tasks s' = tasks s \<and> current_task s' = current_task s \<and>
    sched_regs_kernel s' = sched_regs_kernel s"
  by (auto simp: only_io_def)

text \<open>The stack alone needs one table at each of the three upper levels below the root.\<close>

lemma task_tables_0: "task_tables 0 = 3"
proof -
  let ?q = "page_path (FLUX_BASE_VIRT - 4096)"
  have "task_steps 0 0 0 = [(0, FLUX_BASE_VIRT - 4096)]"
    by (simp add: task_steps_def code_steps_def step_range_def)
  then have "task_tables 0 = card (set (levels ?q))" by (simp add: task_tables_def tables_of_def)
  also have "\<dots> = length (levels ?q)" by (rule distinct_card) (simp add: levels_distinct)
  finally show ?thesis by (simp add: levels_def)
qed

definition created_task :: "u64 \<Rightarrow> task" where
  "created_task tbl = \<lparr>present = 1, state = READY, elapsed_total = 0, elapsed_since_run = 0,
     regs = default_regs_userspace, pml4_table = tbl, privilege_level = 3\<rparr>"

lemma created_task_eq: "t\<lparr>present := 1, state := READY, elapsed_total := 0, elapsed_since_run := 0,
    pml4_table := tbl, privilege_level := 3, regs := default_regs_userspace\<rparr> = created_task tbl"
  by (cases t) (simp add: created_task_def)

lemma new_task_run:
  fixes s :: "'z scheduler_state_scheme"
  assumes ok: "pmem_ok E s (tbl # root # stack # fs)" and clean: "clean_frame (ram s) root"
    and ready: "console_ready E s" and slot: "free_slot (tasks s) 0 = Some i" and n: "3 \<le> length fs"
  obtains s' where "new_task E s = Some (Ret (of_nat i) s')" "tasks s' = (tasks s)[i := created_task tbl]"
    "current_task s' = current_task s" "paging_ok E s' root (drop 3 fs)" "task_space stack 0 0 (ram s') root"
    "\<And>j. j < 512 \<Longrightarrow> rd64 (ram s') (slot tbl j) = (if j = 0 then root else rd64 (ram s) (slot tbl j))"
    "console_ready E s'" "\<And>g j. g \<in> set (drop 3 fs) \<Longrightarrow> j < 512 \<Longrightarrow> rd64 (ram s') (slot g j) = rd64 (ram s) (slot g j)"
proof -
  have i: "i < length (tasks s)" using free_slot_least(1) [OF slot] .
  define s1 where "s1 = s\<lparr>tasks := (tasks s)[i := (tasks s ! i)\<lparr>present := 1, state := READY, elapsed_total := 0,
     elapsed_since_run := 0\<rparr>]\<rparr>"
  have ok1: "pmem_ok E s1 (tbl # root # stack # fs)" and r1: "console_ready E s1"
    using ok ready by (simp_all only: s1_def tasks_update_same)
  obtain s2 where s2: "get_phys_block E s1 = Some (Ret tbl s2)" "pmem_ok E s2 (root # stack # fs)" "ram s2 = ram s1"
      "mapping_kept s1 s2" "console_ready E s2 = console_ready E s1"
    using frame_taken [OF ok1] by blast
  define s3 where "s3 = s2\<lparr>tasks := (tasks s)[i := created_task tbl]\<rparr>"
  have t2: "tasks s2 = tasks s1" "current_task s2 = current_task s" using mapping_kept_tasks [OF s2(4)] by (simp_all add: s1_def)
  have ts3: "(tasks s2)[i := (tasks s2 ! i)\<lparr>pml4_table := tbl, privilege_level := 3, regs := default_regs_userspace\<rparr>] =
      (tasks s)[i := created_task tbl]"
    using i by (simp add: t2(1) s1_def created_task_eq)
  have ok3: "pmem_ok E s3 (root # stack # fs)" and r3: "console_ready E s3"
    using s2(2,5) r1 by (simp_all only: s3_def tasks_update_same)
  have ram3: "ram s3 = ram s" using s2(3) by (simp add: s3_def s1_def)
  have tbl: "tbl \<noteq> 0" "frame_ok E tbl" "tbl \<notin> set (root # stack # fs)"
    using ok pmem_ok_distinct [OF ok] by (auto simp: pmem_ok_def)
  have "boot_map E tbl = Some tbl" using tbl(2) by (force simp: frame_ok_def slot_def dest: spec [of _ 0])
  then have c: "cell E tbl tbl 0" using frame_ok_addr [OF tbl(2)] by (simp add: cell_def)
  have "clean_frame (ram s3) root" using clean by (simp add: ram3)
  from init_task_space_run [OF ok3 this c tbl(3) r3, of 0 0] n
  obtain s4 where s4: "init_task_space_from_mem E tbl 0 0 s3 = Some (Ret None s4)"
      "paging_ok E s4 root (drop 3 fs)" "task_space stack 0 0 (ram s4) root" "mapping_kept s3 s4"
      "console_ready E s4"
      "\<forall>g j. page_aligned g \<and> (g \<notin> set (root # stack # fs) \<or> g \<in> set (drop 3 fs)) \<and> j < 512 \<longrightarrow>
        rd64 (ram s4) (slot g j) = ((rd64 (ram s3))(slot tbl 0 := root)) (slot g j)"
    by (auto simp: task_tables_0 aligned_def)
  have "rd64 (ram s4) (slot tbl j) = (if j = 0 then root else rd64 (ram s) (slot tbl j))" if "j < 512" for j
    using s4(6) that tbl(3) frame_ok_addr [OF tbl(2)] slot_eq_iff [of tbl tbl j 0] by (simp add: ram3)
  moreover have "rd64 (ram s4) (slot g j) = rd64 (ram s) (slot g j)" if g: "g \<in> set (drop 3 fs)" "j < 512" for g j
  proof -
    have gs: "g \<in> set fs" using g(1) by (rule in_set_dropD)
    then have "page_aligned g" "g \<noteq> tbl" using ok tbl(3) by (auto simp: pmem_ok_def frame_ok_addr)
    then show ?thesis
      using s4(6) g frame_ok_addr [OF tbl(2)] slot_eq_iff [of g tbl j 0] by (simp add: ram3)
  qed
  moreover have "new_task E s = Some (Ret (of_nat i) s4)"
  proof -
    have p: "pml4_table (tasks s3 ! i) = tbl" using i by (simp add: s3_def created_task_def)
    show ?thesis
      by (simp only: new_task_def andthen_apply gets_apply slot option.case outcome.case update_task_apply
          s1_def [symmetric] s2(1) ts3 s3_def [symmetric] p s4(1) ret_apply)
  qed
  moreover have "tasks s4 = (tasks s)[i := created_task tbl]" "current_task s4 = current_task s"
    using mapping_kept_tasks [OF s4(4)] t2(2) by (simp_all add: s3_def)
  ultimately show ?thesis using that s4(2,3,5) by blast
qed

text \<open>When every entry is in use.\<close>

lemma new_task_full_run:
  assumes "live s = {..<length (tasks s)}" "console_ready E s"
  obtains s' where "new_task E s = Some (Ret (- 1) s')" "only_io s s'"
    "console_out s' = console_out s @ PWARN (''??? Failed to find free space for new task!'' @ NL)"
proof -
  have r: "render (PWARN (''??? '' @ ''Failed to find free space for new task!'' @ NL)) [] =
      Some (PWARN (''??? '' @ ''Failed to find free space for new task!'' @ NL))"
    by (simp add: colour_defs)
  obtain s' where s': "WARN E (''Failed to find free space for new task!'' @ NL) s = Some (Ret () s')" "only_io s s'"
      "console_out s' = console_out s @ PWARN (''??? '' @ ''Failed to find free space for new task!'' @ NL)"
    using printk_ready [OF assms(2) r] unfolding WARN_def by blast
  have "free_slot (tasks s) 0 = None" using assms(1) by (simp add: free_slot_full)
  then have "new_task E s = Some (Ret (- 1) s')"
    by (simp only: new_task_def andthen_apply gets_apply option.case outcome.case s'(1) ret_apply)
  then show ?thesis using that s'(2,3) by auto
qed

subsection \<open>Creating tasks one after the other\<close>

text \<open>The table with the first \<open>k\<close> entries in use, and clean frames on the free list.\<close>

definition pool_ready :: "env \<Rightarrow> nat \<Rightarrow> u64 list \<Rightarrow> 'z scheduler_state_scheme \<Rightarrow> bool" where
  "pool_ready E k fs s \<longleftrightarrow> length (tasks s) = N_TASKS \<and> live s = {..<k} \<and> pmem_ok E s fs \<and>
     (\<forall>f \<in> set fs. clean_frame (ram s) f) \<and> console_ready E s"

lemma pool_slot: "pool_ready E k fs s \<Longrightarrow> k < N_TASKS \<Longrightarrow> free_slot (tasks s) 0 = Some k"
proof -
  assume p: "pool_ready E k fs s" "k < N_TASKS"
  then have l: "live s = {..<k}" "length (tasks s) = N_TASKS" by (simp_all add: pool_ready_def)
  obtain i where i: "free_slot (tasks s) 0 = Some i"
    using p(2) l free_slot_full [of s] by fastforce
  have "i \<notin> {..<k}" "\<forall>j<i. j \<in> {..<k}" using free_slot_least [OF i] by (simp_all add: l(1))
  then have "i = k" by (metis lessThan_iff linorder_neqE_nat nat_less_le)
  then show ?thesis using i by simp
qed

lemma pool_step:
  assumes p: "pool_ready E k fs s" and k: "k < N_TASKS" and n: "6 \<le> length fs"
  obtains s' where "new_task E s = Some (Ret (of_nat k) s')" "pool_ready E (Suc k) (drop 6 fs) s'"
    "tasks s' = (tasks s)[k := created_task (hd fs)]"
proof -
  obtain tbl root stack gs where fs: "fs = tbl # root # stack # gs" "3 \<le> length gs"
    using n by (auto simp: numeral_eq_Suc Suc_le_length_iff)
  have d: "drop 6 fs = drop 3 gs" by (simp add: fs(1))
  have h: "pmem_ok E s (tbl # root # stack # gs)" "clean_frame (ram s) root" "console_ready E s"
    "\<forall>f \<in> set gs. clean_frame (ram s) f" "length (tasks s) = N_TASKS" "live s = {..<k}"
    using p by (simp_all add: pool_ready_def fs(1))
  obtain s' where s': "new_task E s = Some (Ret (of_nat k) s')" "tasks s' = (tasks s)[k := created_task tbl]"
      "paging_ok E s' root (drop 3 gs)" "console_ready E s'"
      "\<And>g j. g \<in> set (drop 3 gs) \<Longrightarrow> j < 512 \<Longrightarrow> rd64 (ram s') (slot g j) = rd64 (ram s) (slot g j)"
    using new_task_run [OF h(1-3) pool_slot [OF p k] fs(2)] by metis
  have "\<forall>f \<in> set (drop 3 gs). clean_frame (ram s') f"
    using h(4) s'(5) in_set_dropD [of _ 3 gs] unfolding clean_frame_def by metis
  moreover have "live s' = {..<Suc k}"
    using h(5,6) k by (auto simp: live_def s'(2) nth_list_update created_task_def less_Suc_eq set_eq_iff)
  ultimately have "pool_ready E (Suc k) (drop 6 fs) s'"
    using paging_ok_pmem [OF s'(3)] s'(2,4) h(5) by (simp add: pool_ready_def d)
  then show ?thesis using that s'(1,2) by (simp add: fs(1))
qed

lemma pool_run:
  assumes "pool_ready E k fs s" "k + n \<le> N_TASKS" "6 * n \<le> length fs"
  shows "\<exists>s'. calls n (new_task E) s = Some (Ret (map of_nat [k..<k + n]) s') \<and> pool_ready E (k + n) (drop (6 * n) fs) s' \<and>
    (\<forall>j. tasks s' ! j = (if k \<le> j \<and> j < k + n then created_task (fs ! (6 * (j - k))) else tasks s ! j))"
  using assms
proof (induction n arbitrary: s k fs)
  case 0
  then show ?case by (auto simp: ret_apply)
next
  case (Suc n)
  have k: "k < N_TASKS" and six: "6 \<le> length fs" using Suc.prems by simp_all
  obtain s1 where s1: "new_task E s = Some (Ret (of_nat k) s1)" "pool_ready E (Suc k) (drop 6 fs) s1"
      "tasks s1 = (tasks s)[k := created_task (hd fs)]"
    using pool_step [OF Suc.prems(1) k six] by blast
  obtain s' where s': "calls n (new_task E) s1 = Some (Ret (map of_nat [Suc k..<Suc k + n]) s')"
      "pool_ready E (Suc k + n) (drop (6 * n) (drop 6 fs)) s'"
      "\<forall>j. tasks s' ! j = (if Suc k \<le> j \<and> j < Suc k + n then created_task (drop 6 fs ! (6 * (j - Suc k))) else tasks s1 ! j)"
    using Suc.IH [OF s1(2)] Suc.prems by fastforce
  have len: "k < length (tasks s)" using Suc.prems(1) k by (simp add: pool_ready_def)
  have "tasks s' ! j = (if k \<le> j \<and> j < k + Suc n then created_task (fs ! (6 * (j - k))) else tasks s ! j)" for j
  proof -
    consider "j = k" | "Suc k \<le> j" | "j < k" by linarith
    then show ?thesis
    proof cases
      case 1
      have "hd fs = fs ! 0" using six by (cases fs) simp_all
      with 1 show ?thesis using s'(3) len by (simp add: s1(3))
    next
      case 2
      have "drop 6 fs ! (6 * (j - Suc k)) = fs ! (6 + 6 * (j - Suc k))" using six by (rule nth_drop)
      moreover have "6 + 6 * (j - Suc k) = 6 * (j - k)" using 2 by simp
      ultimately show ?thesis using s'(3) 2 by (simp add: s1(3))
    qed (use s'(3) in \<open>simp add: s1(3)\<close>)
  qed
  moreover have "map of_nat [k..<k + Suc n] = (of_nat k :: u64) # map of_nat [Suc k..<Suc k + n]"
    by (simp only: add_Suc_right add_Suc upt_rec [of k "Suc (k + n)"]) (simp del: upt_Suc)
  moreover have "calls (Suc n) (new_task E) s = Some (Ret (of_nat k # map of_nat [Suc k..<Suc k + n]) s')"
    by (simp only: calls.simps andthen_apply s1(1) s'(1) option.case outcome.case ret_apply)
  ultimately show ?case using s'(2) by (intro exI [of _ s']) (simp add: add.commute)
qed

definition sched_text :: string where
  "sched_text = SYSTEM_SCHED @ ''Initialised task scheduler.'' @ NL"

lemma sched_message: "render (SYSTEM_SCHED @ ''Initialised task scheduler.'' @ NL) [] = Some sched_text"
  by (simp add: colour_defs sched_text_def)

text \<open>The state \<open>scheduler_init\<close> leaves, before its message.\<close>

definition tasks_cleared :: "'z scheduler_state_scheme \<Rightarrow> 'z scheduler_state_scheme" where
  "tasks_cleared s = s\<lparr>sched_regs_kernel := (sched_regs_kernel s)\<lparr>cr3 := CR3_BASE_ADDR (kernel_pml4_table s)\<rparr>,
     current_task := - 1, tasks := map (\<lambda>t. t\<lparr>present := 0\<rparr>) (tasks s)\<rparr>"

lemma scheduler_init_run:
  assumes "length (tasks s) = N_TASKS" "console_ready E s"
  obtains s' where "scheduler_init E s = Some (Ret () s')" "only_io (tasks_cleared s) s'" "console_ready E s'"
    "console_out s' = console_out s @ sched_text"
proof -
  have "console_ready E (tasks_cleared s)"
    using assms(2) console_ready_cong [of "tasks_cleared s" s E] by (simp add: tasks_cleared_def)
  then obtain s' where s': "printk E (SYSTEM_SCHED @ ''Initialised task scheduler.'' @ NL) [] (tasks_cleared s) =
      Some (Ret () s')" "console_ready E s'" "only_io (tasks_cleared s) s'"
      "console_out s' = console_out (tasks_cleared s) @ sched_text"
    using printk_ready [OF _ sched_message] by blast
  have "console_out (tasks_cleared s) = console_out s" by (rule console_out_cong) (simp_all add: tasks_cleared_def)
  note out = s'(4) [unfolded this]
  have "scheduler_init E s = printk E (SYSTEM_SCHED @ ''Initialised task scheduler.'' @ NL) [] (tasks_cleared s)"
    using assms(1)
    by (simp add: scheduler_init_def modify_andthen andthen_Ret [OF clear_tasks] tasks_cleared_def)
  then show ?thesis using that s' out by simp
qed

section \<open>Properties\<close>

text \<open>The function \<open>scheduler_init\<close> empties the task table. It marks each of the 128 entries as not
  present without touching their other fields, sets the current task to -1 and the page-table
  root of the kernel's register defaults, prints its message, and changes nothing else but
  the trace.\<close>

theorem scheduler_init_empties:
  assumes "length (tasks s) = N_TASKS" "console_ready E s"
  shows "\<exists>s'. scheduler_init E s = Some (Ret () s') \<and> live s' = {} \<and> length (tasks s') = N_TASKS \<and>
    (\<forall>i < N_TASKS. tasks s' ! i = (tasks s ! i)\<lparr>present := 0\<rparr>) \<and> current_task s' = - 1 \<and>
    sched_regs_kernel s' = (sched_regs_kernel s)\<lparr>cr3 := CR3_BASE_ADDR (kernel_pml4_table s)\<rparr> \<and>
    ram s' = ram s \<and> aspace s' = aspace s \<and> first_page_frame s' = first_page_frame s"
proof -
  obtain s' where s': "scheduler_init E s = Some (Ret () s')" "only_io (tasks_cleared s) s'"
    using scheduler_init_run [OF assms] by blast
  have t: "tasks s' = map (\<lambda>t. t\<lparr>present := 0\<rparr>) (tasks s)" "current_task s' = - 1"
    "sched_regs_kernel s' = (sched_regs_kernel s)\<lparr>cr3 := CR3_BASE_ADDR (kernel_pml4_table s)\<rparr>"
    using only_io_tasks [OF s'(2)] by (simp_all add: tasks_cleared_def)
  have "ram s' = ram s" "aspace s' = aspace s" "first_page_frame s' = first_page_frame s"
    using only_io_fields [OF s'(2)] by (simp_all add: tasks_cleared_def)
  then show ?thesis using s'(1) t assms(1) by (intro exI [of _ s']) (simp add: live_def)
qed

text \<open>C9: \<open>new_task\<close> refines taking the least unused task id. It returns that id; afterwards
  exactly this id is in use in addition, its entry describes a ready user task with default
  registers and no run time, every other entry and the current task are as before; three
  frames and three page tables are used.\<close>

theorem new_task_creates:
  fixes s :: "'z scheduler_state_scheme"
  assumes "pmem_ok E s (tbl # root # stack # fs)" "clean_frame (ram s) root" "console_ready E s"
    and "length (tasks s) = N_TASKS" "live s \<noteq> {..<N_TASKS}" and "3 \<le> length fs"
  shows "\<exists>i s'. new_task E s = Some (Ret (of_nat i) s') \<and> i < N_TASKS \<and> i \<notin> live s \<and> (\<forall>j<i. j \<in> live s) \<and>
    live s' = insert i (live s) \<and> length (tasks s') = N_TASKS \<and>
    (\<forall>j. j \<noteq> i \<longrightarrow> tasks s' ! j = tasks s ! j) \<and> current_task s' = current_task s \<and>
    tasks s' ! i = \<lparr>present = 1, state = READY, elapsed_total = 0, elapsed_since_run = 0,
      regs = default_regs_userspace, pml4_table = tbl, privilege_level = 3\<rparr> \<and>
    pmem_ok E s' (drop 3 fs)"
proof -
  obtain i where slot: "free_slot (tasks s) 0 = Some i"
    using assms(4,5) free_slot_full [of s] by fastforce
  note least = free_slot_least [OF slot]
  obtain s' where s': "new_task E s = Some (Ret (of_nat i) s')" "tasks s' = (tasks s)[i := created_task tbl]"
    "current_task s' = current_task s" "paging_ok E s' root (drop 3 fs)"
    using new_task_run [OF assms(1-3) slot assms(6)] by metis
  have "live s' = insert i (live s)"
    using least(1) by (auto simp: live_def s'(2) nth_list_update created_task_def)
  then show ?thesis
    using s' least assms(4) paging_ok_pmem [OF s'(4)]
    by (intro exI [of _ i] exI [of _ s']) (auto simp: created_task_def)
qed

text \<open>C10: the address space of a new task is lost. \<open>new_task\<close> passes the frame it allocated for
  the top-level table where \<open>init_task_space_from_mem\<close> expects a pointer to a pointer. So the
  tables are built under another frame, \<open>root\<close>, whose address is written into the first
  entry of the task's table: there the present bit is clear, and no address at all is
  mapped by the table that the task's entry names, while the stack is mapped under \<open>root\<close>.\<close>

theorem new_task_maps_nothing:
  fixes s :: "'z scheduler_state_scheme"
  assumes "pmem_ok E s (tbl # root # stack # fs)" "clean_frame (ram s) root" "clean_frame (ram s) tbl" "console_ready E s"
    and "free_slot (tasks s) 0 = Some i" and "3 \<le> length fs"
  shows "\<exists>s'. new_task E s = Some (Ret (of_nat i) s') \<and> pml4_table (tasks s' ! i) = tbl \<and>
    (\<forall>va. translate (ram s') (pml4_table (tasks s' ! i)) va = None) \<and> rd64 (ram s') tbl = root \<and> root \<noteq> tbl \<and>
    (\<forall>k. unat k < 4096 \<longrightarrow> translate (ram s') root (FLUX_BASE_VIRT - 4096 + k) = Some (stack + k))"
proof -
  obtain s' where s': "new_task E s = Some (Ret (of_nat i) s')" "tasks s' = (tasks s)[i := created_task tbl]"
    "task_space stack 0 0 (ram s') root"
    "\<And>j. j < 512 \<Longrightarrow> rd64 (ram s') (slot tbl j) = (if j = 0 then root else rd64 (ram s) (slot tbl j))"
    using new_task_run [OF assms(1,2,4-6)] by metis
  have fr: "frame_addr tbl" "page_aligned root" "root \<noteq> tbl"
    using assms(1) pmem_ok_distinct [OF assms(1)] by (auto simp: pmem_ok_def frame_ok_addr)
  have p: "pml4_table (tasks s' ! i) = tbl"
    using free_slot_least(1) [OF assms(5)] by (simp add: s'(2) created_task_def)
  have "rd64 (ram s') (slot tbl j) AND PSE_PRESENT = 0" if "j < 512" for j
    using s'(4) [OF that] assms(3) that page_aligned_not_present [OF fr(2)] by (simp add: clean_frame_def)
  then have "page_at (ram s') tbl va = None" for va
    using extract_index_less(1) [of va] by (simp add: page_at_root [OF fr(1)] page_path_def Let_def)
  then have "translate (ram s') tbl va = None" for va by (simp add: translate_def)
  moreover have "rd64 (ram s') tbl = root" using s'(4) [of 0] by (simp add: slot_def)
  ultimately show ?thesis using s'(1,3) p fr(3) unfolding task_space_def by auto
qed

text \<open>When all 128 entries are in use, \<open>new_task\<close> warns, returns -1 and leaves the table, the
  allocator and memory as they are.\<close>

theorem new_task_full:
  assumes "live s = {..<length (tasks s)}" "console_ready E s"
  shows "\<exists>s'. new_task E s = Some (Ret (- 1) s') \<and> only_io s s' \<and>
    console_out s' = console_out s @ PWARN (''??? Failed to find free space for new task!'' @ NL)"
  using new_task_full_run [OF assms] by blast

text \<open>C11: filling the task table. From an empty table, with six clean frames per task, \<open>n \<le> 128\<close>
  calls of \<open>new_task\<close> return the ids \<open>0, ..., n - 1\<close> in this order; each task has a table frame
  of its own, taken from the free list, and the frames after the first \<open>6 n\<close> are still free.
  When the table is full, the next call returns -1 and changes no entry.\<close>

theorem new_task_sequence:
  fixes s :: "'z scheduler_state_scheme"
  assumes "length (tasks s) = N_TASKS" "live s = {}" "pmem_ok E s fs" "\<forall>f \<in> set fs. clean_frame (ram s) f"
    and "console_ready E s" and "n \<le> N_TASKS" "6 * n \<le> length fs"
  shows "\<exists>s'. calls n (new_task E) s = Some (Ret (map of_nat [0..<n]) s') \<and> live s' = {..<n} \<and>
    (\<forall>i<n. tasks s' ! i = created_task (fs ! (6 * i))) \<and>
    distinct (map (\<lambda>i. pml4_table (tasks s' ! i)) [0..<n]) \<and> pmem_ok E s' (drop (6 * n) fs) \<and>
    (n = N_TASKS \<longrightarrow> (\<exists>s''. new_task E s' = Some (Ret (- 1) s'') \<and> tasks s'' = tasks s'))"
proof -
  have "pool_ready E 0 fs s" using assms(1-5) by (simp add: pool_ready_def)
  from pool_run [OF this, of n, OF _ assms(7)] obtain s' where r: "calls n (new_task E) s = Some (Ret (map of_nat [0..<0 + n]) s')"
      "pool_ready E (0 + n) (drop (6 * n) fs) s'"
      "\<forall>j. tasks s' ! j = (if 0 \<le> j \<and> j < 0 + n then created_task (fs ! (6 * (j - 0))) else tasks s ! j)"
    using assms(6) by auto
  have s': "calls n (new_task E) s = Some (Ret (map of_nat [0..<n]) s')" "pool_ready E n (drop (6 * n) fs) s'"
      "\<And>i. i < n \<Longrightarrow> tasks s' ! i = created_task (fs ! (6 * i))"
    using r by simp_all
  have p: "live s' = {..<n}" "length (tasks s') = N_TASKS" "console_ready E s'" "pmem_ok E s' (drop (6 * n) fs)"
    using s'(2) by (simp_all add: pool_ready_def)
  have "fs ! (6 * i) = fs ! (6 * j) \<longleftrightarrow> i = j" if "i < n" "j < n" for i j
    using nth_eq_iff_index_eq [OF pmem_ok_distinct [OF assms(3)], of "6 * i" "6 * j"] that assms(7) by simp
  then have "distinct (map (\<lambda>i. pml4_table (tasks s' ! i)) [0..<n])"
    by (auto simp: distinct_map inj_on_def s'(3) created_task_def)
  moreover have "\<exists>s''. new_task E s' = Some (Ret (- 1) s'') \<and> tasks s'' = tasks s'" if "n = N_TASKS"
  proof -
    have "live s' = {..<length (tasks s')}" using p(1,2) that by simp
    then obtain s'' where "new_task E s' = Some (Ret (- 1) s'')" "only_io s' s''"
      using new_task_full_run [OF _ p(3)] by blast
    then show ?thesis using only_io_tasks [of s' s''] by blast
  qed
  ultimately show ?thesis using s'(1,3) p by (intro exI [of _ s']) simp
qed

subsection \<open>Witnesses\<close>

definition blank_task :: task where
  "blank_task = \<lparr>present = 0, state = RUNNING, elapsed_total = 0, elapsed_since_run = 0,
     regs = default_regs_userspace, pml4_table = 0, privilege_level = 0\<rparr>"

text \<open>The machine with all its frames free and \<open>n\<close> of its task entries in use.\<close>

definition big_sched :: "nat \<Rightarrow> scheduler_state" where
  "big_sched n = \<lparr>io_trace = io_trace big_started, ram = ram big_started, aspace = aspace big_started,
     com_ports = com_ports big_started, primary_com_port = primary_com_port big_started,
     first_page_frame = first_page_frame big_started, n_free_page_frames = n_free_page_frames big_started,
     kernel_pml4_table = 0x9000, gdtr = \<lparr>gdtr_limit = 0, gdtr_base = 0\<rparr>, cpu_gdtr = None, cs_reg = 0, data_regs = [],
     interrupts_enabled = False, idt_table = initial_idt_table, idtr = None,
     tasks = replicate n (blank_task\<lparr>present := 1\<rparr>) @ replicate (N_TASKS - n) blank_task, current_task = 0,
     sched_regs_kernel = default_regs_kernel\<rparr>"

lemma big_sched_facts:
  "pmem_ok big_env (big_sched n) (rev (usable_frames big_memmap))" "console_ready big_env (big_sched n)"
  "page_aligned g \<Longrightarrow> clean_frame (ram (big_sched n)) g"
  "n \<le> N_TASKS \<Longrightarrow> length (tasks (big_sched n)) = N_TASKS"
  using big_started_facts(1-3) console_ready_cong [of "big_sched n" big_started big_env]
  by (simp_all add: big_sched_def pmem_ok_def)

lemma big_sched_slot: "free_slot (tasks (big_sched 2)) 0 = Some 2"
proof -
  have "replicate (N_TASKS - 2) blank_task = replicate (Suc 125) blank_task" by (simp add: N_TASKS_def)
  then have "replicate (N_TASKS - 2) blank_task = blank_task # replicate 125 blank_task" by (simp only: replicate_Suc)
  then have "tasks (big_sched 2) = blank_task\<lparr>present := 1\<rparr> # blank_task\<lparr>present := 1\<rparr> # blank_task # replicate 125 blank_task"
    by (simp add: big_sched_def numeral_2_eq_2)
  then show ?thesis by (simp add: blank_task_def)
qed

theorem scheduler_init_empties_witness:
  "\<exists>s'. scheduler_init big_env (big_sched 2) = Some (Ret () s') \<and> live s' = {} \<and> cr3 (sched_regs_kernel s') = 0x9000"
proof -
  have l: "length (tasks (big_sched 2)) = N_TASKS" by (rule big_sched_facts(4)) (simp add: N_TASKS_def)
  obtain s' where s': "scheduler_init big_env (big_sched 2) = Some (Ret () s')" "live s' = {}"
      "sched_regs_kernel s' = (sched_regs_kernel (big_sched 2))\<lparr>cr3 := CR3_BASE_ADDR (kernel_pml4_table (big_sched 2))\<rparr>"
    using scheduler_init_empties [OF l big_sched_facts(2)] by blast
  have "cr3 (sched_regs_kernel s') = 0x9000" by (simp add: s'(3) big_sched_def CR3_BASE_ADDR_def)
  with s'(1,2) show ?thesis by blast
qed

lemma big_three_frames:
  obtains tbl root stack fs where "rev (usable_frames big_memmap) = tbl # root # stack # fs" "3 \<le> length fs"
    "page_aligned tbl" "page_aligned root"
proof -
  obtain tbl root gs where g: "rev (usable_frames big_memmap) = tbl # root # gs" "length gs = 0x3ffffe"
    using big_frames by blast
  then obtain stack fs where "gs = stack # fs" "3 \<le> length fs" by (cases gs) auto
  moreover have "page_aligned tbl" "page_aligned root" using big_started_facts(1) by (simp_all add: g(1) pmem_ok_def)
  ultimately show ?thesis using that g(1) by blast
qed

theorem new_task_creates_witness:
  "\<exists>i s'. new_task big_env (big_sched 2) = Some (Ret (of_nat i) s') \<and> state (tasks s' ! i) = READY"
proof -
  obtain tbl root stack fs where f: "rev (usable_frames big_memmap) = tbl # root # stack # fs" "3 \<le> length fs"
    "page_aligned root" using big_three_frames by metis
  have l: "length (tasks (big_sched 2)) = N_TASKS" by (rule big_sched_facts(4)) (simp add: N_TASKS_def)
  have "live (big_sched 2) \<noteq> {..<N_TASKS}" using free_slot_full [of "big_sched 2"] big_sched_slot l by auto
  from new_task_creates [OF big_sched_facts(1) [unfolded f(1)] big_sched_facts(3) [OF f(3)] big_sched_facts(2) l this f(2)]
  obtain i s' where "new_task big_env (big_sched 2) = Some (Ret (of_nat i) s')" "state (tasks s' ! i) = READY" by auto
  then show ?thesis by blast
qed

theorem new_task_maps_nothing_witness:
  "\<exists>s'. new_task big_env (big_sched 2) = Some (Ret 2 s') \<and>
     translate (ram s') (pml4_table (tasks s' ! 2)) 0xffffffff7ffff000 = None"
proof -
  obtain tbl root stack fs where f: "rev (usable_frames big_memmap) = tbl # root # stack # fs" "3 \<le> length fs"
    "page_aligned tbl" "page_aligned root" using big_three_frames by metis
  from new_task_maps_nothing [OF big_sched_facts(1) [unfolded f(1)] big_sched_facts(3) [OF f(4)] big_sched_facts(3) [OF f(3)]
      big_sched_facts(2) big_sched_slot f(2)]
  obtain s' where "new_task big_env (big_sched 2) = Some (Ret (of_nat 2) s')"
      "\<forall>va. translate (ram s') (pml4_table (tasks s' ! 2)) va = None" by blast
  then show ?thesis by auto
qed

theorem new_task_full_witness:
  "\<exists>s'. new_task big_env (big_sched 128) = Some (Ret (- 1) s')"
proof -
  have "free_slot (tasks (big_sched 128)) 0 = None"
    unfolding free_slot_None by (simp add: big_sched_def N_TASKS_def)
  then have "live (big_sched 128) = {..<length (tasks (big_sched 128))}" by (simp only: free_slot_full)
  from new_task_full [OF this big_sched_facts(2)] show ?thesis by blast
qed

theorem new_task_sequence_witness:
  "\<exists>s'. calls 128 (new_task big_env) (big_sched 0) = Some (Ret (map of_nat [0..<128]) s') \<and>
     (\<exists>s''. new_task big_env s' = Some (Ret (- 1) s''))"
proof -
  let ?fs = "rev (usable_frames big_memmap)"
  have l: "length (tasks (big_sched 0)) = N_TASKS" by (rule big_sched_facts(4)) simp
  have "live (big_sched 0) = {}" by (auto simp: live_def big_sched_def blank_task_def)
  moreover have "\<forall>f \<in> set ?fs. clean_frame (ram (big_sched 0)) f"
  proof
    fix f assume "f \<in> set ?fs"
    then have "frame_ok big_env f" using big_sched_facts(1) [of 0] unfolding pmem_ok_def by blast
    then show "clean_frame (ram (big_sched 0)) f" using big_sched_facts(3) frame_ok_addr frame_addr_aligned by blast
  qed
  moreover have "6 * N_TASKS \<le> length ?fs" by (simp add: big_length N_TASKS_def)
  ultimately show ?thesis
    using new_task_sequence [OF l _ big_sched_facts(1) _ big_sched_facts(2), of N_TASKS] by (auto simp: N_TASKS_def)
qed

end
