(* ===== verification/Boot.thy ===== *)
theory Boot
  imports Scheduler Serial_Console
begin

section \<open>Booting (\<open>main.c\<close>)\<close>

text \<open>
  The kernel's entry point, which calls the other components in order, and what becomes of
  it: the new address space is in place, and the first use of the allocator after the switch
  faults, unless a module happens to be mapped where the allocator looks.
\<close>

definition FLUX_VERS_STRING :: string where "FLUX_VERS_STRING = ''v0.1''"

text \<open>Two endless loops: of \<open>hlt\<close>, and of an instruction that changes nothing.\<close>

definition main_done :: "('a, 'z scheduler_state_scheme) kmon" where
  "main_done = stop Hlt"

definition main_loop :: "('a, 'z scheduler_state_scheme) kmon" where
  "main_loop = stop Spin"

text \<open>The body of the loop over the modules. The \<open>iretq\<close> leaves for the module's code with the
  user selectors; what runs there is not the kernel's code, and the run ends. To an address that is
  not canonical the instruction does not go. That the selectors name the user's segments of the
  loaded table is a property of \<open>gdt_init\<close>. The result of \<open>init_task_space_from_mem\<close> is not looked
  at.\<close>

definition start_module :: "env \<Rightarrow> limine_file \<Rightarrow> (unit, 'z scheduler_state_scheme) kmon" where
  "start_module E file =
     andthen (printk E (''Initialising task memory layout.'' @ NL) []) (\<lambda>_.
     andthen (printk E (''Task pmem begins at %p'' @ NL) [VInt (file_address file - FLUX_BASE_VIRT)]) (\<lambda>_.
     andthen (init_task_space_from_mem E (task_pml4_address E) (file_address file - FLUX_BASE_VIRT) 1) (\<lambda>_.
     andthen (printk E (''Calling module code '' @ [CHR 0x27] @ ''%s'' @ [CHR 0x27] @ '' @ 0x%p'' @ NL)
       [VStr (file_path file), VInt (file_address file)]) (\<lambda>_.
     stop (if canonical (file_address file)
       then User_Mode (file_address file) (INIT_SEGMENT_SELECTOR 3 0 3) (INIT_SEGMENT_SELECTOR 3 0 4)
       else General_Protection)))))"

text \<open>The logo, with a back quote for each apostrophe.\<close>

definition logo_rows :: "string list" where
  "logo_rows =
    [''                     .`                                   ..                    '',
     ''                .`.  oKkl.                           .`.  ,;;,.                 '',
     ''             .;lxk;  oNXX:                         ;dOO,  .;:::.                '',
     ''         .,:okOOOx`  oNXX:                        .kXX0,   .:;:,     ..         '',
     ''      .;lxOOOOxl;.   oNXX:                 ..     .kXX0,    ,:;:.   ;;:;`       '',
     ''   .:okOOOkoc,.      oNXX:             .:lx0:     .kXX0,    .:::;  ,::::;       '',
     ''   l0OOkl;.          oNXX:             oNNXK:     .kXX0,     `:;:`,:;;:;        '',
     ''   lO0Ol         .   oNXX:             dNNXK:     .kXX0,      ;:::::::;.        '',
     ''   oO0Oc     .`:ox,  oNNX:             dNNXK:     .kXX0,      .:;;;;:;.         '',
     ''   oO0Oc  .;ldkOOk,  oNXX:             dNNXK:     .kXX0,      .;:;;:;.          '',
     ''   oO0Od:okOOOkdc,   oNXXc             dNNXX:     .kXX0,      ,:::;:.           '',
     ''   oO0OOOOOxl;.      :xk0c             dNNXX:     .kXX0,     ,::::::,           '',
     ''   l0OOkdc,.         :cccl:,.          dNNXX:     `kK0k,    `:;;:;:;:.          '',
     ''   lO0Ol             .,:ccccl:;`.     .dNNXK:  .,cdOOOk,   `:;,;;`:;:;          '',
     ''   oO0Oc                .`;clcccc:,.  .dNNXKo;lxOOOOdl,.  `:;,;:. `:;:`         '',
     ''   oO0Oc                   .`,:ccccl` .oNXK0OOOOko:`.     .;;::.   ;:;:.        '',
     ''   oO0Oc                       .,;co` .lK0kOOxl;.            ..    .:;:,        '',
     ''   oKxl.                          ... .lKOo:`.                      ,:;:.       '',
     ''   ..                                  .,.                          .`;;:.      '',
     ''                                                                       ...      '']"

definition logo :: string where
  "logo = concat (map (\<lambda>row. map (\<lambda>c. if c = CHR ''`'' then CHR 0x27 else c) row @ NL) logo_rows)"

text \<open>\<open>_start\<close>, in two parts: up to the first allocation, and from there on.\<close>

definition start_modules :: "env \<Rightarrow> (unit, 'z scheduler_state_scheme) kmon" where
  "start_modules E =
     andthen (printk E (''Done.'' @ NL) []) (\<lambda>_.
     deref (module_response E) (\<lambda>mod_response.
     andthen (printk E (''Limine modules loaded with %d modules.'' @ NL)
       [VInt (of_nat (length (module_files mod_response)))]) (\<lambda>_.
     andthen (for_each (start_module E) (module_files mod_response)) (\<lambda>_.
     andthen (printk E (PGOOD (''Flux Kernel '' @ FLUX_VERS_STRING @ '' initialised successfully!'' @ NL)) []) (\<lambda>_.
     andthen (when_do PRETTY_LOGO (printk E logo [])) (\<lambda>_.
     main_done))))))"

definition start :: "env \<Rightarrow> (unit, 'z scheduler_state_scheme) kmon" where
  "start E =
     andthen (serial_init E) (\<lambda>_.
     andthen (mem_init E) (\<lambda>_.
     andthen paging_init (\<lambda>_.
     andthen (gdt_init E) (\<lambda>_.
     andthen (idt_init E) (\<lambda>_.
     andthen (scheduler_init E) (\<lambda>_.
     andthen (printk E ''Trying to get block?'' []) (\<lambda>_.
     andthen (get_phys_block E) (\<lambda>_.
     start_modules E))))))))"

section \<open>The switch of address spaces\<close>

lemma CR3_frame: "frame_addr a \<Longrightarrow> CR3_BASE_ADDR a = a"
  using PSE_PTR_frame [of a] by (simp add: CR3_BASE_ADDR_def PSE_PTR_def)

lemma frame_not_high: "frame_addr a \<Longrightarrow> \<not> high a"
  by (simp add: frame_addr_def high_def word_le_nat_alt)

lemma slot_not_high:
  assumes "frame_addr a" "i < 512"
  shows "\<not> high (slot a i)"
proof -
  have "unat (slot a i) \<le> unat a + 8 * unat i"
    using assms(2) unat_times_8 [of i] by (simp add: slot_def unat_word_ariths(1) mult.commute)
  then show ?thesis using assms by (simp add: frame_addr_def high_def word_le_nat_alt word_less_nat_alt)
qed

lemma paging_init_apply: "paging_init s = Some (Ret () (s\<lparr>aspace := Some (CR3_BASE_ADDR (kernel_pml4_table s))\<rparr>))"
  by (simp add: paging_init_def set_cr3_def kmon_simps)

text \<open>After the switch the allocator looks for the link of its first frame at an address that the
  kernel's tables translate, or not.\<close>

lemma get_phys_block_switched:
  assumes "aspace s = Some root" "kernel_space mm ka hh (ram s) root" "first_page_frame s = f" "f \<noteq> 0" "aligned 8 f"
  shows "get_phys_block E s = (case kernel_map mm ka hh f of
      None \<Rightarrow> Some (Stop (Page_Fault f) s)
    | Some p \<Rightarrow> Some (Ret f (s\<lparr>first_page_frame := rd64 (ram s) p, n_free_page_frames := n_free_page_frames s - 1\<rparr>)))"
proof -
  have t: "translate (ram s) root f = kernel_map mm ka hh f" using assms(2) by (simp add: kernel_space_def)
  then have l: "load64 E f s = (case kernel_map mm ka hh f of
      None \<Rightarrow> Some (Stop (Page_Fault f) s) | Some p \<Rightarrow> Some (Ret (rd64 (ram s) p) s))"
    by (simp add: load64_def phys_addr_def assms(1,5))
  show ?thesis
  proof (cases "kernel_map mm ka hh f")
    case None
    then have "load64 E f s = Some (Stop (Page_Fault f) s)" using l by simp
    then show ?thesis
      using assms(3,4) None by (simp add: get_phys_block_def gets_andthen andthen_Stop [where m = "load64 E f"])
  next
    case (Some p)
    then have "load64 E f s = Some (Ret (rd64 (ram s) p) s)" using l by simp
    then show ?thesis
      using assms(3,4) Some
      by (simp add: get_phys_block_def gets_andthen andthen_Ret [where m = "load64 E f"] kmon_simps switched_off)
  qed
qed

section \<open>The run up to the first allocation\<close>

lemma more_fields:
  fixes s s' :: "'z scheduler_state_scheme"
  assumes "paging_state.more s' = paging_state.more s"
  shows "idt_table s' = idt_table s" "tasks s' = tasks s"
  using assms by (cases s; cases s'; simp)+

lemma serial_only_fields:
  fixes s s' :: "'z scheduler_state_scheme"
  assumes "serial_only s s'"
  shows "ram s' = ram s" "aspace s' = aspace s" "idt_table s' = idt_table s" "tasks s' = tasks s"
  using assms by (auto simp: serial_only_def)

text \<open>The state the loader starts the kernel in: its own address space, C's static
  initialisation, and devices that answer.\<close>

definition loaded :: "env \<Rightarrow> 'z scheduler_state_scheme \<Rightarrow> bool" where
  "loaded E s \<longleftrightarrow> aspace s = None \<and> com_ports s = initial_com_ports \<and> primary_com_port s = None \<and>
     idt_table s = initial_idt_table \<and> length (tasks s) = N_TASKS \<and> inj (isr_address E) \<and>
     (\<forall>i<COM_PORT_COUNT. \<forall>t. sends_eventually E (initial_com_ports ! i) t) \<and>
     (\<exists>i<COM_PORT_COUNT. echoes E (initial_com_ports ! i))"

lemma serial_run:
  assumes "loaded E s"
  obtains s' where "serial_init E s = Some (Ret () s')" "console_ready E s'" "serial_only s s'"
proof -
  have "length (com_ports s) = COM_PORT_COUNT" "primary_com_port s = None"
    using assms by (simp_all add: loaded_def initial_com_ports_def COM_PORT_COUNT_def)
  then obtain s' where s': "serial_only s s'" "\<forall>i<COM_PORT_COUNT. echoes E (com_ports s ! i) \<longrightarrow> port_ready s' i"
    "if \<exists>i<COM_PORT_COUNT. port_ready s' i
     then serial_init E s = Some (Ret () s') \<and> console_ready E s' \<and>
       primary_com_port s' = Some (LEAST i. port_ready s' i)
     else serial_init E s = Some (Stop Hlt s') \<and> primary_com_port s' = None"
    using serial_init_picks_first [of s E] assms by (auto simp: loaded_def)
  have "\<exists>i<COM_PORT_COUNT. port_ready s' i" using s'(2) assms by (auto simp: loaded_def)
  then show ?thesis using that s'(1,3) by simp
qed

text \<open>The answers of the boot loader, and the frames the kernel map needs: its root and its tables.\<close>

definition boot_answers :: "env \<Rightarrow> limine_memmap_response \<Rightarrow> limine_kernel_address_response \<Rightarrow>
    limine_hhdm_response \<Rightarrow> bool" where
  "boot_answers E mm ka hh \<longleftrightarrow> memmap_response E = Some mm \<and> kernel_address_response E = Some ka \<and>
     hhdm_response E = Some hh \<and> memory_map_ok E mm \<and> entries_fit mm \<and>
     length (usable_frames mm) < 2 ^ 31 \<and> kernel_tables mm ka hh < length (usable_frames mm)"

text \<open>The frame that the allocator gives out first after the kernel map is made.\<close>

definition next_frame ::
    "limine_memmap_response \<Rightarrow> limine_kernel_address_response \<Rightarrow> limine_hhdm_response \<Rightarrow> u64" where
  "next_frame mm ka hh = rev (usable_frames mm) ! Suc (kernel_tables mm ka hh)"

text \<open>The memory is initialised and the new address space loaded. The allocator has a frame left when
  the kernel map has not taken the last.\<close>

definition switched :: "env \<Rightarrow> limine_memmap_response \<Rightarrow> limine_kernel_address_response \<Rightarrow>
    limine_hhdm_response \<Rightarrow> 'z paging_state_scheme \<Rightarrow> bool" where
  "switched E mm ka hh s \<longleftrightarrow> aspace s = Some (kernel_pml4_table s) \<and>
     kernel_space mm ka hh (ram s) (kernel_pml4_table s) \<and>
     frame_addr (kernel_pml4_table s) \<and>
     (if kernel_tables mm ka hh + 1 < length (usable_frames mm)
      then first_page_frame s = next_frame mm ka hh \<and> next_frame mm ka hh \<noteq> 0 \<and> frame_addr (next_frame mm ka hh)
      else first_page_frame s = 0)"

lemma memory_run:
  assumes a: "boot_answers E mm ka hh" and s: "aspace s = None" "console_ready E s"
    and clean: "clean_frame (ram s) (last (usable_frames mm))"
  obtains s' where "andthen (mem_init E) (\<lambda>_. paging_init) s = Some (Ret () s')" "switched E mm ka hh s'"
    "console_ready E s'" "paging_state.more s' = paging_state.more s"
    "console_out s' = console_out s @ mem_text mm ka hh"
proof -
  define us where "us = usable_frames mm"
  have env: "memmap_response E = Some mm" "kernel_address_response E = Some ka" "hhdm_response E = Some hh"
    "memory_map_ok E mm" "entries_fit mm" "length us < 2 ^ 31" "kernel_tables mm ka hh < length us"
    using a by (simp_all add: boot_answers_def us_def)
  have "us \<noteq> []" using env(7) by auto
  then have rev: "rev us = last us # rev (butlast us)" by (metis append_butlast_last_id rev_eq_Cons_iff rev_rev_ident)
  have le: "kernel_tables mm ka hh \<le> length (rev (butlast us))" using env(7) by simp
  obtain n s1 where s1: "mem_init E s = Some (Ret n s1)" "kernel_pml4_table s1 = last us" "console_ready E s1"
      "paging_ok E s1 (last us) (drop (kernel_tables mm ka hh) (rev (butlast us)))"
      "kernel_space mm ka hh (ram s1) (last us)" "paging_state.more s1 = paging_state.more s"
      "console_out s1 = console_out s @ mem_text mm ka hh"
    using mem_init_run [OF env(1-5) s, folded us_def, OF rev env(6) le] clean unfolding us_def by blast
  let ?fs = "drop (kernel_tables mm ka hh) (rev (butlast us))"
  have first: "if kernel_tables mm ka hh + 1 < length us
    then first_page_frame s1 = next_frame mm ka hh \<and> next_frame mm ka hh \<noteq> 0 \<and> frame_addr (next_frame mm ka hh)
    else first_page_frame s1 = 0"
  proof (cases ?fs)
    case Nil
    then have "\<not> kernel_tables mm ka hh + 1 < length us" using arg_cong [OF Nil, of length] by simp
    then show ?thesis using paging_ok_pmem [OF s1(4)] Nil by (simp add: pmem_ok_def)
  next
    case (Cons f gs)
    then have n: "kernel_tables mm ka hh + 1 < length us"
      using arg_cong [OF Cons, of length] unfolding length_drop length_rev length_butlast by simp
    have "rev (butlast us) ! kernel_tables mm ka hh = f" using Cons n by (metis hd_drop_conv_nth length_butlast
        length_rev less_diff_conv list.sel(1))
    then have "next_frame mm ka hh = f" by (simp add: next_frame_def rev us_def [symmetric])
    then show ?thesis using n paging_ok_pmem [OF s1(4)] by (simp add: Cons pmem_ok_def frame_ok_addr)
  qed
  have root: "frame_addr (last us)" using frame_ok_addr [OF paging_ok_root [OF s1(4)]] .
  define s2 where "s2 = s1\<lparr>aspace := Some (last us)\<rparr>"
  have "andthen (mem_init E) (\<lambda>_. paging_init) s = Some (Ret () s2)"
    using paging_init_apply [of s1] by (simp add: andthen_Ret [where m = "mem_init E", OF s1(1)] s2_def s1(2) CR3_frame [OF root])
  moreover have "switched E mm ka hh s2"
    using s1(2,5) first [unfolded us_def] root by (simp add: switched_def s2_def us_def)
  moreover have "console_ready E s2" using s1(3) console_ready_cong [of s2 s1 E] by (simp add: s2_def)
  moreover have "console_out s2 = console_out s1" by (rule console_out_cong) (simp_all add: s2_def)
  ultimately show ?thesis using that s1(6,7) by (simp add: s2_def)
qed

lemma switched_io: "only_io s s' \<Longrightarrow> switched E mm ka hh s' = switched E mm ka hh s"
  by (auto simp: only_io_def switched_def)

lemma switched_cong:
  assumes "aspace s' = aspace s" "ram s' = ram s" "kernel_pml4_table s' = kernel_pml4_table s"
    "first_page_frame s' = first_page_frame s"
  shows "switched E mm ka hh s' = switched E mm ka hh s"
  using assms by (simp add: switched_def)

lemma interrupts_ready_cong:
  assumes "cpu_gdtr s' = cpu_gdtr s" "idtr s' = idtr s" "idt_table s' = idt_table s"
  shows "interrupts_ready E s' = interrupts_ready E s"
  using assms by (simp add: interrupts_ready_def)

text \<open>What the kernel prints once its console works.\<close>

definition boot_text :: "env \<Rightarrow> limine_memmap_response \<Rightarrow> limine_kernel_address_response \<Rightarrow> limine_hhdm_response \<Rightarrow> string" where
  "boot_text E mm ka hh = mem_text mm ka hh @ gdt_text E @ sched_text @ ''Trying to get block?''"

lemma start_run:
  fixes s :: "'z scheduler_state_scheme"
  assumes a: "boot_answers E mm ka hh" and s: "loaded E s" and clean: "clean_frame (ram s) (last (usable_frames mm))"
  obtains s' where "start E s = andthen (get_phys_block E) (\<lambda>_. start_modules E) s'" "switched E mm ka hh s'"
    "interrupts_ready E s'" "console_ready E s'" "live s' = {}"
    "\<exists>s1. serial_init E s = Some (Ret () s1) \<and> console_out s' = console_out s1 @ boot_text E mm ka hh"
proof -
  obtain s1 where s1: "serial_init E s = Some (Ret () s1)" "console_ready E s1" "serial_only s s1"
    using serial_run [OF s] by blast
  note f1 = serial_only_fields [OF s1(3)]
  have a1: "aspace s1 = None" using s f1(2) by (simp add: loaded_def)
  have c1: "clean_frame (ram s1) (last (usable_frames mm))" using clean f1(1) by simp
  obtain s2 where s2: "andthen (mem_init E) (\<lambda>_. paging_init) s1 = Some (Ret () s2)" "switched E mm ka hh s2"
      "console_ready E s2" "paging_state.more s2 = paging_state.more s1" "console_out s2 = console_out s1 @ mem_text mm ka hh"
    using memory_run [OF a a1 s1(2) c1] by blast
  note f2 = more_fields [OF s2(4)]
  have inj: "inj (isr_address E)" and t2: "idt_table s2 = initial_idt_table" "length (tasks s2) = N_TASKS"
    using s f1 f2 by (simp_all add: loaded_def)
  obtain s3 where s3: "gdt_init E s2 = Some (Ret () (gdt_loaded E s3))" "only_io s2 s3" "console_ready E s3"
      "console_out s3 = console_out s2 @ gdt_text E"
    using gdt_init_run [OF s2(3)] by blast
  have t3: "idt_table (gdt_loaded E s3) = initial_idt_table" "length (tasks (gdt_loaded E s3)) = N_TASKS"
    using s3(2) t2 by (auto simp: only_io_def gdt_loaded_def)
  define s4 where "s4 = idt_built E (gdt_loaded E s3)"
  have i4: "idt_init E (gdt_loaded E s3) = Some (Ret () s4)"
    unfolding s4_def by (rule idt_init_run) (simp add: t3 initial_idt_table_def)
  have r4: "interrupts_ready E s4"
    unfolding s4_def by (rule idt_built_ready [OF inj _ t3(1)]) (simp add: gdt_loaded_def)
  have g4: "com_ports s4 = com_ports s3" "primary_com_port s4 = primary_com_port s3" "length (tasks s4) = N_TASKS"
    using t3(2) by (simp_all add: s4_def idt_built_def gdt_loaded_def)
  have sw4: "switched E mm ka hh s4"
    using s2(2) switched_io [OF s3(2)] switched_cong [of s4 s3] by (simp add: s4_def idt_built_def gdt_loaded_def)
  have k4: "console_ready E s4" using s3(3) console_ready_cong [OF g4(1,2)] by simp
  obtain s5 where s5: "scheduler_init E s4 = Some (Ret () s5)" "only_io (tasks_cleared s4) s5" "console_ready E s5"
      "console_out s5 = console_out s4 @ sched_text"
    using scheduler_init_run [OF g4(3) k4] by blast
  have sw5: "switched E mm ka hh s5"
    using sw4 switched_io [OF s5(2)] switched_cong [of "tasks_cleared s4" s4] by (simp add: tasks_cleared_def)
  have r5: "interrupts_ready E s5"
    using r4 s5(2) by (auto simp: interrupts_ready_def only_io_def tasks_cleared_def)
  have l5: "live s5 = {}" using s5(2) by (auto simp: only_io_def tasks_cleared_def live_def)
  have "render ''Trying to get block?'' [] = Some ''Trying to get block?''" by simp
  from printk_ready [OF s5(3) this] obtain s6 where s6: "printk E ''Trying to get block?'' [] s5 = Some (Ret () s6)"
      "console_ready E s6" "console_out s6 = console_out s5 @ ''Trying to get block?''" "only_io s5 s6" by blast
  have sw6: "switched E mm ka hh s6" using sw5 switched_io [OF s6(4)] by simp
  have r6: "interrupts_ready E s6" and l6: "live s6 = {}"
    using r5 l5 s6(4) by (auto simp: interrupts_ready_def only_io_def live_def)
  have "start E s = andthen (get_phys_block E) (\<lambda>_. start_modules E) s6"
    by (simp only: start_def andthen_assoc [where m = "mem_init E", symmetric] andthen_apply s1(1) s2(1) [unfolded andthen_apply] s3(1) i4
        s5(1) s6(1) option.case outcome.case)
  moreover have "console_out s4 = console_out s3"
    by (rule console_out_cong [OF g4(1,2)]) (simp add: s4_def idt_built_same gdt_loaded_def)
  then have "console_out s6 = console_out s1 @ boot_text E mm ka hh"
    by (simp add: s6(3) s5(4) s3(4) s2(5) boot_text_def)
  ultimately show ?thesis using that sw6 r6 s6(2) l6 s1(1) by blast
qed

section \<open>Starting a module\<close>

text \<open>What is printed, when the pointer for the task's tables is \<open>p\<close> and was \<open>v\<close>.\<close>

definition module_text :: "limine_file \<Rightarrow> u64 \<Rightarrow> u64 \<Rightarrow> string" where
  "module_text file p v = ''Initialising task memory layout.'' @ NL @
     ''Task pmem begins at '' @ pointer_text (file_address file - FLUX_BASE_VIRT) @ NL @ task_text p v @
     ''Calling module code '' @ [CHR 0x27] @ file_path file @ [CHR 0x27] @ '' @ 0x'' @ pointer_text (file_address file) @ NL"

lemma module_messages_render:
  "render (''Initialising task memory layout.'' @ NL) [] = Some (''Initialising task memory layout.'' @ NL)"
  "render (''Task pmem begins at %p'' @ NL) [VInt a] = Some (''Task pmem begins at '' @ pointer_text a @ NL)"
  "render (''Calling module code '' @ [CHR 0x27] @ ''%s'' @ [CHR 0x27] @ '' @ 0x%p'' @ NL) [VStr p, VInt a] =
    Some (''Calling module code '' @ [CHR 0x27] @ p @ [CHR 0x27] @ '' @ 0x'' @ pointer_text a @ NL)"
  by (simp_all add: NL_def)

lemma start_module_run:
  fixes s :: "'z scheduler_state_scheme"
  assumes ok: "pmem_ok E s (root # stack # fs)" and clean: "clean_frame (ram s) root"
    and c: "cell E (task_pml4_address E) f i" "f \<notin> set (root # stack # fs)" and ready: "console_ready E s"
    and n: "task_tables 1 \<le> length fs" and canon: "canonical (file_address file)"
  obtains s' where "start_module E file s =
      Some (Stop (User_Mode (file_address file) (INIT_SEGMENT_SELECTOR 3 0 3) (INIT_SEGMENT_SELECTOR 3 0 4)) s')"
    "rd64 (ram s') (slot f i) = root" "task_space stack (file_address file - FLUX_BASE_VIRT) 1 (ram s') root"
    "paging_ok E s' root (drop (task_tables 1) fs)"
    "console_out s' = console_out s @ module_text file (task_pml4_address E) (rd64 (ram s) (slot f i))"
    "interrupts_ready E s' = interrupts_ready E s"
proof -
  let ?off = "file_address file - FLUX_BASE_VIRT"
  obtain s1 where s1: "printk E (''Initialising task memory layout.'' @ NL) [] s = Some (Ret () s1)" "console_ready E s1" "only_io s s1"
      "console_out s1 = console_out s @ ''Initialising task memory layout.'' @ NL"
    using printk_ready [OF ready module_messages_render(1)] by blast
  obtain s2 where s2: "printk E (''Task pmem begins at %p'' @ NL) [VInt ?off] s1 = Some (Ret () s2)" "console_ready E s2" "only_io s1 s2"
      "console_out s2 = console_out s1 @ ''Task pmem begins at '' @ pointer_text ?off @ NL"
    using printk_ready [OF s1(2) module_messages_render(2)] by blast
  have ok2: "pmem_ok E s2 (root # stack # fs)" using ok pmem_ok_io [OF s1(3)] pmem_ok_io [OF s2(3)] by simp
  have cl2: "clean_frame (ram s2) root" using clean only_io_fields(1) [OF s1(3)] only_io_fields(1) [OF s2(3)] by simp
  have ram2: "ram s2 = ram s" using only_io_fields(1) [OF s1(3)] only_io_fields(1) [OF s2(3)] by simp
  obtain s3 where s3: "init_task_space_from_mem E (task_pml4_address E) ?off 1 s2 = Some (Ret None s3)"
      "rd64 (ram s3) (slot f i) = root" "paging_ok E s3 root (drop (task_tables 1) fs)"
      "task_space stack ?off 1 (ram s3) root" "console_ready E s3" "mapping_kept s2 s3"
      "console_out s3 = console_out s2 @ task_text (task_pml4_address E) (rd64 (ram s) (slot f i))"
    using init_task_space_run [OF ok2 cl2 c s2(2), of 1 ?off] n by (auto simp: ram2)
  obtain s4 where s4: "printk E (''Calling module code '' @ [CHR 0x27] @ ''%s'' @ [CHR 0x27] @ '' @ 0x%p'' @ NL)
        [VStr (file_path file), VInt (file_address file)] s3 = Some (Ret () s4)" "only_io s3 s4"
      "console_out s4 = console_out s3 @ ''Calling module code '' @ [CHR 0x27] @ file_path file @ [CHR 0x27] @ '' @ 0x'' @
        pointer_text (file_address file) @ NL"
    using printk_ready [OF s3(5) module_messages_render(3)] by blast
  have "start_module E file s =
      Some (Stop (User_Mode (file_address file) (INIT_SEGMENT_SELECTOR 3 0 3) (INIT_SEGMENT_SELECTOR 3 0 4)) s4)"
    by (simp only: start_module_def andthen_apply s1(1) s2(1) s3(1) s4(1) option.case outcome.case stop_apply canon if_True)
  moreover have "mapping_kept s s4"
    using mapping_kept_io [OF s1(3)] mapping_kept_io [OF s2(3)] s3(6) mapping_kept_io [OF s4(2)] by (meson mapping_kept_trans)
  then have "interrupts_ready E s4 = interrupts_ready E s"
    by (intro interrupts_ready_cong) (auto simp: mapping_kept_def)
  moreover have "console_out s4 = console_out s @ module_text file (task_pml4_address E) (rd64 (ram s) (slot f i))"
    by (simp only: s4(3) s3(7) s2(4) s1(4) module_text_def append_assoc)
  ultimately show ?thesis
    using that s3(2-4) only_io_fields(1) [OF s4(2)] paging_ok_io [OF s4(2)] by auto
qed

text \<open>The first page of a task.\<close>

lemma page_base_plus: "page_aligned x \<Longrightarrow> unat a < 4096 \<Longrightarrow> page_base (x + a) = x"
  using page_base_offset [of "x + a"] page_plus(2) [of x a] by simp

lemma first_page:
  assumes "task_space stack off 1 m root"
  shows "\<forall>a. unat a < 4096 \<longrightarrow> translate m root a = Some (PSE_PTR off + a)"
proof (intro allI impI)
  fix a :: u64 assume a: "unat a < 4096"
  have "page_base a = 0" using page_base_plus [of 0 a] a by (simp add: aligned_def)
  moreover from this have "EXTRACT_OFFSET a = a" using page_base_offset [of a] by simp
  ultimately show "translate m root a = Some (PSE_PTR off + a)" using assms a by (simp add: task_space_def)
qed

lemma same_page_base:
  assumes "page_aligned x" "page_aligned y" "unat a < 4096" "unat b < 4096" and "x + a = y + b"
  shows "x = y"
  using page_base_plus [OF assms(1,3)] page_base_plus [OF assms(2,4)] assms(5) by simp

text \<open>If an offset is right for the address field, its low bits are those of \<open>__FLUX_BASE_VIRT\<close>.\<close>

lemma right_offset:
  assumes "page_aligned h" "frame_addr p" "PSE_PTR (h - FLUX_BASE_VIRT + p) = p"
  shows "take_bit 52 h = take_bit 52 FLUX_BASE_VIRT"
proof -
  define w where "w = h - FLUX_BASE_VIRT + p"
  have p: "page_aligned p" using assms(2) by simp
  have "page_aligned (h - FLUX_BASE_VIRT)" by (rule aligned_sub [OF _ assms(1) FLUX_BASE_aligned]) simp
  from aligned_add [OF _ this p] have "page_aligned w" by (simp add: w_def)
  then have "take_bit 52 w = PSE_PTR w" by (rule PSE_PTR_low [symmetric])
  also have "\<dots> = PSE_PTR p" unfolding w_def assms(3) PSE_PTR_frame [OF assms(2)] ..
  also have "\<dots> = take_bit 52 p" by (rule PSE_PTR_low [OF p])
  finally have eq: "take_bit 52 w = take_bit 52 p" .
  have "take_bit 52 (w + (FLUX_BASE_VIRT - p)) = take_bit 52 (p + (FLUX_BASE_VIRT - p))"
    using eq by (intro take_bit_plus_cong) simp_all
  then show ?thesis by (simp add: w_def)
qed
section \<open>Properties\<close>

text \<open>C8: the switch of address spaces. After \<open>mem_init\<close> and \<open>paging_init\<close> the processor
  translates every address as \<open>kernel_map\<close> says, and an access to any other address is a page
  fault. The tables are still at their physical addresses, where \<open>map_page\<close> looks for them: it
  faults, too, unless something is mapped there. If kernel and modules end below 2 GiB and the
  higher-half offset deserves its name (\<open>upper_half_only\<close>), no address of the lower half is
  mapped, so every call of \<open>map_page\<close> faults. The allocator's next frame is the one after the
  kernel's tables, and its list is empty when the kernel map took the last frame.\<close>

theorem paging_init_switches:
  assumes "boot_answers E mm ka hh" "aspace s = None" "console_ready E s" "clean_frame (ram s) (last (usable_frames mm))"
  shows "\<exists>s'. andthen (mem_init E) (\<lambda>_. paging_init) s = Some (Ret () s') \<and>
    (\<forall>va. phys_addr E s' va = kernel_map mm ka hh va) \<and>
    (\<forall>va v. kernel_map mm ka hh va = None \<longrightarrow> aligned 8 va \<longrightarrow> load64 E va s' = Some (Stop (Page_Fault va) s') \<and>
       store64 E va v s' = Some (Stop (Page_Fault va) s')) \<and>
    (\<forall>pa va flags. kernel_map mm ka hh (slot (kernel_pml4_table s') (EXTRACT_PML4_INDEX va)) = None \<longrightarrow>
       map_page E pa va flags s' = Some (Stop (Page_Fault (slot (kernel_pml4_table s') (EXTRACT_PML4_INDEX va))) s')) \<and>
    (upper_half_only mm ka hh \<longrightarrow> (\<forall>va. \<not> high va \<longrightarrow> phys_addr E s' va = None) \<and>
       (\<forall>va. kernel_map mm ka hh (slot (kernel_pml4_table s') (EXTRACT_PML4_INDEX va)) = None)) \<and>
    first_page_frame s' = (if kernel_tables mm ka hh + 1 < length (usable_frames mm) then next_frame mm ka hh else 0)"
proof -
  obtain s' where s': "andthen (mem_init E) (\<lambda>_. paging_init) s = Some (Ret () s')" "switched E mm ka hh s'"
    using memory_run [OF assms] by blast
  have root: "frame_addr (kernel_pml4_table s')" and a: "aspace s' = Some (kernel_pml4_table s')"
    using s'(2) by (simp_all add: switched_def)
  have ph: "phys_addr E s' va = kernel_map mm ka hh va" for va
    using s'(2) by (simp add: switched_def phys_addr_def kernel_space_def)
  have "load64 E va s' = Some (Stop (Page_Fault va) s')" "store64 E va v s' = Some (Stop (Page_Fault va) s')"
    if "kernel_map mm ka hh va = None" "aligned 8 va" for va v
    using that by (simp_all add: load64_def store64_def ph)
  note fault = this
  moreover have "map_page E pa va flags s' = Some (Stop (Page_Fault (slot (kernel_pml4_table s') (EXTRACT_PML4_INDEX va))) s')"
    if no: "kernel_map mm ka hh (slot (kernel_pml4_table s') (EXTRACT_PML4_INDEX va)) = None" for pa va flags
  proof -
    let ?e = "slot (kernel_pml4_table s') (EXTRACT_PML4_INDEX va)"
    have "aligned 8 ?e" using root extract_index_less(1) [of va] by simp
    from fault(1) [OF no this] have "ensure_table E ?e flags s' = Some (Stop (Page_Fault ?e) s')"
      by (simp add: ensure_table_def andthen_Stop [where m = "load64 E ?e"])
    then show ?thesis
      by (simp add: map_page_def read_cr3_def gets_andthen a CR3_frame [OF root] map_page_specific_pml4_def Let_def
          andthen_Stop [where m = "ensure_table E ?e flags"])
  qed
  moreover have "kernel_map mm ka hh va = None" if "upper_half_only mm ka hh" "\<not> high va" for va
    using kernel_map_high [OF that(1)] that(2) by blast
  moreover from this have "kernel_map mm ka hh (slot (kernel_pml4_table s') (EXTRACT_PML4_INDEX va)) = None"
    if "upper_half_only mm ka hh" for va
    using that slot_not_high [OF root] extract_index_less(1) [of va] by blast
  moreover have "first_page_frame s' = (if kernel_tables mm ka hh + 1 < length (usable_frames mm) then next_frame mm ka hh else 0)"
    using s'(2) by (simp add: switched_def split: if_splits)
  ultimately show ?thesis using s'(1) ph by (intro exI [of _ s']) (simp only: simp_thms, blast)
qed

text \<open>The kernel's image is mapped where it was linked. Otherwise its code would not run on after the
  switch, which the model does not show.\<close>

definition image_kept ::
    "limine_memmap_response \<Rightarrow> limine_kernel_address_response \<Rightarrow> limine_hhdm_response \<Rightarrow> bool" where
  "image_kept mm ka hh \<longleftrightarrow> (\<forall>e \<in> set (memmap_entries mm). is_kernel_entry e \<longrightarrow> memmap_base e = physical_base ka \<longrightarrow>
     (\<forall>b. b < memmap_length e \<longrightarrow> kernel_map mm ka hh (FLUX_BASE_VIRT + b) = Some (memmap_base e + b)))"

lemma well_placed_image: "well_placed mm ka hh \<Longrightarrow> image_kept mm ka hh"
  using well_placed_entry [of mm ka hh] unfolding image_kept_def entry_offset_def by fastforce

text \<open>C2: the boot ends in a page fault. Started by a boot loader that keeps to its protocol, on
  a machine with a working serial port and more frames than the kernel map takes, \<open>_start\<close>
  initialises every component; then the allocator reads the link of its first frame at its physical
  address. If nothing is mapped there, as is always so when kernel and modules end below 2 GiB
  (\<open>upper_half_only\<close>), the fault is delivered to \<open>isr_PF\<close>, which reports it and hangs; no module is
  started. The text on the console, from the moment it works to the fault, is exactly
  \<open>boot_text\<close>: the frames found, the maps made, the tables loaded, and last
  "Trying to get block?".\<close>

theorem start_page_faults:
  fixes s :: "'z scheduler_state_scheme"
  assumes "boot_answers E mm ka hh" "loaded E s" "clean_frame (ram s) (last (usable_frames mm))"
    and "kernel_tables mm ka hh + 1 < length (usable_frames mm)" "image_kept mm ka hh"
    and "upper_half_only mm ka hh \<or> kernel_map mm ka hh (next_frame mm ka hh) = None"
  shows "\<exists>f s'. start E s = Some (Stop (Page_Fault f) s') \<and> f = next_frame mm ka hh \<and> f = first_page_frame s' \<and>
    aspace s' = Some (kernel_pml4_table s') \<and> kernel_space mm ka hh (ram s') (kernel_pml4_table s') \<and> live s' = {} \<and>
    (\<exists>s1. serial_init E s = Some (Ret () s1) \<and> console_out s' = console_out s1 @ boot_text E mm ka hh) \<and>
    (\<forall>d. ends_in E s' (Exception 0) 14 ec d \<longleftrightarrow> d = Entered isr_PF ec) \<and>
    (\<exists>s''. isr_code E isr_PF fr ec s' = Some (Stop Spin s'') \<and> console_out s'' = console_out s' @
       trace_text (''arch/x64/exceptions.c'', 54, ''isr_PF'') (PBAD ''PF''))"
proof -
  obtain s' where st: "start E s = andthen (get_phys_block E) (\<lambda>_. start_modules E) s'"
    and s': "switched E mm ka hh s'" "interrupts_ready E s'" "console_ready E s'" "live s' = {}"
    "\<exists>s1. serial_init E s = Some (Ret () s1) \<and> console_out s' = console_out s1 @ boot_text E mm ka hh"
    using start_run [OF assms(1-3)] by blast
  have f: "first_page_frame s' = next_frame mm ka hh" "next_frame mm ka hh \<noteq> 0" "frame_addr (next_frame mm ka hh)"
    using s'(1) assms(4) by (simp_all add: switched_def)
  have a: "aspace s' = Some (kernel_pml4_table s')" and sp: "kernel_space mm ka hh (ram s') (kernel_pml4_table s')"
    using s'(1) by (simp_all add: switched_def)
  have "kernel_map mm ka hh (next_frame mm ka hh) = None"
    using assms(6) kernel_map_high [of mm ka hh "next_frame mm ka hh"] frame_not_high [OF f(3)] by blast
  then have "get_phys_block E s' = Some (Stop (Page_Fault (next_frame mm ka hh)) s')"
    using get_phys_block_switched [OF a sp f(1,2), of E] f(3) by simp
  then have fault: "start E s = Some (Stop (Page_Fault (next_frame mm ka hh)) s')"
    unfolding st by (rule andthen_Stop)
  have "served 14 = Some (isr_PF, IDT_ATTRIBUTES_TYPE_TRAP)" by (simp add: served_def)
  then have "\<forall>d. ends_in E s' (Exception 0) 14 ec d \<longleftrightarrow> d = Entered isr_PF ec"
    using ends_in_ready [OF s'(2), of 14 "Exception 0" ec] by (simp add: kernel_reaction_def)
  moreover have "\<exists>s''. isr_code E isr_PF fr ec s' = Some (Stop Spin s'') \<and> console_out s'' = console_out s' @
       trace_text (''arch/x64/exceptions.c'', 54, ''isr_PF'') (PBAD ''PF'')"
    using isr_code_reports [OF s'(3), of isr_PF fr ec] by (auto simp: report_def)
  ultimately show ?thesis using fault s'(4,5) f(1) a sp
    by (intro exI [of _ "next_frame mm ka hh"] exI [of _ s']) simp
qed

subsection \<open>The loop over the modules without the switch\<close>

text \<open>The next two theorems are about the loop over the modules on its own, from a state in which the
  boot loader's tables are still loaded and the allocator works. \<open>_start\<close> does not get there: it
  loads the kernel's tables first, and faults or hangs before the loop. They say what
  the code of the loop would do without that.\<close>

text \<open>The first module's task space is built under the pointer in \<open>task_pml4\<close>: page 0 is the page at
  the module's address less \<open>__FLUX_BASE_VIRT\<close>, cut to what an entry holds, and the stack lies
  below the kernel. After exactly the text \<open>module_text\<close> the processor leaves for the module's
  address with the user selectors; that address is not mapped in the task's space unless it lies
  in one of these two pages. The other modules are never reached. Once the kernel's interrupt
  table is loaded, anything the module raises shuts the processor down, if the boot loader left
  no stack for level 0 in the task register.\<close>

theorem start_module_enters:
  fixes s :: "'z scheduler_state_scheme"
  assumes "pmem_ok E s (root # stack # fs)" "clean_frame (ram s) root"
    and "cell E (task_pml4_address E) f i" "f \<notin> set (root # stack # fs)" "console_ready E s" and "task_tables 1 \<le> length fs"
    and "canonical (file_address file)"
  shows "\<exists>s'. for_each (start_module E) (file # files) s = Some (Stop (User_Mode (file_address file)
      (INIT_SEGMENT_SELECTOR 3 0 3) (INIT_SEGMENT_SELECTOR 3 0 4)) s') \<and>
    console_out s' = console_out s @ module_text file (task_pml4_address E) (rd64 (ram s) (slot f i)) \<and>
    rd64 (ram s') (slot f i) = root \<and>
    (\<forall>a. unat a < 4096 \<longrightarrow> translate (ram s') root a = Some (PSE_PTR (file_address file - FLUX_BASE_VIRT) + a)) \<and>
    (\<forall>k. unat k < 4096 \<longrightarrow> translate (ram s') root (FLUX_BASE_VIRT - 4096 + k) = Some (stack + k)) \<and>
    (4096 \<le> unat (file_address file) \<and> page_base (file_address file) \<noteq> FLUX_BASE_VIRT - 4096 \<longrightarrow>
       translate (ram s') root (file_address file) = None) \<and>
    (interrupts_ready E s \<and> ring0_stack E = None \<longrightarrow>
       (\<forall>c v ec d. level c = 3 \<and> v < 256 \<longrightarrow> (ends_in E s' c v ec d \<longleftrightarrow> d = Shutdown)))"
proof -
  obtain s' where s': "start_module E file s =
      Some (Stop (User_Mode (file_address file) (INIT_SEGMENT_SELECTOR 3 0 3) (INIT_SEGMENT_SELECTOR 3 0 4)) s')"
    "rd64 (ram s') (slot f i) = root" "task_space stack (file_address file - FLUX_BASE_VIRT) 1 (ram s') root"
    "interrupts_ready E s' = interrupts_ready E s"
    "console_out s' = console_out s @ module_text file (task_pml4_address E) (rd64 (ram s) (slot f i))"
    using start_module_run [OF assms] by blast
  have base: "page_base (FLUX_BASE_VIRT - 4096 + k) = FLUX_BASE_VIRT - 4096" if "unat k < 4096" for k
    using stack_page page_plus [OF stack_page(2) that] by (intro same_page) simp_all
  have t: "\<forall>k. unat k < 4096 \<longrightarrow> translate (ram s') root (FLUX_BASE_VIRT - 4096 + k) = Some (stack + k)"
    "\<And>va. translate (ram s') root va \<noteq> None \<Longrightarrow> unat va < 4096 \<or> (\<exists>k. unat k < 4096 \<and> va = FLUX_BASE_VIRT - 4096 + k)"
    using s'(3) by (simp_all add: task_space_def)
  have "translate (ram s') root (file_address file) = None"
    if "4096 \<le> unat (file_address file)" "page_base (file_address file) \<noteq> FLUX_BASE_VIRT - 4096"
    using t(2) [of "file_address file"] base that by force
  moreover have "ends_in E s' c v ec d \<longleftrightarrow> d = Shutdown"
    if "interrupts_ready E s" "ring0_stack E = None" "level c = 3" "v < 256" for c v ec d
    using ends_in_ready [of E s' v c ec] s'(4) that by (simp add: kernel_reaction_def)
  moreover have "for_each (start_module E) (file # files) s =
      Some (Stop (User_Mode (file_address file) (INIT_SEGMENT_SELECTOR 3 0 3) (INIT_SEGMENT_SELECTOR 3 0 4)) s')"
    by (simp add: andthen_Stop [where m = "start_module E file", OF s'(1)])
  ultimately show ?thesis using s'(2,5) t(1) first_page [OF s'(3)] by (intro exI [of _ s']) simp
qed

text \<open>The address of a module is not where the code takes it to be. Limine documents that its
  pointers are addresses in the higher half direct map, \<open>hhdm_offset\<close> above the physical ones;
  \<open>_start\<close> subtracts \<open>__FLUX_BASE_VIRT\<close>. For a module at the physical address \<open>p\<close>, page 0 of the
  task's space is then a page of another part of physical memory, and no address of the space
  leads to the module's first page, unless that page became the task's stack.\<close>

theorem start_module_misplaces:
  fixes s :: "'z scheduler_state_scheme"
  assumes "pmem_ok E s (root # stack # fs)" "clean_frame (ram s) root"
    and "cell E (task_pml4_address E) f i" "f \<notin> set (root # stack # fs)" "console_ready E s" and "task_tables 1 \<le> length fs"
    and "canonical (file_address file)" and "hhdm_response E = Some hh" "file_address file = hhdm_offset hh + p" "frame_addr p" "p \<noteq> stack"
    and "page_aligned (hhdm_offset hh)" "take_bit 52 (hhdm_offset hh) \<noteq> take_bit 52 FLUX_BASE_VIRT"
  shows "\<exists>s'. start_module E file s = Some (Stop (User_Mode (hhdm_offset hh + p)
      (INIT_SEGMENT_SELECTOR 3 0 3) (INIT_SEGMENT_SELECTOR 3 0 4)) s') \<and> rd64 (ram s') (slot f i) = root \<and>
    translate (ram s') root 0 = Some (PSE_PTR (hhdm_offset hh - FLUX_BASE_VIRT + p)) \<and>
    (\<forall>va b. unat b < 4096 \<longrightarrow> translate (ram s') root va \<noteq> Some (p + b))"
proof -
  let ?q = "PSE_PTR (hhdm_offset hh - FLUX_BASE_VIRT + p)"
  obtain s' where s': "start_module E file s = Some (Stop (User_Mode (file_address file)
      (INIT_SEGMENT_SELECTOR 3 0 3) (INIT_SEGMENT_SELECTOR 3 0 4)) s')" "rd64 (ram s') (slot f i) = root"
    "task_space stack (file_address file - FLUX_BASE_VIRT) 1 (ram s') root"
    using start_module_run [OF assms(1-7)] by blast
  have page: "translate (ram s') root a = Some (?q + a)" if "unat a < 4096" for a
    using first_page [OF s'(3)] that by (simp add: assms(9) algebra_simps)
  have t: "\<forall>k. unat k < 4096 \<longrightarrow> translate (ram s') root (FLUX_BASE_VIRT - 4096 + k) = Some (stack + k)"
    "\<And>va. translate (ram s') root va \<noteq> None \<Longrightarrow> unat va < 4096 \<or> (\<exists>k. unat k < 4096 \<and> va = FLUX_BASE_VIRT - 4096 + k)"
    using s'(3) by (simp_all add: task_space_def)
  have al: "page_aligned p" "page_aligned stack" "page_aligned ?q"
    using assms(1,10) by (simp_all add: pmem_ok_def frame_ok_addr)
  have "translate (ram s') root va \<noteq> Some (p + b)" if b: "unat b < 4096" for va b
  proof
    assume v: "translate (ram s') root va = Some (p + b)"
    then consider "unat va < 4096" | k where "unat k < 4096" "va = FLUX_BASE_VIRT - 4096 + k" using t(2) [of va] by auto
    then show False
    proof cases
      case 1
      then have "?q + va = p + b" using page v by simp
      then have "?q = p" using same_page_base [OF al(3,1) 1 b] by simp
      then show False using assms(10,12,13) right_offset by blast
    next
      case (2 k)
      then have "stack + k = p + b" using t(1) v by simp
      then show False using same_page_base [OF al(2,1) 2(1) b] assms(11) by simp
    qed
  qed
  then show ?thesis using s'(1,2) page [of 0] by (auto simp: assms(9))
qed

subsection \<open>Witnesses\<close>

definition testprog :: "u64 \<Rightarrow> limine_file" where
  "testprog a = (let none = \<lparr>uuid_a = 0, uuid_b = 0, uuid_c = 0, uuid_d = replicate 8 0\<rparr> in
     \<lparr>file_revision = 0, file_address = a, file_size = 0x1000, file_path = ''/testprog.bin'', file_cmdline = [],
      file_media_type = LIMINE_MEDIA_TYPE_GENERIC, file_unused = 0, tftp_ip = 0, tftp_port = 0, partition_index = 1,
      mbr_disk_id = 0, gpt_disk_uuid = none, gpt_part_uuid = none, part_uuid = none\<rparr>)"

lemma testprog_address [simp]: "file_address (testprog a) = a"
  by (simp add: testprog_def Let_def)

definition boot_env :: env where
  "boot_env = big_env\<lparr>isr_address := isr_layout, gdt_table_address := 0xffffffff80003000,
     idt_table_address := 0xffffffff80004000, task_pml4_address := 0x5008,
     module_response := Some \<lparr>module_revision = 0, module_files =
       [testprog 0xffffffff80300000]\<rparr>\<rparr>"

definition fresh_state :: scheduler_state where
  "fresh_state = (big_sched 0)\<lparr>ram := (\<lambda>_. 0), com_ports := initial_com_ports, primary_com_port := None,
     first_page_frame := 0, n_free_page_frames := 0, kernel_pml4_table := 0\<rparr>"

lemma boot_env_answers: "boot_answers boot_env big_memmap big_kernel big_hhdm"
proof -
  have "memory_map_ok boot_env big_memmap"
    using big_memmap_ok by (simp add: memory_map_ok_def frame_ok_def boot_env_def)
  then show ?thesis
    using big_env_answers big_fits big_tables by (simp add: boot_answers_def boot_env_def big_length)
qed

lemma fresh_loaded: "loaded boot_env fresh_state"
proof -
  have bases: "io_port_base (initial_com_ports ! i) AND 7 = 0" if "i < COM_PORT_COUNT" for i
  proof -
    have "\<forall>p \<in> set initial_com_ports. io_port_base p AND 7 = 0" by (simp add: initial_com_ports_def INIT_COM_PORT_def)
    moreover have "length initial_com_ports = COM_PORT_COUNT" by (simp add: initial_com_ports_def COM_PORT_COUNT_def)
    ultimately show ?thesis using that by simp
  qed
  have pv: "port_value boot_env = port_value idle_env" by (simp add: boot_env_def big_env_def)
  have send: "sends_eventually idle_env (initial_com_ports ! i) t" if "i < COM_PORT_COUNT" for i t
  proof -
    have "\<forall>p \<in> set initial_com_ports. line_stat idle_env p t = 0x60"
      by (simp add: initial_com_ports_def INIT_COM_PORT_def line_stat_def idle_env_def com_port_offsets)
    moreover have "length initial_com_ports = COM_PORT_COUNT" by (simp add: initial_com_ports_def COM_PORT_COUNT_def)
    ultimately have "line_stat idle_env (initial_com_ports ! i) t = 0x60" using that by simp
    then show ?thesis unfolding sends_eventually_def by (intro exI [of _ 0]) (simp add: LINE_STAT_THRE_def)
  qed
  have "echoes boot_env (initial_com_ports ! 0)"
    using bases [of 0] by (simp add: echoes_def pv COM_PORT_COUNT_def) (simp add: idle_env_def)
  then have "\<exists>i<COM_PORT_COUNT. echoes boot_env (initial_com_ports ! i)"
    by (intro exI [of _ 0]) (simp add: COM_PORT_COUNT_def)
  then show ?thesis
    using send sends_cong [OF pv] isr_layout_inj big_started_facts(6) big_sched_facts(4) [of 0]
    by (simp add: loaded_def fresh_state_def) (simp add: boot_env_def big_sched_def)
qed

theorem paging_init_switches_witness:
  "\<exists>s'. andthen (mem_init big_env) (\<lambda>_. paging_init) cold_state = Some (Ret () s') \<and>
     phys_addr big_env s' 0xffffffff80000123 = Some 0x200123 \<and>
     (\<exists>a. map_page big_env 0x5000 0x6000 2 s' = Some (Stop (Page_Fault a) s'))"
proof -
  have a: "boot_answers big_env big_memmap big_kernel big_hhdm"
    using big_env_answers big_memmap_ok big_fits big_tables by (simp add: boot_answers_def big_length)
  obtain s' where s': "andthen (mem_init big_env) (\<lambda>_. paging_init) cold_state = Some (Ret () s')"
      "\<forall>va. phys_addr big_env s' va = kernel_map big_memmap big_kernel big_hhdm va"
      "upper_half_only big_memmap big_kernel big_hhdm \<longrightarrow> (\<forall>va. \<not> high va \<longrightarrow> phys_addr big_env s' va = None) \<and>
         (\<forall>va. kernel_map big_memmap big_kernel big_hhdm (slot (kernel_pml4_table s') (EXTRACT_PML4_INDEX va)) = None)"
      "\<forall>pa va flags. kernel_map big_memmap big_kernel big_hhdm (slot (kernel_pml4_table s') (EXTRACT_PML4_INDEX va)) = None \<longrightarrow>
         map_page big_env pa va flags s' = Some (Stop (Page_Fault (slot (kernel_pml4_table s') (EXTRACT_PML4_INDEX va))) s')"
    using paging_init_switches [OF a cold_facts(1,3,4)] by blast
  have "kernel_map big_memmap big_kernel big_hhdm 0xffffffff80000123 = Some 0x200123"
    using well_placed_entry [OF big_layout, of "\<lparr>memmap_base = 0x200000, memmap_length = 0x3000,
        memmap_type = LIMINE_MEMMAP_KERNEL_AND_MODULES\<rparr>" "0x123"]
    by (simp add: big_memmap_def is_kernel_entry_def entry_offset_def big_kernel_def FLUX_BASE_VIRT_def)
  moreover have "\<exists>a. map_page big_env 0x5000 0x6000 2 s' = Some (Stop (Page_Fault a) s')"
    using s'(3,4) well_placed_upper [OF big_layout] by blast
  ultimately show ?thesis using s'(1,2) by auto
qed

theorem start_page_faults_witness:
  "\<exists>f s'. start boot_env fresh_state = Some (Stop (Page_Fault f) s') \<and> ends_in boot_env s' (Exception 0) 14 0 (Entered isr_PF 0)"
proof -
  have "clean_frame (ram fresh_state) (last (usable_frames big_memmap))"
    by (simp add: clean_frame_def fresh_state_def)
  moreover have "kernel_tables big_memmap big_kernel big_hhdm + 1 < length (usable_frames big_memmap)"
    using big_tables by (simp add: big_length)
  moreover note well_placed_image [OF big_layout] well_placed_upper [OF big_layout]
  ultimately show ?thesis
    using start_page_faults [OF boot_env_answers fresh_loaded, of 0] by blast
qed

text \<open>The same machine with the interrupt tables loaded.\<close>

definition tabled_state :: scheduler_state where
  "tabled_state = idt_built boot_env ((big_sched 0)\<lparr>cpu_gdtr := Some (kernel_gdtr boot_env), idt_table := initial_idt_table\<rparr>)"

lemma tabled_fields: "ram tabled_state = ram (big_sched 0)" "aspace tabled_state = aspace (big_sched 0)"
  "first_page_frame tabled_state = first_page_frame (big_sched 0)"
  "n_free_page_frames tabled_state = n_free_page_frames (big_sched 0)"
  "com_ports tabled_state = com_ports (big_sched 0)" "primary_com_port tabled_state = primary_com_port (big_sched 0)"
  by (simp_all add: tabled_state_def idt_built_def)

lemma tabled_ready: "interrupts_ready boot_env tabled_state" "ring0_stack boot_env = None"
proof -
  have "inj (isr_address boot_env)" using isr_layout_inj by (simp add: boot_env_def)
  then show "interrupts_ready boot_env tabled_state" unfolding tabled_state_def by (rule idt_built_ready) simp_all
  show "ring0_stack boot_env = None" by (simp add: boot_env_def big_env_def idle_env_def)
qed

lemma tabled_module:
  obtains root stack fs where "pmem_ok boot_env tabled_state (root # stack # fs)" "clean_frame (ram tabled_state) root"
    "cell boot_env (task_pml4_address boot_env) 0x5000 1" "0x5000 \<notin> set (root # stack # fs)"
    "console_ready boot_env tabled_state" "task_tables 1 \<le> length fs" "0x300000 \<noteq> stack"
proof -
  obtain root stack fs where f: "rev (usable_frames big_memmap) = root # stack # fs" "length fs = 0x3ffffe"
    using big_frames by blast
  have "pmem_ok boot_env (big_sched 0) (root # stack # fs)"
    using big_sched_facts(1) [of 0] by (simp add: pmem_ok_def frame_ok_def boot_env_def f(1))
  then have ok: "pmem_ok boot_env tabled_state (root # stack # fs)" by (simp add: pmem_ok_def tabled_fields)
  then have "page_aligned root" by (simp add: pmem_ok_def)
  note clean = big_sched_facts(3) [OF this, of 0, folded tabled_fields(1)]
  have c: "cell boot_env (task_pml4_address boot_env) 0x5000 1" using big_cell by (simp add: cell_def boot_env_def)
  have no: "a \<notin> set (root # stack # fs)" if "unat a < 2 ^ 32" for a
    using big_started_facts(4) [of a] that by (auto simp flip: f(1))
  have ready: "console_ready boot_env tabled_state"
  proof -
    have "port_value boot_env = port_value big_env" by (simp add: boot_env_def)
    then have "sends_eventually boot_env = sends_eventually big_env" by (intro ext) (rule sends_cong)
    then have "console_ready boot_env (big_sched 0)" using big_sched_facts(2) [of 0] by (simp only: console_ready_def)
    then show ?thesis using console_ready_cong [OF tabled_fields(5,6)] by simp
  qed
  have n: "task_tables 1 \<le> length fs" using task_tables_le [of 1] f(2) by simp
  show ?thesis using that [OF ok clean c no ready n] no [of "0x300000"] by auto
qed

theorem start_module_enters_witness:
  "\<exists>s'. for_each (start_module boot_env) [testprog 0xffffffff80300000, testprog 0xffffffff80301000] tabled_state =
     Some (Stop (User_Mode 0xffffffff80300000 0x1b 0x23) s') \<and> ends_in boot_env s' (Software 3) 0x32 0 Shutdown"
proof -
  obtain root stack fs where f: "pmem_ok boot_env tabled_state (root # stack # fs)" "clean_frame (ram tabled_state) root"
    "cell boot_env (task_pml4_address boot_env) 0x5000 1" "0x5000 \<notin> set (root # stack # fs)"
    "console_ready boot_env tabled_state" "task_tables 1 \<le> length fs"
    by (rule tabled_module)
  have canon: "canonical (file_address (testprog 0xffffffff80300000))" by (simp add: canonical_def drop_bit_eq_div)
  from start_module_enters [OF f canon, of "[testprog 0xffffffff80301000]"] tabled_ready
  obtain s' where s': "for_each (start_module boot_env) [testprog 0xffffffff80300000, testprog 0xffffffff80301000] tabled_state =
      Some (Stop (User_Mode 0xffffffff80300000 (INIT_SEGMENT_SELECTOR 3 0 3) (INIT_SEGMENT_SELECTOR 3 0 4)) s')"
    "\<forall>c v ec d. level c = 3 \<and> v < 256 \<longrightarrow> (ends_in boot_env s' c v ec d \<longleftrightarrow> d = Shutdown)"
    unfolding testprog_address by blast
  have "level (Software 3) = 3 \<and> (0x32 :: nat) < 256" by simp
  then have "ends_in boot_env s' (Software 3) 0x32 0 Shutdown" using s'(2) by blast
  then show ?thesis using s'(1) by (auto simp: INIT_SEGMENT_SELECTOR_def)
qed

text \<open>The usual offset of the higher half direct map.\<close>

definition hhdm_env :: env where
  "hhdm_env = boot_env\<lparr>hhdm_response := Some \<lparr>hhdm_revision = 0, hhdm_offset = 0xffff800000000000\<rparr>\<rparr>"

theorem start_module_misplaces_witness:
  "\<exists>root s'. start_module hhdm_env (testprog 0xffff800000300000) tabled_state =
      Some (Stop (User_Mode 0xffff800000300000 0x1b 0x23) s') \<and>
     translate (ram s') root 0 = Some 0xf800080300000 \<and> (\<forall>va. translate (ram s') root va \<noteq> Some 0x300000)"
proof -
  obtain root stack fs where f: "pmem_ok boot_env tabled_state (root # stack # fs)" "clean_frame (ram tabled_state) root"
    "cell boot_env (task_pml4_address boot_env) 0x5000 1" "0x5000 \<notin> set (root # stack # fs)"
    "console_ready boot_env tabled_state" "task_tables 1 \<le> length fs" "0x300000 \<noteq> stack"
    by (rule tabled_module)
  have pv: "port_value hhdm_env = port_value boot_env" by (simp add: hhdm_env_def)
  then have "sends_eventually hhdm_env = sends_eventually boot_env" by (intro ext) (rule sends_cong)
  then have r: "console_ready hhdm_env tabled_state" using f(5) by (simp only: console_ready_def)
  have p: "pmem_ok hhdm_env tabled_state (root # stack # fs)"
    using f(1) by (simp add: pmem_ok_def frame_ok_def hhdm_env_def)
  have c: "cell hhdm_env (task_pml4_address hhdm_env) 0x5000 1" using f(3) by (simp add: cell_def hhdm_env_def)
  let ?hh = "\<lparr>hhdm_revision = 0, hhdm_offset = 0xffff800000000000\<rparr>"
  have h: "hhdm_response hhdm_env = Some ?hh" "file_address (testprog 0xffff800000300000) = hhdm_offset ?hh + 0x300000"
    "frame_addr 0x300000" "page_aligned (hhdm_offset ?hh)" "take_bit 52 (hhdm_offset ?hh) \<noteq> take_bit 52 FLUX_BASE_VIRT"
    by (simp_all add: hhdm_env_def frame_addr_def aligned_def FLUX_BASE_VIRT_def)
  obtain s' where s': "start_module hhdm_env (testprog 0xffff800000300000) tabled_state =
      Some (Stop (User_Mode (hhdm_offset ?hh + 0x300000) (INIT_SEGMENT_SELECTOR 3 0 3) (INIT_SEGMENT_SELECTOR 3 0 4)) s')"
    "translate (ram s') root 0 = Some (PSE_PTR (hhdm_offset ?hh - FLUX_BASE_VIRT + 0x300000))"
    "\<forall>va b. unat b < 4096 \<longrightarrow> translate (ram s') root va \<noteq> Some (0x300000 + b)"
    using start_module_misplaces [OF p f(2) c f(4) r f(6) _ h(1-3) f(7) h(4,5)] by (auto simp: canonical_def drop_bit_eq_div)
  have "translate (ram s') root va \<noteq> Some 0x300000" for va using s'(3) [rule_format, of 0 va] by simp
  then show ?thesis using s'(1,2) by (auto simp: INIT_SEGMENT_SELECTOR_def FLUX_BASE_VIRT_def PSE_PTR_def)
qed

end
