(* ===== verification/Low_Memory.thy ===== *)
theory Low_Memory
  imports Boot
begin

section \<open>Booting with little memory (\<open>main.c\<close>, \<open>arch/x64/mem.c\<close>)\<close>

text \<open>
  \<open>setup_kernel_map\<close> maps the first 4 GiB of physical memory in pages of 4 KiB, however much
  memory there is. So the kernel needs a frame for each of at least 2048 page tables before
  anything else works, and the boot stops in the allocator when they are not there.
\<close>

text \<open>The first three indices of an address are its bits 21 to 47: they name the page table.\<close>

lemma index_bit:
  assumes "k \<le> n" "n < k + 9"
  shows "bit (drop_bit k x AND (0x1ff :: u64)) (n - k) \<longleftrightarrow> bit x n"
  using assms by (auto simp: mask_folds bit_and_iff bit_drop_bit_eq bit_mask_iff)

lemma table_path_bits:
  assumes "take 3 (page_path a) = take 3 (page_path b)" "21 \<le> n" "n < 48"
  shows "bit a n \<longleftrightarrow> bit b n"
proof -
  have e: "drop_bit k a AND 0x1ff = drop_bit k b AND 0x1ff" if "k \<in> {21, 30, 39}" for k
    using assms(1) that by (auto simp: page_path_def EXTRACT_PML4_INDEX_def EXTRACT_PDPT_INDEX_def EXTRACT_PDT_INDEX_def)
  have "\<exists>k \<in> {21, 30, 39}. k \<le> n \<and> n < k + 9" using assms(2,3) by (auto simp: not_less)
  then obtain k where k: "k \<in> {21, 30, 39}" "k \<le> n" "n < k + 9" by blast
  show ?thesis using index_bit [OF k(2,3), of a] index_bit [OF k(2,3), of b] e [OF k(1)] by (simp only:)
qed

lemma table_path_offset:
  fixes w x y :: u64
  assumes p: "take 3 (page_path (w + x)) = take 3 (page_path (w + y))"
    and al: "take_bit 21 x = 0" "take_bit 21 y = 0" and l: "unat x < 2 ^ 48" "unat y < 2 ^ 48"
  shows "x = y"
proof -
  have "take_bit 21 (x + w) = take_bit 21 (y + w)" using al by (intro take_bit_plus_cong) simp_all
  then have low: "bit (w + x) n = bit (w + y) n" if "n < 21" for n
    using that by (metis add.commute bit_take_bit_iff)
  have "bit (w + x) n = bit (w + y) n" if "n < 48" for n
    using low [of n] table_path_bits [OF p, of n] that by (cases "n < 21") simp_all
  then have "take_bit 48 (w + x) = take_bit 48 (w + y)"
    by (intro bit_word_eqI) (simp add: bit_take_bit_iff cong: conj_cong)
  from take_bit_plus_cong [OF _ this, of "- w"] have "take_bit 48 x = take_bit 48 y" by (simp add: add.commute [of w])
  then show ?thesis by (simp only: take_bit_less [OF l(1)] take_bit_less [OF l(2)])
qed

text \<open>The first 4 GiB of physical memory alone take 2048 page tables, wherever they are mapped.\<close>

lemma kernel_tables_ge: "2048 \<le> kernel_tables mm ka hh"
proof -
  let ?T = "{p. \<exists>x \<in> set (kernel_steps mm ka hh). p \<in> set (levels (page_path (snd x)))}"
  let ?o = "\<lambda>i. of_nat (i * 2 ^ 21) :: u64"
  let ?p = "\<lambda>i. take 3 (page_path (hhdm_offset hh + ?o i))"
  have u: "unat (?o i) = i * 2 ^ 21" if "i < 2048" for i using that by (simp only: unat_of_nat) simp
  have i: "(?o i, hhdm_offset hh + ?o i) \<in> set (hhdm_steps hh)" if "i < 2048" for i
    using u [OF that] that
    by (auto simp: hhdm_steps_def in_step_range aligned_def word_less_nat_alt intro!: image_eqI [of _ _ "?o i"])
  have al: "take_bit 21 (?o k) = 0" for k :: nat
  proof -
    have "?o k = push_bit 21 (of_nat k)" by (simp add: push_bit_eq_mult)
    then show ?thesis by (simp add: take_bit_push_bit)
  qed
  have "inj_on ?p {..<2048}"
  proof (rule inj_onI)
    fix i j :: nat assume ij: "i \<in> {..<2048}" "j \<in> {..<2048}" and eq: "?p i = ?p j"
    have "?o i = ?o j" using ij by (intro table_path_offset [OF eq al al]) (simp_all only: u lessThan_iff, simp_all)
    then show "i = j" using ij u [of i] u [of j] by simp
  qed
  then have "2048 = card (?p ` {..<2048})" by (simp add: card_image)
  also have "\<dots> \<le> card ?T"
  proof (rule card_mono)
    show "finite ?T" by simp
    have lv: "take 3 (page_path v) \<in> set (levels (page_path v))" for v by (simp add: levels_def page_path_def)
    have "?p k \<in> ?T" if "k < 2048" for k
    proof -
      have "(?o k, hhdm_offset hh + ?o k) \<in> set (kernel_steps mm ka hh)" using i [OF that] by (simp add: in_kernel_steps)
      then show ?thesis using lv [of "hhdm_offset hh + ?o k"] by (auto intro!: bexI)
    qed
    then show "?p ` {..<2048} \<subseteq> ?T" by blast
  qed
  finally show ?thesis by (simp only: kernel_tables_def tables_of_def)
qed

text \<open>Conversely, no more than three tables are needed for each 2 MiB of addresses.\<close>

lemma tables_of_regions: "tables_of xs \<le> 3 * card ((\<lambda>x. take 3 (page_path (snd x))) ` set xs)"
proof -
  let ?T = "(\<lambda>x. take 3 (page_path (snd x))) ` set xs"
  have "{p. \<exists>x \<in> set xs. p \<in> set (levels (page_path (snd x)))} = (\<Union>t \<in> ?T. {take 1 t, take 2 t, t})"
    by (auto simp: levels_def page_path_def)
  then have "tables_of xs = card (\<Union>t \<in> ?T. {take 1 t, take 2 t, t})" by (simp only: tables_of_def)
  also have "\<dots> \<le> (\<Sum>t \<in> ?T. card {take 1 t, take 2 t, t})" by (rule card_UN_le) simp
  also have "\<dots> \<le> (\<Sum>t \<in> ?T. 3)" by (rule sum_mono) (simp add: card_insert_le_m1)
  finally show ?thesis by simp
qed

lemma table_path_drop:
  fixes x y :: u64
  assumes "drop_bit 21 x = drop_bit 21 y"
  shows "take 3 (page_path x) = take 3 (page_path y)"
proof -
  have d: "drop_bit k z = drop_bit (k - 21) (drop_bit 21 z)" if "21 \<le> k" for k and z :: u64
    using drop_bit_drop_bit [of "k - 21" 21 z] that by simp
  have "drop_bit k x = drop_bit k y" if "21 \<le> k" for k
    unfolding d [OF that, of x] d [OF that, of y] assms ..
  from this [of 21] this [of 30] this [of 39] show ?thesis
    by (simp add: page_path_def EXTRACT_PML4_INDEX_def EXTRACT_PDPT_INDEX_def EXTRACT_PDT_INDEX_def)
qed

lemma region_path:
  fixes w b :: u64
  assumes w: "take_bit 21 w = 0"
  shows "take 3 (page_path (w + b)) = take 3 (page_path (w + push_bit 21 (drop_bit 21 b)))"
proof (rule table_path_drop)
  let ?h = "w + push_bit 21 (drop_bit 21 b)" and ?l = "take_bit 21 b"
  have b: "push_bit 21 (drop_bit 21 b) + ?l = b" by (rule bits_ident)
  have "take_bit 21 ?h = take_bit 21 (0 + push_bit 21 (drop_bit 21 b))"
    using w by (intro take_bit_plus_cong) simp_all
  then have z: "take_bit 21 ?h = 0" by (simp add: take_bit_push_bit)
  have "\<not> bit ?h n" if "n < 21" for n using arg_cong [OF z, of "\<lambda>x. bit x n"] that by (simp add: bit_take_bit_iff)
  then have "?h AND ?l = 0" by (intro bit_word_eqI) (auto simp: bit_and_iff bit_take_bit_iff)
  then have "?h + ?l = ?h OR ?l" by (rule disjunctive_add_eq_or)
  then have e: "?h OR ?l = w + b" by (simp only: add.assoc b)
  show "drop_bit 21 (w + b) = drop_bit 21 ?h"
  proof (rule bit_word_eqI)
    fix n show "bit (drop_bit 21 (w + b)) n = bit (drop_bit 21 ?h) n"
      unfolding e [symmetric] bit_drop_bit_eq o_apply bit_or_iff bit_take_bit_iff by simp
  qed
qed

lemma region_card:
  fixes w len :: u64
  assumes w: "take_bit 21 w = 0" and len: "unat len + 4096 \<le> 2 ^ 64" "unat len \<le> n * 2 ^ 21"
  shows "card ((\<lambda>b. take 3 (page_path (w + b))) ` set (step_range 4096 0 len)) \<le> n"
proof -
  let ?p = "\<lambda>i. take 3 (page_path (w + push_bit 21 (of_nat i)))"
  have "(\<lambda>b. take 3 (page_path (w + b))) ` set (step_range 4096 0 len) \<subseteq> ?p ` {..<n}"
  proof (intro image_subsetI)
    fix b assume "b \<in> set (step_range 4096 0 len)"
    then have "unat b < n * 2 ^ 21" using len by (simp add: in_step_range word_less_nat_alt)
    then have "unat b div 2 ^ 21 < n" by (simp add: less_mult_imp_div_less)
    moreover have "drop_bit 21 b = of_nat (unat b div 2 ^ 21)"
    proof -
      have "of_nat (unat (drop_bit 21 b)) = drop_bit 21 b" by simp
      then show ?thesis by (simp only: unat_drop_bit_eq drop_bit_eq_div [where 'a = nat])
    qed
    ultimately show "take 3 (page_path (w + b)) \<in> ?p ` {..<n}" using region_path [OF w, of b] by auto
  qed
  then have "card ((\<lambda>b. take 3 (page_path (w + b))) ` set (step_range 4096 0 len)) \<le> card (?p ` {..<n})"
    by (intro card_mono) simp_all
  also have "\<dots> \<le> n" using card_image_le [of "{..<n}" ?p] by simp
  finally show ?thesis .
qed

section \<open>The two ways to run out of frames\<close>

lemma boot_text_frames: "\<exists>t. boot_text E mm ka hh = frames_text mm @ t"
  by (simp add: boot_text_def mem_text_def frames_text_def)

lemma start_last_frame:
  fixes s :: "'z scheduler_state_scheme"
  assumes "boot_answers E mm ka hh" "loaded E s" "clean_frame (ram s) (last (usable_frames mm))"
    and "length (usable_frames mm) = kernel_tables mm ka hh + 1"
  shows "\<exists>s1 s'. serial_init E s = Some (Ret () s1) \<and> start E s = Some (Stop Spin s') \<and>
    console_out s' = console_out s1 @ boot_text E mm ka hh @ out_of_frames"
proof -
  obtain s2 where st: "start E s = andthen (get_phys_block E) (\<lambda>_. start_modules E) s2"
    and s2: "switched E mm ka hh s2" "console_ready E s2"
      "\<exists>s1. serial_init E s = Some (Ret () s1) \<and> console_out s2 = console_out s1 @ boot_text E mm ka hh"
    using start_run [OF assms(1-3)] by metis
  have "first_page_frame s2 = 0" using s2(1) assms(4) by (simp add: switched_def)
  from get_phys_block_null [OF this s2(2)] obtain s' where
    s': "get_phys_block E s2 = Some (Stop Spin s')" "console_out s' = console_out s2 @ out_of_frames"
    unfolding out_of_frames_def by (elim exE conjE)
  obtain s1 where s1: "serial_init E s = Some (Ret () s1)" "console_out s2 = console_out s1 @ boot_text E mm ka hh"
    using s2(3) by (elim exE conjE)
  have "console_out s' = console_out s1 @ boot_text E mm ka hh @ out_of_frames"
    by (simp only: s'(2) s1(2) append_assoc)
  moreover have "start E s = Some (Stop Spin s')" unfolding st by (rule andthen_Stop) (rule s'(1))
  ultimately show ?thesis using s1(1) by (intro exI conjI)
qed

lemma start_starved:
  fixes s :: "'z scheduler_state_scheme"
  assumes env: "memmap_response E = Some mm" "kernel_address_response E = Some ka" "hhdm_response E = Some hh"
    and ok: "memory_map_ok E mm" and l: "entries_fit mm" and s: "loaded E s"
    and n: "length (usable_frames mm) < 2 ^ 31" "length (usable_frames mm) \<le> kernel_tables mm ka hh"
    and clean: "usable_frames mm \<noteq> [] \<Longrightarrow> clean_frame (ram s) (last (usable_frames mm))"
  shows "\<exists>s1 s' t. serial_init E s = Some (Ret () s1) \<and> start E s = Some (Stop Spin s') \<and>
    console_out s' = console_out s1 @ frames_text mm @ t @ out_of_frames"
proof -
  obtain s1 where s1: "serial_init E s = Some (Ret () s1)" "console_ready E s1" "serial_only s s1"
    using serial_run [OF s] by blast
  have a: "aspace s1 = None" "ram s1 = ram s"
    using serial_only_fields [OF s1(3)] s by (simp_all add: loaded_def)
  obtain s' t where s': "mem_init E s1 = Some (Stop Spin s')" "console_out s' = console_out s1 @ frames_text mm @ t @ out_of_frames"
    using mem_init_starved [OF env ok l a(1) s1(2) n] clean unfolding a(2) by blast
  have "start E s = Some (Stop Spin s')"
    by (simp only: start_def andthen_apply s1(1) s'(1) option.case outcome.case)
  then show ?thesis using s1(1) s'(2) by blast
qed

section \<open>Properties\<close>

text \<open>C12: the boot with too little memory. With no more usable frames than the kernel map takes,
  its root and its tables, which are at least 2048 (8 MiB), \<open>_start\<close> hangs in the allocator: it
  prints the number of frames it found, and last that the allocator's assertion failed. With
  a frame too few that is in the set-up of the memory; when the map takes the last frame,
  everything is set up, the kernel runs on in its own address space (which must map its image,
  \<open>image_kept\<close>) and the first allocation there fails, so the console shows \<open>boot_text\<close>
  first.\<close>

theorem start_gives_up:
  fixes s :: "'z scheduler_state_scheme"
  assumes "memmap_response E = Some mm" "kernel_address_response E = Some ka" "hhdm_response E = Some hh"
    and "memory_map_ok E mm" "entries_fit mm" "loaded E s"
    and "length (usable_frames mm) < 2 ^ 31" "length (usable_frames mm) \<le> kernel_tables mm ka hh + 1"
    and "usable_frames mm \<noteq> [] \<Longrightarrow> clean_frame (ram s) (last (usable_frames mm))"
    and "length (usable_frames mm) = kernel_tables mm ka hh + 1 \<Longrightarrow> image_kept mm ka hh"
  shows "2048 \<le> kernel_tables mm ka hh \<and> (\<exists>s1 s' t. serial_init E s = Some (Ret () s1) \<and> start E s = Some (Stop Spin s') \<and>
    console_out s' = console_out s1 @ frames_text mm @ t @
      trace_text (''arch/x64/mem.c'', 136, ''get_phys_block'') (PBAD ''Assertion (ret != NULL) failed'') \<and>
    (length (usable_frames mm) = kernel_tables mm ka hh + 1 \<longrightarrow> frames_text mm @ t = boot_text E mm ka hh))"
proof (cases "length (usable_frames mm) = kernel_tables mm ka hh + 1")
  case True
  then have "usable_frames mm \<noteq> []" by auto
  then have "boot_answers E mm ka hh" "clean_frame (ram s) (last (usable_frames mm))"
    using assms True by (simp_all add: boot_answers_def)
  moreover obtain t where "boot_text E mm ka hh = frames_text mm @ t" using boot_text_frames by blast
  ultimately show ?thesis
    using start_last_frame [OF _ assms(6) _ True] kernel_tables_ge [of mm ka hh]
    unfolding out_of_frames_def [symmetric] by (metis append_assoc)
next
  case False
  then have "length (usable_frames mm) \<le> kernel_tables mm ka hh" using assms(8) by simp
  from start_starved [OF assms(1-7) this assms(9)] show ?thesis
    using kernel_tables_ge [of mm ka hh] False unfolding out_of_frames_def [symmetric] by blast
qed

subsection \<open>Witness\<close>

text \<open>The machine of the boot with two usable frames.\<close>

definition low_env :: env where
  "low_env = boot_env\<lparr>memmap_response := Some small_memmap\<rparr>"

lemma loaded_memmap: "loaded (boot_env\<lparr>memmap_response := r\<rparr>) fresh_state"
proof -
  let ?E = "boot_env\<lparr>memmap_response := r\<rparr>"
  have "sends_eventually ?E = sends_eventually boot_env" by (intro ext sends_cong) simp
  moreover have "echoes ?E = echoes boot_env" by (intro ext) (simp add: echoes_def)
  ultimately show ?thesis using fresh_loaded by (simp add: loaded_def)
qed

lemma low_loaded: "loaded low_env fresh_state"
  unfolding low_env_def by (rule loaded_memmap)

theorem start_gives_up_witness:
  "\<exists>s1 s' t. serial_init low_env fresh_state = Some (Ret () s1) \<and> start low_env fresh_state = Some (Stop Spin s') \<and>
     console_out s' = console_out s1 @ frames_text small_memmap @ t @
       trace_text (''arch/x64/mem.c'', 136, ''get_phys_block'') (PBAD ''Assertion (ret != NULL) failed'')"
proof -
  have a: "memmap_response low_env = Some small_memmap" "kernel_address_response low_env = Some big_kernel"
    "hhdm_response low_env = Some big_hhdm"
    using boot_env_answers by (simp_all add: low_env_def boot_answers_def)
  have ok: "memory_map_ok low_env small_memmap"
    using small_memmap_ok by (simp add: memory_map_ok_def frame_ok_def low_env_def small_env_def boot_env_def big_env_def)
  have l: "entries_fit small_memmap"
    by (simp add: entries_fit_def entry_fits_def small_memmap_def)
  have n: "length (usable_frames small_memmap) < 2 ^ 31"
    "length (usable_frames small_memmap) \<le> kernel_tables small_memmap big_kernel big_hhdm + 1"
    using kernel_tables_ge [of small_memmap big_kernel big_hhdm] by (simp_all add: small_usable)
  have "clean_frame (ram fresh_state) f" for f by (simp add: clean_frame_def fresh_state_def)
  moreover have "length (usable_frames small_memmap) \<noteq> kernel_tables small_memmap big_kernel big_hhdm + 1"
    using kernel_tables_ge [of small_memmap big_kernel big_hhdm] by (simp add: small_usable)
  ultimately show ?thesis using start_gives_up [OF a ok l low_loaded n] by blast
qed

end
