(* ===== verification/Module_Placement.thy ===== *)
theory Module_Placement
  imports Low_Memory
begin

section \<open>Modules that the kernel map misplaces (\<open>arch/x64/mem.c\<close>, \<open>main.c\<close>)\<close>

text \<open>
  \<open>setup_kernel_map\<close> maps a module at \<open>__FLUX_BASE_VIRT\<close> plus its physical address and checks
  nothing. From 2 GiB of physical address on, the sum wraps around and the module lies in the lower
  half; below the length of the kernel image, module and kernel are mapped over each other.
\<close>

text \<open>Where a module at or above 2 GiB lies.\<close>

lemma wrapped_module:
  assumes "2 ^ 31 \<le> unat base" "unat base + unat len \<le> 2 ^ 47" "b < len"
  shows "unat (FLUX_BASE_VIRT + (base + b)) = unat base - 2 ^ 31 + unat b"
    "\<not> high (FLUX_BASE_VIRT + (base + b))" "canonical (FLUX_BASE_VIRT + (base + b))"
proof -
  have b: "unat b < unat len" using assms(3) by (simp add: word_less_nat_alt)
  have u: "unat (base + b) = unat base + unat b" using b assms(2) by (intro unat_plus_exact) simp
  have "2 ^ 31 \<le> unat (base + b)" using assms(1) u by simp
  from wrapped_address [OF this]
  show w: "unat (FLUX_BASE_VIRT + (base + b)) = unat base - 2 ^ 31 + unat b" using assms(1) u by simp
  have "unat (FLUX_BASE_VIRT + (base + b)) < 2 ^ 47" using w b assms(2) by simp
  then show "\<not> high (FLUX_BASE_VIRT + (base + b))" "canonical (FLUX_BASE_VIRT + (base + b))"
    by (simp_all add: high_def word_le_nat_alt low_canonical)
qed

lemma kernel_map_wrapped:
  assumes mm: "memmap_entries mm = pre @ e # post" "is_kernel_entry e" "memmap_base e \<noteq> physical_base ka"
    and al: "page_aligned (memmap_base e)" and base: "2 ^ 31 \<le> unat (memmap_base e)"
      "unat (memmap_base e) + unat (memmap_length e) \<le> 2 ^ 47"
    and hh: "high (hhdm_offset hh)" "unat (hhdm_offset hh) + 2 ^ 32 \<le> 2 ^ 64" and b: "b < memmap_length e"
    and free: "\<forall>x \<in> set post. \<not> entry_covers ka (FLUX_BASE_VIRT + (memmap_base e + b)) x"
  shows "kernel_map mm ka hh (FLUX_BASE_VIRT + (memmap_base e + b)) = Some (memmap_base e + b)"
proof -
  have o: "FLUX_BASE_VIRT + (memmap_base e + b) = FLUX_BASE_VIRT + (entry_offset ka e + b)"
    using mm(3) by (simp add: entry_offset_def)
  note w = wrapped_module [OF base b]
  have "\<not> window_covers hh (FLUX_BASE_VIRT + (memmap_base e + b))"
    using window_covers_high [OF hh w(3)] w(2) by blast
  from kernel_map_entry [OF mm(1,2) al _ b o w(3) free this] show ?thesis using base(2) by simp
qed

section \<open>Properties\<close>

text \<open>C14: a module at or above 2 GiB. \<open>setup_kernel_map\<close> maps it 2 GiB below its physical
  address, in the lower half and open to user mode, unless a later entry is mapped over it; a
  module at 2 GiB is at address 0. Nothing is where the kernel takes the module to be.\<close>

theorem high_module_wraps:
  assumes "memmap_response E = Some mm" "kernel_address_response E = Some ka" "hhdm_response E = Some hh"
    and "entries_fit mm" "pmem_ok E s (root # fs)" "clean_frame (ram s) root"
    and "console_ready E s" "kernel_tables mm ka hh \<le> length fs"
    and "memmap_entries mm = pre @ e # post" "is_kernel_entry e" "memmap_base e \<noteq> physical_base ka"
    and "page_aligned (memmap_base e)" "2 ^ 31 \<le> unat (memmap_base e)"
      "unat (memmap_base e) + unat (memmap_length e) \<le> 2 ^ 47"
    and "high (hhdm_offset hh)" "unat (hhdm_offset hh) + 2 ^ 32 \<le> 2 ^ 64"
    and "\<forall>x \<in> set post. \<forall>b. b < memmap_length e \<longrightarrow> \<not> entry_covers ka (FLUX_BASE_VIRT + (memmap_base e + b)) x"
  shows "\<exists>s'. setup_kernel_map E s = Some (Ret () s') \<and> (\<forall>b va. b < memmap_length e \<longrightarrow>
    unat va = unat (memmap_base e) - 2 ^ 31 + unat b \<longrightarrow>
    translate (ram s') root va = Some (memmap_base e + b) \<and> user_writes (ram s') root va \<and> \<not> high va)"
proof -
  obtain s' where s': "setup_kernel_map E s = Some (Ret () s')" "kernel_space mm ka hh (ram s') root"
    using setup_kernel_map_run [OF assms(1-7)] assms(8) by auto
  have "kernel_map mm ka hh va = Some (memmap_base e + b) \<and> \<not> high va"
    if b: "b < memmap_length e" and va: "unat va = unat (memmap_base e) - 2 ^ 31 + unat b" for b va
  proof -
    note w = wrapped_module [OF assms(13,14) b]
    have "va = FLUX_BASE_VIRT + (memmap_base e + b)" by (simp only: word_unat_eq_iff va w(1))
    then show ?thesis using kernel_map_wrapped [OF assms(9-16) b] w(2) assms(17) b by blast
  qed
  then show ?thesis using s' by (intro exI [of _ s']) (simp add: kernel_space_def)
qed

text \<open>C15: a module below the length of the kernel image. Its pages and pages of the image are
  mapped to the same addresses, and the entry that the memory map lists later wins: with the
  kernel last the module cannot be reached at \<open>__FLUX_BASE_VIRT\<close> plus its address, with the
  module last the kernel's own code or data is replaced.\<close>

theorem low_module_overlaps:
  assumes "memmap_response E = Some mm" "kernel_address_response E = Some ka" "hhdm_response E = Some hh"
    and "entries_fit mm" "pmem_ok E s (root # fs)" "clean_frame (ram s) root"
    and "console_ready E s" "kernel_tables mm ka hh \<le> length fs"
    and "memmap_entries mm = pre @ y # post" "x \<in> set pre" "is_kernel_entry x" "is_kernel_entry y"
    and "(memmap_base x = physical_base ka) \<noteq> (memmap_base y = physical_base ka)" "physical_base ka \<noteq> 0"
    and "page_aligned (memmap_base y)" "unat (memmap_base y) + unat (memmap_length y) \<le> 2 ^ 31"
    and "b < memmap_length x" "c < memmap_length y" "entry_offset ka x + b = entry_offset ka y + c"
    and "va = FLUX_BASE_VIRT + (entry_offset ka x + b)"
    and "\<forall>z \<in> set post. \<not> entry_covers ka va z" "\<not> window_covers hh va"
  shows "\<exists>s'. setup_kernel_map E s = Some (Ret () s') \<and> translate (ram s') root va = Some (memmap_base y + c) \<and>
    memmap_base y + c \<noteq> memmap_base x + b"
proof -
  obtain s' where s': "setup_kernel_map E s = Some (Ret () s')" "kernel_space mm ka hh (ram s') root"
    using setup_kernel_map_run [OF assms(1-7)] assms(8) by auto
  have cl: "unat c < unat (memmap_length y)" using assms(18) by (simp add: word_less_nat_alt)
  have le: "unat (entry_offset ka y) \<le> unat (memmap_base y)" by (simp add: entry_offset_def)
  then have "unat (entry_offset ka y + c) = unat (entry_offset ka y) + unat c"
    using cl assms(16) by (intro unat_plus_exact) simp
  then have "high va" unfolding assms(20,19) using cl le assms(16) by (intro kernel_address(2)) simp
  then have canon: "canonical va" by (rule high_canonical)
  have va: "va = FLUX_BASE_VIRT + (entry_offset ka y + c)" by (simp only: assms(19,20))
  have "kernel_map mm ka hh va = Some (memmap_base y + c)"
    using kernel_map_entry [OF assms(9,12,15) _ assms(18) va canon assms(21,22)] assms(16) by simp
  moreover have "memmap_base y + c \<noteq> memmap_base x + b"
  proof (cases "memmap_base x = physical_base ka")
    case True
    then have "b = memmap_base y + c" using assms(13,19) by (simp add: entry_offset_def)
    then show ?thesis using True assms(14) by simp
  next
    case False
    then have "memmap_base x + b = c" using assms(13,19) by (simp add: entry_offset_def)
    then show ?thesis using False assms(13,14) by auto
  qed
  ultimately show ?thesis using s' by (intro exI [of _ s']) (simp add: kernel_space_def)
qed

text \<open>C13: what a module above 2 GiB does to the boot. If it is mapped where the allocator looks for
  its first frame, \<open>_start\<close> does not fault there (C2): it takes the frame, and the list goes on
  with a word of the module's memory. A word that is 0 makes the next allocation fail its
  assertion, one that nothing is mapped at makes it a page fault.\<close>

theorem start_follows_module:
  fixes s :: "'z scheduler_state_scheme"
  assumes "boot_answers E mm ka hh" "loaded E s" "clean_frame (ram s) (last (usable_frames mm))"
    and "kernel_tables mm ka hh + 1 < length (usable_frames mm)" "image_kept mm ka hh"
    and "memmap_entries mm = pre @ e # post" "is_kernel_entry e" "memmap_base e \<noteq> physical_base ka"
    and "page_aligned (memmap_base e)" "2 ^ 31 \<le> unat (memmap_base e)"
      "unat (memmap_base e) + unat (memmap_length e) \<le> 2 ^ 47"
    and "high (hhdm_offset hh)" "unat (hhdm_offset hh) + 2 ^ 32 \<le> 2 ^ 64"
    and "b < memmap_length e" "unat (next_frame mm ka hh) = unat (memmap_base e) - 2 ^ 31 + unat b"
    and "\<forall>x \<in> set post. \<not> entry_covers ka (next_frame mm ka hh) x"
  shows "\<exists>s1 s'. serial_init E s = Some (Ret () s1) \<and> start E s = start_modules E s' \<and>
    console_out s' = console_out s1 @ boot_text E mm ka hh \<and>
    first_page_frame s' = rd64 (ram s') (memmap_base e + b) \<and>
    (first_page_frame s' = 0 \<longrightarrow> (\<exists>s''. get_phys_block E s' = Some (Stop Spin s'') \<and>
       console_out s'' = console_out s' @ out_of_frames)) \<and>
    (first_page_frame s' \<noteq> 0 \<and> aligned 8 (first_page_frame s') \<and> kernel_map mm ka hh (first_page_frame s') = None \<longrightarrow>
       get_phys_block E s' = Some (Stop (Page_Fault (first_page_frame s')) s'))"
proof -
  let ?f = "next_frame mm ka hh" and ?p = "memmap_base e + b"
  obtain s0 where st: "start E s = andthen (get_phys_block E) (\<lambda>_. start_modules E) s0"
    and s0: "switched E mm ka hh s0" "console_ready E s0"
      "\<exists>s1. serial_init E s = Some (Ret () s1) \<and> console_out s0 = console_out s1 @ boot_text E mm ka hh"
    using start_run [OF assms(1-3)] by metis
  have f: "first_page_frame s0 = ?f" "?f \<noteq> 0" "frame_addr ?f"
    and a: "aspace s0 = Some (kernel_pml4_table s0)" and sp: "kernel_space mm ka hh (ram s0) (kernel_pml4_table s0)"
    using s0(1) assms(4) by (simp_all add: switched_def)
  have va: "?f = FLUX_BASE_VIRT + (memmap_base e + b)"
    by (simp only: word_unat_eq_iff assms(15) wrapped_module(1) [OF assms(10,11,14)])
  then have "kernel_map mm ka hh ?f = Some ?p"
    using kernel_map_wrapped [OF assms(6-14)] assms(16) by simp
  moreover define s' where "s' = s0\<lparr>first_page_frame := rd64 (ram s0) ?p, n_free_page_frames := n_free_page_frames s0 - 1\<rparr>"
  ultimately have g: "get_phys_block E s0 = Some (Ret ?f s')"
    using get_phys_block_switched [OF a sp f(1,2), of E] f(3) by simp
  have s': "first_page_frame s' = rd64 (ram s') ?p" "aspace s' = Some (kernel_pml4_table s0)"
    "kernel_space mm ka hh (ram s') (kernel_pml4_table s0)" "com_ports s' = com_ports s0"
    "primary_com_port s' = primary_com_port s0" "io_trace s' = io_trace s0"
    using a sp by (simp_all add: s'_def)
  have start: "start E s = start_modules E s'" unfolding st
    by (rule andthen_Ret [where m = "get_phys_block E" and f = "\<lambda>_. start_modules E", OF g])
  have ready: "console_ready E s'" using s0(2) console_ready_cong [OF s'(4,5)] by simp
  have out: "console_out s' = console_out s0" by (rule console_out_cong [OF s'(4-6)])
  have null: "\<exists>s''. get_phys_block E s' = Some (Stop Spin s'') \<and> console_out s'' = console_out s' @ out_of_frames"
    if "first_page_frame s' = 0"
    using get_phys_block_null [OF that ready] unfolding out_of_frames_def by blast
  have fault: "get_phys_block E s' = Some (Stop (Page_Fault (first_page_frame s')) s')"
    if "first_page_frame s' \<noteq> 0" "aligned 8 (first_page_frame s')" "kernel_map mm ka hh (first_page_frame s') = None"
    using get_phys_block_switched [OF s'(2,3) refl that(1,2), of E] that(3) by simp
  obtain s1 where "serial_init E s = Some (Ret () s1)" "console_out s0 = console_out s1 @ boot_text E mm ka hh"
    using s0(3) by blast
  then show ?thesis
    using start out s'(1) null fault by (intro exI [of _ s1] exI [of _ s']) (simp only: simp_thms, blast)
qed

subsection \<open>Witnesses\<close>

text \<open>The machine of \<open>big_memmap\<close> with its module at 3 GiB.\<close>

definition kernel_entry :: limine_memmap_entry where
  "kernel_entry = \<lparr>memmap_base = 0x200000, memmap_length = 0x3000, memmap_type = LIMINE_MEMMAP_KERNEL_AND_MODULES\<rparr>"

definition big_memory :: limine_memmap_entry where
  "big_memory = \<lparr>memmap_base = 0x100000000, memmap_length = 0x400000000, memmap_type = LIMINE_MEMMAP_USABLE\<rparr>"

definition module_at :: "u64 \<Rightarrow> limine_memmap_entry" where
  "module_at p = \<lparr>memmap_base = p, memmap_length = 0x1000, memmap_type = LIMINE_MEMMAP_KERNEL_AND_MODULES\<rparr>"

definition wrap_memmap :: limine_memmap_response where
  "wrap_memmap = \<lparr>memmap_revision = 0, memmap_entries = [kernel_entry, module_at 0xC0000000, big_memory]\<rparr>"

text \<open>The same with the module in the second page of memory, below the kernel.\<close>

definition over_memmap :: limine_memmap_response where
  "over_memmap = \<lparr>memmap_revision = 0, memmap_entries = [module_at 0x1000, kernel_entry, big_memory]\<rparr>"

lemmas memmap_defs = wrap_memmap_def over_memmap_def kernel_entry_def big_memory_def module_at_def is_kernel_entry_def LIMINE_MEMMAP_USABLE_def
  LIMINE_MEMMAP_KERNEL_AND_MODULES_def

lemma small_module_maps:
  assumes "mm \<in> {wrap_memmap, over_memmap}"
  obtains root fs where "pmem_ok (big_env\<lparr>memmap_response := Some mm\<rparr>) big_started (root # fs)"
    "clean_frame (ram big_started) root" "console_ready (big_env\<lparr>memmap_response := Some mm\<rparr>) big_started"
    "kernel_tables mm big_kernel big_hhdm \<le> length fs" "entries_fit mm"
proof -
  let ?E = "big_env\<lparr>memmap_response := Some mm\<rparr>"
  obtain root fs where us: "rev (usable_frames big_memmap) = root # fs"
    using big_length by (cases "rev (usable_frames big_memmap)") auto
  note ok = big_started_facts(1) [unfolded us]
  have "length (kernel_steps mm big_kernel big_hhdm) = 0x100004"
    using assms by (auto simp: kernel_steps_def hhdm_steps_def entry_steps_def length_step_range memmap_defs)
  then have n: "kernel_tables mm big_kernel big_hhdm \<le> length fs"
    using kernel_tables_le [of mm big_kernel big_hhdm] big_length arg_cong [OF us, of length] by simp
  have "pmem_ok ?E big_started (root # fs)" using ok by (simp add: pmem_ok_def frame_ok_def)
  moreover have "clean_frame (ram big_started) root" using ok big_started_facts(3) by (simp add: pmem_ok_def)
  moreover have "sends_eventually ?E = sends_eventually big_env" by (intro ext sends_cong) simp
  then have "console_ready ?E big_started" using big_started_facts(2) by (simp only: console_ready_def)
  moreover have "entries_fit mm" using assms by (auto simp: entries_fit_def entry_fits_def memmap_defs)
  ultimately show ?thesis using that n by blast
qed

theorem high_module_wraps_witness:
  "\<exists>(s :: paging_state) s' root. setup_kernel_map (big_env\<lparr>memmap_response := Some wrap_memmap\<rparr>) s = Some (Ret () s') \<and>
     translate (ram s') root 0x40000010 = Some 0xC0000010 \<and> user_writes (ram s') root 0x40000010"
proof -
  let ?E = "big_env\<lparr>memmap_response := Some wrap_memmap\<rparr>"
  let ?e = "module_at 0xC0000000"
  obtain root fs where f: "pmem_ok ?E big_started (root # fs)" "clean_frame (ram big_started) root"
    "console_ready ?E big_started" "kernel_tables wrap_memmap big_kernel big_hhdm \<le> length fs" "entries_fit wrap_memmap"
    by (rule small_module_maps [of wrap_memmap]) simp
  have a: "memmap_response ?E = Some wrap_memmap" "kernel_address_response ?E = Some big_kernel" "hhdm_response ?E = Some big_hhdm"
    by (simp_all add: big_env_def)
  have e: "memmap_entries wrap_memmap = [kernel_entry] @ ?e # [big_memory]"
    "is_kernel_entry ?e" "memmap_base ?e \<noteq> physical_base big_kernel" "page_aligned (memmap_base ?e)"
    "2 ^ 31 \<le> unat (memmap_base ?e)" "unat (memmap_base ?e) + unat (memmap_length ?e) \<le> 2 ^ 47"
    by (simp_all add: memmap_defs big_kernel_def aligned_def)
  have h: "high (hhdm_offset big_hhdm)" "unat (hhdm_offset big_hhdm) + 2 ^ 32 \<le> 2 ^ 64"
    by (simp_all add: big_hhdm_def high_def)
  have p: "\<forall>x \<in> set [big_memory]. \<forall>b. b < memmap_length ?e \<longrightarrow> \<not> entry_covers big_kernel (FLUX_BASE_VIRT + (memmap_base ?e + b)) x"
    by (simp add: entry_covers_def memmap_defs)
  obtain s' where "setup_kernel_map ?E big_started = Some (Ret () s')"
    "\<forall>b va. b < memmap_length ?e \<longrightarrow> unat va = unat (memmap_base ?e) - 2 ^ 31 + unat b \<longrightarrow>
      translate (ram s') root va = Some (memmap_base ?e + b) \<and> user_writes (ram s') root va \<and> \<not> high va"
    using high_module_wraps [OF a f(5,1-4) e h p] by blast
  moreover from this(2) [rule_format, of "0x10" "0x40000010"]
  have "translate (ram s') root 0x40000010 = Some 0xC0000010 \<and> user_writes (ram s') root 0x40000010" by (simp add: module_at_def)
  ultimately show ?thesis by blast
qed

theorem low_module_overlaps_witness:
  "\<exists>(s :: paging_state) s' root. setup_kernel_map (big_env\<lparr>memmap_response := Some over_memmap\<rparr>) s = Some (Ret () s') \<and>
     translate (ram s') root (FLUX_BASE_VIRT + 0x1010) = Some 0x201010"
proof -
  let ?E = "big_env\<lparr>memmap_response := Some over_memmap\<rparr>"
  let ?x = "module_at 0x1000" and ?y = kernel_entry and ?z = big_memory
  let ?va = "FLUX_BASE_VIRT + (entry_offset big_kernel ?x + 0x10)"
  obtain root fs where f: "pmem_ok ?E big_started (root # fs)" "clean_frame (ram big_started) root"
    "console_ready ?E big_started" "kernel_tables over_memmap big_kernel big_hhdm \<le> length fs" "entries_fit over_memmap"
    by (rule small_module_maps [of over_memmap]) simp
  have a: "memmap_response ?E = Some over_memmap" "kernel_address_response ?E = Some big_kernel" "hhdm_response ?E = Some big_hhdm"
    by (simp_all add: big_env_def)
  have o: "entry_offset big_kernel ?x = 0x1000" "entry_offset big_kernel ?y = 0"
    by (simp_all add: entry_offset_def big_kernel_def memmap_defs)
  have e: "memmap_entries over_memmap = [?x] @ ?y # [?z]" "?x \<in> set [?x]" "is_kernel_entry ?x" "is_kernel_entry ?y"
    "(memmap_base ?x = physical_base big_kernel) \<noteq> (memmap_base ?y = physical_base big_kernel)"
    "physical_base big_kernel \<noteq> 0" "page_aligned (memmap_base ?y)"
    "unat (memmap_base ?y) + unat (memmap_length ?y) \<le> 2 ^ 31"
    "(0x10 :: u64) < memmap_length ?x" "(0x1010 :: u64) < memmap_length ?y"
    by (simp_all add: memmap_defs big_kernel_def aligned_def)
  have eq: "entry_offset big_kernel ?x + 0x10 = entry_offset big_kernel ?y + 0x1010" by (simp add: o)
  have z: "\<forall>z \<in> set [?z]. \<not> entry_covers big_kernel ?va z" by (simp add: entry_covers_def memmap_defs)
  have "\<not> window_covers big_hhdm ?va"
    by (rule window_below) (simp_all add: big_hhdm_def aligned_def high_def o unat_FLUX_BASE)
  from low_module_overlaps [OF a f(5,1-4) e eq refl z this] obtain s' where
    "setup_kernel_map ?E big_started = Some (Ret () s')" "translate (ram s') root ?va = Some (memmap_base ?y + 0x1010)" by blast
  then show ?thesis by (intro exI [of _ big_started] exI [of _ s'] exI [of _ root]) (simp add: o kernel_entry_def)
qed

text \<open>A machine with 2 GiB of free memory from 4 GiB on and a module of 2 GiB above it: all of the
  free memory has the module's addresses.\<close>

definition high_module :: limine_memmap_entry where
  "high_module = \<lparr>memmap_base = 0x180000000, memmap_length = 0x80000000, memmap_type = LIMINE_MEMMAP_KERNEL_AND_MODULES\<rparr>"

definition high_memory :: limine_memmap_entry where
  "high_memory = \<lparr>memmap_base = 0x100000000, memmap_length = 0x80000000, memmap_type = LIMINE_MEMMAP_USABLE\<rparr>"

definition high_memmap :: limine_memmap_response where
  "high_memmap = \<lparr>memmap_revision = 0, memmap_entries = [kernel_entry, high_memory, high_module]\<rparr>"

lemmas high_defs = high_memmap_def kernel_entry_def high_memory_def high_module_def

definition high_env :: env where
  "high_env = boot_env\<lparr>memmap_response := Some high_memmap\<rparr>"

lemma high_usable: "usable_frames high_memmap = map (\<lambda>b. 0x100000000 + b) (step_range 4096 0 0x80000000)"
  by (simp add: usable_frames_def high_defs entry_frames_def LIMINE_MEMMAP_USABLE_def
      LIMINE_MEMMAP_KERNEL_AND_MODULES_def)

lemma high_tables: "kernel_tables high_memmap big_kernel big_hhdm + 1 < length (usable_frames high_memmap)"
proof -
  let ?f = "\<lambda>w len. (\<lambda>b. take 3 (page_path (w + b))) ` set (step_range 4096 0 len) :: u64 list set"
  let ?w = "FLUX_BASE_VIRT + 0x180000000" and ?h = "hhdm_offset big_hhdm"
  have es: "filter is_kernel_entry (memmap_entries high_memmap) = [kernel_entry, high_module]"
    by (simp add: high_defs memmap_defs)
  have "memmap_length kernel_entry = 0x3000" "memmap_length high_module = 0x80000000"
    "entry_offset big_kernel kernel_entry = 0" "entry_offset big_kernel high_module = 0x180000000"
    by (simp_all add: kernel_entry_def high_module_def entry_offset_def big_kernel_def)
  then have "(\<lambda>x. take 3 (page_path (snd x))) ` set (kernel_steps high_memmap big_kernel big_hhdm) =
      ?f FLUX_BASE_VIRT 0x3000 \<union> ?f ?w 0x80000000 \<union> ?f ?h 0x100000000"
    unfolding kernel_steps_def es
    by (simp only: list.map concat.simps append_Nil2 set_append entry_steps_offset hhdm_steps_def set_map image_Un image_image
        snd_conv add.assoc add_0 Un_assoc)
  moreover have z: "take_bit 21 FLUX_BASE_VIRT = 0" "take_bit 21 ?w = 0" "take_bit 21 ?h = 0"
    by (simp_all add: FLUX_BASE_VIRT_def big_hhdm_def)
  have "card (?f FLUX_BASE_VIRT 0x3000) \<le> 1" by (rule region_card [OF z(1)]) simp_all
  moreover have "card (?f ?w 0x80000000) \<le> 1024" by (rule region_card [OF z(2)]) simp_all
  moreover have "card (?f ?h 0x100000000) \<le> 2048" by (rule region_card [OF z(3)]) simp_all
  ultimately have "card ((\<lambda>x. take 3 (page_path (snd x))) ` set (kernel_steps high_memmap big_kernel big_hhdm)) \<le> 1 + 1024 + 2048"
    using card_Un_le [of "?f FLUX_BASE_VIRT 0x3000 \<union> ?f ?w 0x80000000" "?f ?h 0x100000000"]
      card_Un_le [of "?f FLUX_BASE_VIRT 0x3000" "?f ?w 0x80000000"] by simp
  then have "kernel_tables high_memmap big_kernel big_hhdm \<le> 3 * (1 + 1024 + 2048)"
    using tables_of_regions [of "kernel_steps high_memmap big_kernel big_hhdm"] by (simp add: kernel_tables_def)
  then show ?thesis by (simp add: high_usable length_step_range)
qed

lemma high_image: "image_kept high_memmap big_kernel big_hhdm"
proof -
  let ?k = kernel_entry and ?u = high_memory and ?m = high_module
  have o: "entry_offset big_kernel ?k = 0" by (simp add: entry_offset_def big_kernel_def kernel_entry_def)
  have "kernel_map high_memmap big_kernel big_hhdm (FLUX_BASE_VIRT + b) = Some (0x200000 + b)" if b: "b < 0x3000" for b
  proof -
    let ?va = "FLUX_BASE_VIRT + b"
    have bl: "unat b < 2 ^ 31" using b by (simp add: word_less_nat_alt)
    have hi: "high ?va" by (rule kernel_address(2) [OF bl])
    have "\<not> entry_covers big_kernel ?va ?m"
    proof
      assume "entry_covers big_kernel ?va ?m"
      then obtain c where c: "c \<in> set (step_range 4096 0 0x80000000)"
          "page_path (FLUX_BASE_VIRT + (0x180000000 + c)) = page_path ?va"
        by (auto simp: entry_covers_def entry_steps_offset entry_offset_def big_kernel_def high_module_def)
      then have "c < 0x80000000" by (simp add: in_step_range)
      note w = wrapped_module [OF _ _ this, of "0x180000000"]
      have "high (FLUX_BASE_VIRT + (0x180000000 + c))" using path_high [OF _ hi] w(3) c(2) by simp
      then show False using w(2) by simp
    qed
    moreover have "\<not> entry_covers big_kernel ?va ?u" by (simp add: entry_covers_def memmap_defs high_memory_def)
    moreover have "\<not> window_covers big_hhdm ?va"
      by (rule window_below) (use bl in \<open>simp_all add: big_hhdm_def aligned_def high_def unat_FLUX_BASE\<close>)
    moreover have "memmap_entries high_memmap = [] @ ?k # [?u, ?m]" by (simp add: high_memmap_def)
    ultimately show ?thesis
      using kernel_map_entry [of high_memmap "[]" ?k "[?u, ?m]" b ?va big_kernel big_hhdm] b high_canonical [OF hi]
      by (simp add: o [unfolded kernel_entry_def] kernel_entry_def is_kernel_entry_def aligned_def)
  qed
  then show ?thesis by (auto simp: image_kept_def high_defs memmap_defs big_kernel_def)
qed

theorem start_follows_module_witness:
  "\<exists>p s'. start high_env fresh_state = start_modules high_env s' \<and> first_page_frame s' = rd64 (ram s') p \<and>
     0x180000000 \<le> p \<and> p < 0x200000000"
proof -
  let ?m = high_module and ?pre = "[kernel_entry, high_memory]"
  let ?f = "next_frame high_memmap big_kernel big_hhdm"
  have bm: "boot_map high_env = Some" by (simp add: high_env_def boot_env_def big_env_def idle_env_def)
  have "memory_map_ok high_env high_memmap"
    by (rule single_run_ok [OF high_usable bm]) (simp_all add: aligned_def high_defs)
  moreover have "entries_fit high_memmap" by (simp add: entries_fit_def entry_fits_def high_defs)
  ultimately have a: "boot_answers high_env high_memmap big_kernel big_hhdm"
    using high_tables boot_env_answers by (simp add: boot_answers_def high_env_def high_usable length_step_range)
  have l: "loaded high_env fresh_state" unfolding high_env_def by (rule loaded_memmap)
  have c: "clean_frame (ram fresh_state) (last (usable_frames high_memmap))" by (simp add: clean_frame_def fresh_state_def)
  have "?f \<in> set (rev (usable_frames high_memmap))"
    unfolding next_frame_def using high_tables by (intro nth_mem) simp
  then obtain b where b: "?f = 0x100000000 + b" "b < 0x80000000"
    unfolding set_rev high_usable set_map by (auto simp: in_step_range)
  then have u: "unat ?f = unat (memmap_base ?m) - 2 ^ 31 + unat b" "b < memmap_length ?m"
    using unat_plus_exact [of "0x100000000" b] by (simp_all add: word_less_nat_alt high_module_def)
  have e: "memmap_entries high_memmap = ?pre @ ?m # []" "is_kernel_entry ?m" "memmap_base ?m \<noteq> physical_base big_kernel"
    "page_aligned (memmap_base ?m)" "2 ^ 31 \<le> unat (memmap_base ?m)" "unat (memmap_base ?m) + unat (memmap_length ?m) \<le> 2 ^ 47"
    "high (hhdm_offset big_hhdm)" "unat (hhdm_offset big_hhdm) + 2 ^ 32 \<le> 2 ^ 64"
    by (simp_all add: high_defs is_kernel_entry_def big_kernel_def aligned_def big_hhdm_def high_def)
  from start_follows_module [OF a l c high_tables high_image e u(2,1)]
  obtain s' where "start high_env fresh_state = start_modules high_env s'" "first_page_frame s' = rd64 (ram s') (0x180000000 + b)"
    by (auto simp: high_module_def)
  moreover have "0x180000000 \<le> 0x180000000 + b" "0x180000000 + b < 0x200000000"
    using b(2) unat_plus_exact [of "0x180000000" b] by (simp_all add: word_less_nat_alt word_le_nat_alt)
  ultimately show ?thesis by (intro exI [of _ "0x180000000 + b"] exI [of _ s']) simp
qed

end
