(* ===== verification/Double_Put.thy ===== *)
theory Double_Put
  imports Pmem
begin

section \<open>Giving back a frame that is free (\<open>put_phys_block\<close> of \<open>arch/x64/mem.c\<close>)\<close>

text \<open>
  \<open>put_phys_block\<close> does not check that its frame is in use. Given a free frame it links that
  frame in front of the list it is on already: the list becomes a ring. \<open>ring m c\<close> says that
  the frames of \<open>c\<close> are linked in a circle; on a ring the allocator never ends and hands the
  same frames out over and over.
\<close>

definition ring :: "ram \<Rightarrow> u64 list \<Rightarrow> bool" where
  "ring m c \<longleftrightarrow> c \<noteq> [] \<and> (\<forall>i<length c. rd64 m (c ! i) = c ! (Suc i mod length c))"

lemma ring_link: "ring m c \<Longrightarrow> rd64 m (c ! (i mod length c)) = c ! (Suc i mod length c)"
  by (simp add: ring_def mod_Suc_eq)

lemma ring_nth: "ring m c \<Longrightarrow> c ! (i mod length c) \<in> set c"
  by (simp add: ring_def)

text \<open>A list that enters a ring has no end.\<close>

lemma ring_no_list:
  assumes "ring m c" "\<forall>f \<in> set c. f \<noteq> 0"
  shows "\<not> free_list m (c ! (i mod length c)) gs"
proof (induction gs arbitrary: i)
  case Nil
  then show ?case using assms(2) ring_nth [OF assms(1)] by simp
next
  case (Cons g gs)
  then show ?case using ring_link [OF assms(1), of i] by auto
qed

lemma ring_gets:
  assumes "ring (ram s) c" "\<forall>f \<in> set c. frame_ok E f" "aspace s = None" "first_page_frame s = c ! (i mod length c)"
  shows "\<exists>s'. calls n (get_phys_block E) s = Some (Ret (map (\<lambda>j. c ! (j mod length c)) [i..<i + n]) s') \<and> ram s' = ram s"
  using assms(1,3,4)
proof (induction n arbitrary: i s)
  case 0
  then show ?case by (simp add: kmon_simps)
next
  case (Suc n)
  let ?f = "c ! (i mod length c)"
  let ?s1 = "s\<lparr>first_page_frame := rd64 (ram s) ?f, n_free_page_frames := n_free_page_frames s - 1\<rparr>"
  have f: "frame_ok E ?f" "?f \<noteq> 0" using assms(2) ring_nth [OF Suc.prems(1)] frame_ok_nonzero by blast+
  then have g: "get_phys_block E s = Some (Ret ?f ?s1)"
    using Suc.prems(2,3) by (simp add: get_phys_block_def kmon_simps boot_load64_head)
  obtain s' where s': "calls n (get_phys_block E) ?s1 = Some (Ret (map (\<lambda>j. c ! (j mod length c)) [Suc i..<Suc i + n]) s')"
      "ram s' = ram s"
    using Suc.IH [of ?s1 "Suc i"] Suc.prems ring_link [OF Suc.prems(1), of i] by auto
  have "[i..<i + Suc n] = i # [Suc i..<Suc i + n]" by (simp add: upt_conv_Cons)
  then show ?case using s' by (simp add: andthen_apply g ret_apply)
qed

text \<open>Where a list is cut and its front joined to a ring.\<close>

lemma free_list_next: "free_list m h (as @ g # gs) \<Longrightarrow> i < length as \<Longrightarrow> rd64 m (as ! i) = (as @ [g]) ! Suc i"
proof (induction as arbitrary: h i)
  case (Cons a as)
  then show ?case by (cases i; cases as) (auto simp: nth_append)
qed simp

lemma put_free_ring:
  assumes "free_list m h (as @ f # bs)"
  shows "ring (wr64 m f h) (f # as)"
proof -
  let ?m = "wr64 m f h"
  have fr: "frame_addr x" if "x \<in> set (f # as)" for x using free_list_frames [OF assms] that by auto
  have "f \<notin> set as" using free_list_distinct [OF assms] by auto
  then have other: "rd64 ?m x = rd64 m x" if "x \<in> set as" for x
    using fr that by (intro rd64_wr64_other) auto
  have head: "h = (as @ [f]) ! 0" using assms by (cases as) auto
  have wrap: "(as @ [f]) ! i = (f # as) ! (Suc i mod length (f # as))" if "i \<le> length as" for i
    using that by (cases "i = length as") (auto simp: nth_append)
  have "rd64 ?m ((f # as) ! i) = (f # as) ! (Suc i mod length (f # as))" if "i < length (f # as)" for i
  proof (cases i)
    case 0
    then show ?thesis using head wrap [of 0] by (simp add: rd64_wr64_same)
  next
    case (Suc j)
    then have "j < length as" using that by simp
    then have "rd64 ?m (as ! j) = (as @ [f]) ! i" using free_list_next [OF assms] other Suc by simp
    then show ?thesis using wrap [of i] Suc that by simp
  qed
  then show ?thesis by (simp add: ring_def)
qed

text \<open>C21: giving back a frame that is free. \<open>put_phys_block\<close> accepts it and reports nothing; the
  frames before it on the list are then linked in a ring with it. Nothing bounds the
  allocator any more: however often it is called it hands these frames out, one round after
  the other, so the second round hands out frames that are in use, and the frames behind it
  are lost. No list of free frames describes the memory.\<close>

theorem put_phys_block_twice:
  assumes "pmem_ok E s (as @ f # bs)"
  shows "\<exists>s'. put_phys_block E f s = Some (Ret () s') \<and>
    n_free_page_frames s' = of_nat (length (as @ f # bs) + 1) \<and>
    (\<forall>n. \<exists>s''. calls n (get_phys_block E) s' =
       Some (Ret (map (\<lambda>i. (f # as) ! (i mod length (f # as))) [0..<n]) s'')) \<and>
    (\<nexists>fs. pmem_ok E s' fs)"
proof -
  define s' where "s' = s\<lparr>ram := wr64 (ram s) f (first_page_frame s), first_page_frame := f,
     n_free_page_frames := n_free_page_frames s + 1\<rparr>"
  have a: "aspace s = None" "free_list (ram s) (first_page_frame s) (as @ f # bs)"
    "\<forall>g \<in> set (f # as). frame_ok E g" "n_free_page_frames s = of_nat (length (as @ f # bs))"
    using assms by (auto simp: pmem_ok_def)
  have ring: "ring (ram s') (f # as)" and head: "first_page_frame s' = (f # as) ! (0 mod length (f # as))"
    and "aspace s' = None" "n_free_page_frames s' = of_nat (length (as @ f # bs) + 1)"
    using put_free_ring [OF a(2)] a(1,4) by (simp_all add: s'_def)
  moreover have "put_phys_block E f s = Some (Ret () s')"
    unfolding s'_def using a by (intro put_phys_block_eq) simp_all
  moreover have "\<forall>g \<in> set (f # as). g \<noteq> 0" using a(3) frame_ok_nonzero by blast
  then have "\<not> pmem_ok E s' fs" for fs
    using ring_no_list [OF ring, of 0] head by (simp add: pmem_ok_def)
  moreover have "\<exists>s''. calls n (get_phys_block E) s' =
      Some (Ret (map (\<lambda>i. (f # as) ! (i mod length (f # as))) [0..<n]) s'')" for n
    using ring_gets [OF ring a(3) _ head, of n] \<open>aspace s' = None\<close> by auto
  ultimately show ?thesis by (intro exI [of _ s']) blast
qed

theorem put_phys_block_twice_witness:
  "\<exists>s' s''. put_phys_block idle_env 0x8000 two_frames = Some (Ret () s') \<and>
     calls 5 (get_phys_block idle_env) s' = Some (Ret [0x8000, 0x3000, 0x8000, 0x3000, 0x8000] s'')"
proof -
  have "pmem_ok idle_env two_frames ([0x3000] @ 0x8000 # [])" using two_frames_ok by simp
  from put_phys_block_twice [OF this] obtain s' where s': "put_phys_block idle_env 0x8000 two_frames = Some (Ret () s')"
      "\<forall>n. \<exists>s''. calls n (get_phys_block idle_env) s' = Some (Ret (map (\<lambda>i. [0x8000, 0x3000] ! (i mod 2)) [0..<n]) s'')"
    by (auto simp: numeral_2_eq_2)
  moreover have "map (\<lambda>i. [0x8000, 0x3000] ! (i mod 2)) [0..<5] = [0x8000, 0x3000, 0x8000, 0x3000, 0x8000 :: u64]"
    by (simp add: upt_rec)
  ultimately show ?thesis by metis
qed

end
