(* ===== verification/Frame_Roles.thy ===== *)
theory Frame_Roles
  imports Page_Mapping "HOL-Library.Disjoint_Sets"
begin

section \<open>The roles of frames\<close>

text \<open>
  The allocator and the mapping of pages together. Kernel code that takes frames, gives them
  back, writes to the frames it holds, makes empty ones the roots of address spaces and maps
  pages in these spaces keeps every frame in exactly one role: free, held, or a table of one
  space. The contract that gives this, the locale \<open>space_pool\<close>, extends the one of the
  allocator; the code is an interleaving of steps, given by the relation \<open>space_step\<close>.
\<close>

subsection \<open>Spaces beside an allocator\<close>

text \<open>
  A space, named by its root, owns frames; \<open>seen\<close> is what its users see of it. The allocator
  and writes to frames that no space owns leave it alone. Mapping in a space may turn free
  frames into frames of this space, and leaves the others alone.
\<close>

locale space_pool = frame_pool get put poke pool usable
  for get :: "(u64, 's) kmon" and put :: "u64 \<Rightarrow> (unit, 's) kmon" and poke :: "u64 \<Rightarrow> u64 \<Rightarrow> u64 \<Rightarrow> (unit, 's) kmon"
    and pool :: "'s \<Rightarrow> u64 list \<Rightarrow> bool" and usable :: "u64 \<Rightarrow> bool" +
  fixes sound :: "'s \<Rightarrow> u64 \<Rightarrow> bool" and own :: "'s \<Rightarrow> u64 \<Rightarrow> u64 set" and seen :: "'s \<Rightarrow> u64 \<Rightarrow> 'v"
    and enter :: "'x \<Rightarrow> u64 \<Rightarrow> (unit, 's) kmon" and good :: "'x \<Rightarrow> bool" and blank :: "'s \<Rightarrow> u64 \<Rightarrow> bool"
  assumes own_root: "sound s r \<Longrightarrow> r \<in> own s r"
    and blank_sound: "pool s fs \<Longrightarrow> usable f \<Longrightarrow> f \<notin> set fs \<Longrightarrow> blank s f \<Longrightarrow> sound s f \<and> own s f = {f}"
    and get_beside: "pool s (f # fs) \<Longrightarrow> get s = Some (Ret f s') \<Longrightarrow> sound s r \<Longrightarrow>
      sound s' r \<and> own s' r = own s r \<and> seen s' r = seen s r"
    and put_beside: "pool s fs \<Longrightarrow> usable f \<Longrightarrow> put f s = Some (Ret () s') \<Longrightarrow> sound s r \<Longrightarrow> f \<notin> own s r \<Longrightarrow>
      sound s' r \<and> own s' r = own s r \<and> seen s' r = seen s r"
    and poke_beside: "pool s fs \<Longrightarrow> usable f \<Longrightarrow> i < 512 \<Longrightarrow> poke f i v s = Some (Ret () s') \<Longrightarrow> sound s r \<Longrightarrow>
      f \<notin> own s r \<Longrightarrow> sound s' r \<and> own s' r = own s r \<and> seen s' r = seen s r"
    and enter_inside: "good x \<Longrightarrow> pool s fs \<Longrightarrow> sound s r \<Longrightarrow> own s r \<inter> set fs = {} \<Longrightarrow> enter x r s = Some (Ret () s') \<Longrightarrow>
      \<exists>fs'. pool s' fs' \<and> sound s' r \<and> own s' r \<inter> set fs' = {} \<and> own s' r \<union> set fs' = own s r \<union> set fs"
    and enter_beside: "good x \<Longrightarrow> pool s fs \<Longrightarrow> sound s r \<Longrightarrow> own s r \<inter> set fs = {} \<Longrightarrow> enter x r s = Some (Ret () s') \<Longrightarrow>
      sound s q \<Longrightarrow> own s q \<inter> (own s r \<union> set fs) = {} \<Longrightarrow> sound s' q \<and> own s' q = own s q \<and> seen s' q = seen s q"
begin

text \<open>The free frames \<open>fs\<close>, the held ones and those of the spaces are disjoint and make up \<open>U\<close>.\<close>

definition apart :: "u64 set \<Rightarrow> 's \<Rightarrow> u64 list \<Rightarrow> u64 set \<Rightarrow> u64 set \<Rightarrow> bool" where
  "apart U s fs H R \<longleftrightarrow> pool s fs \<and> (\<forall>r \<in> R. sound s r) \<and> disjoint_family_on (own s) R \<and>
     set fs \<inter> H = {} \<and> (\<forall>r \<in> R. own s r \<inter> (set fs \<union> H) = {}) \<and> set fs \<union> H \<union> (\<Union>r \<in> R. own s r) = U \<and> (\<forall>f \<in> H. usable f)"

text \<open>Spaces that a step leaves alone stay apart.\<close>

lemma apart_kept:
  assumes a: "apart U s fs H R" and kept: "\<forall>r \<in> R. sound s' r \<and> own s' r = own s r"
    and p: "pool s' fs'" "set fs' \<inter> H' = {}" "set fs' \<union> H' = set fs \<union> H" "\<forall>f \<in> H'. usable f"
  shows "apart U s' fs' H' R"
  using a kept p unfolding apart_def disjoint_family_on_def by simp

lemma apart_get:
  assumes a: "apart U s fs H R" and g: "get s = Some (Ret f s')"
  shows "\<exists>fs'. apart U s' fs' (insert f H) R \<and> (\<forall>r \<in> R. seen s' r = seen s r)"
proof -
  have p: "pool s fs" and sound: "\<forall>r \<in> R. sound s r" using a by (simp_all add: apart_def)
  obtain gs where gs: "fs = f # gs" "pool s' gs" using get_cases [OF p g] by blast
  have kept: "\<forall>r \<in> R. sound s' r \<and> own s' r = own s r \<and> seen s' r = seen s r"
    using get_beside [OF p [unfolded gs(1)] g] sound by blast
  have "apart U s' gs (insert f H) R"
    using a kept gs pool_distinct [OF p] pool_usable [OF p, of f] by (intro apart_kept [OF a]) (auto simp: apart_def)
  then show ?thesis using kept by blast
qed

lemma apart_put:
  assumes a: "apart U s fs H R" and f: "f \<in> H" and g: "put f s = Some (Ret () s')"
  shows "\<exists>fs'. apart U s' fs' (H - {f}) R \<and> (\<forall>r \<in> R. seen s' r = seen s r)"
proof -
  have p: "pool s fs" "usable f" "f \<notin> set fs" and sound: "\<forall>r \<in> R. sound s r \<and> f \<notin> own s r"
    using a f by (auto simp: apart_def)
  have kept: "\<forall>r \<in> R. sound s' r \<and> own s' r = own s r \<and> seen s' r = seen s r"
    using put_beside [OF p(1,2) g] sound by blast
  have "apart U s' (f # fs) (H - {f}) R"
    using a f kept put_cases [OF p g] by (intro apart_kept [OF a]) (auto simp: apart_def)
  then show ?thesis using kept by blast
qed

lemma apart_poke:
  assumes a: "apart U s fs H R" and f: "f \<in> H" "i < 512" and g: "poke f i v s = Some (Ret () s')"
  shows "\<exists>fs'. apart U s' fs' H R \<and> (\<forall>r \<in> R. seen s' r = seen s r)"
proof -
  have p: "pool s fs" "usable f" "f \<notin> set fs" and sound: "\<forall>r \<in> R. sound s r \<and> f \<notin> own s r"
    using a f by (auto simp: apart_def)
  have kept: "\<forall>r \<in> R. sound s' r \<and> own s' r = own s r \<and> seen s' r = seen s r"
    using poke_beside [OF p(1,2) f(2) g] sound by blast
  have "apart U s' fs H R"
    using a kept poke_cases [OF p f(2) g] by (intro apart_kept [OF a]) (auto simp: apart_def)
  then show ?thesis using kept by blast
qed

lemma apart_root:
  assumes a: "apart U s fs H R" and f: "f \<in> H" "blank s f"
  shows "apart U s fs (H - {f}) (insert f R)"
proof -
  have p: "pool s fs" "usable f" "f \<notin> set fs" and out: "\<forall>r \<in> R. f \<notin> own s r" using a f by (auto simp: apart_def)
  have r: "sound s f" "own s f = {f}" using blank_sound [OF p f(2)] by simp_all
  have "f \<notin> R" using out own_root a by (auto simp: apart_def)
  then have "disjoint_family_on (own s) (insert f R)"
    using a out r(2) by (auto simp: apart_def disjoint_family_on_def)
  then show ?thesis using a f r p(3) by (auto simp: apart_def)
qed

lemma apart_enter:
  assumes a: "apart U s fs H R" and r: "r \<in> R" "good x" and g: "enter x r s = Some (Ret () s')"
  shows "\<exists>fs'. apart U s' fs' H R \<and> (\<forall>q \<in> R - {r}. seen s' q = seen s q)"
proof -
  have p: "pool s fs" "sound s r" "own s r \<inter> set fs = {}" using a r by (auto simp: apart_def)
  obtain fs' where fs': "pool s' fs'" "sound s' r" "own s' r \<inter> set fs' = {}" "own s' r \<union> set fs' = own s r \<union> set fs"
    using enter_inside [OF r(2) p g] by blast
  have dis: "own s q \<inter> (own s r \<union> set fs \<union> H) = {}" if "q \<in> R - {r}" for q
  proof -
    have "own s q \<inter> own s r = {}" using a that r(1) unfolding apart_def disjoint_family_on_def by blast
    moreover have "own s q \<inter> (set fs \<union> H) = {}" using a that by (simp add: apart_def)
    ultimately show ?thesis by blast
  qed
  have other: "sound s' q \<and> own s' q = own s q \<and> seen s' q = seen s q" if q: "q \<in> R - {r}" for q
  proof (rule enter_beside [OF r(2) p g])
    show "sound s q" using a q by (simp add: apart_def)
    show "own s q \<inter> (own s r \<union> set fs) = {}" using dis [OF q] by blast
  qed
  have "disjoint_family_on (own s') R"
    unfolding disjoint_family_on_def
  proof (intro ballI impI)
    fix m n assume mn: "m \<in> R" "n \<in> R" "m \<noteq> n"
    have "own s' r \<inter> own s q = {}" if "q \<in> R - {r}" for q using dis [OF that] fs'(4) by blast
    moreover have "own s m \<inter> own s n = {}" using a mn by (auto simp: apart_def disjoint_family_on_def)
    ultimately show "own s' m \<inter> own s' n = {}" using mn other by (cases "m = r"; cases "n = r") auto
  qed
  moreover have "(\<Union>q \<in> R. own s' q) \<union> set fs' = (\<Union>q \<in> R. own s q) \<union> set fs"
  proof -
    have "(\<Union>q \<in> R. own s' q) \<union> set fs' = own s' r \<union> set fs' \<union> (\<Union>q \<in> R - {r}. own s q)" using other r(1) by auto
    also have "\<dots> = (\<Union>q \<in> R. own s q) \<union> set fs" unfolding fs'(4) using r(1) by auto
    finally show ?thesis .
  qed
  moreover have "\<forall>q \<in> R. own s' q \<inter> (set fs' \<union> H) = {}" "set fs' \<inter> H = {}"
  proof -
    have h: "own s r \<inter> H = {}" "set fs \<inter> H = {}" using a r(1) by (auto simp: apart_def)
    show "set fs' \<inter> H = {}" using h fs'(4) by blast
    show "\<forall>q \<in> R. own s' q \<inter> (set fs' \<union> H) = {}"
    proof
      fix q assume q: "q \<in> R"
      show "own s' q \<inter> (set fs' \<union> H) = {}"
      proof (cases "q = r")
        case True
        then show ?thesis using h fs'(3,4) by blast
      next
        case False
        then show ?thesis using other [of q] dis [of q] q fs'(4) by blast
      qed
    qed
  qed
  moreover have "\<forall>q \<in> R. sound s' q" using other fs'(2) by blast
  ultimately have "apart U s' fs' H R" using a fs'(1) by (auto simp: apart_def)
  then show ?thesis using other by blast
qed

end

subsection \<open>The trees of tables are such spaces\<close>

lemma same_tables:
  assumes "\<forall>t \<in> tables w root. \<forall>j<512. w' (slot t j) = w (slot t j)"
  shows "view w' root = view w root" "tables w' root = tables w root" "tree w root \<Longrightarrow> tree w' root"
proof -
  show v: "view w' root = view w root" using walk_same [OF assms] by (auto simp: view_def fun_eq_iff)
  show "tables w' root = tables w root" by (auto simp: tables_view v)
  show "tree w root \<Longrightarrow> tree w' root" by (simp add: tree_view v)
qed

definition space_ok :: "env \<Rightarrow> 'z machine_scheme \<Rightarrow> u64 \<Rightarrow> bool" where
  "space_ok E s r \<longleftrightarrow> tree (rd64 (ram s)) r \<and> (\<forall>t \<in> tables (rd64 (ram s)) r. frame_ok E t) \<and> small (rd64 (ram s)) r"

definition space_tables :: "'z machine_scheme \<Rightarrow> u64 \<Rightarrow> u64 set" where
  "space_tables s r = tables (rd64 (ram s)) r"

text \<open>What an address translates to, and what user mode may do there.\<close>

definition space_view :: "'z machine_scheme \<Rightarrow> u64 \<Rightarrow> u64 \<Rightarrow> u64 option \<times> bool \<times> bool" where
  "space_view s r = (\<lambda>va. (translate (ram s) r va, user_reads (ram s) r va, user_writes (ram s) r va))"

definition free_frames :: "env \<Rightarrow> 'z pmem_state_scheme \<Rightarrow> u64 list \<Rightarrow> bool" where
  "free_frames E s fs \<longleftrightarrow> pmem_ok E s fs \<and> console_ready E s"

definition no_entries :: "'z machine_scheme \<Rightarrow> u64 \<Rightarrow> bool" where
  "no_entries s f \<longleftrightarrow> (\<forall>i<512. rd64 (ram s) (slot f i) AND PSE_PRESENT = 0)"

lemma paging_ok_space: "paging_ok E s r fs \<longleftrightarrow> pmem_ok E s fs \<and> space_ok E s r \<and> space_tables s r \<inter> set fs = {}"
  by (auto simp: paging_ok_def space_ok_def space_tables_def)

lemma space_kept:
  assumes ok: "space_ok E s r" and same: "\<forall>t \<in> space_tables s r. \<forall>j<512. rd64 (ram s') (slot t j) = rd64 (ram s) (slot t j)"
  shows "space_ok E s' r \<and> space_tables s' r = space_tables s r \<and> space_view s' r = space_view s r"
proof -
  note same' = same [unfolded space_tables_def]
  note st = same_tables [OF same'] and sm = small_same [OF same']
  have "frame_addr r" using ok frame_ok_addr [of E r] by (simp add: space_ok_def)
  then have "page_at (ram s') r va = page_at (ram s) r va" for va
    using page_walk_same [OF same', of "[]" "page_path va" r] by (simp add: page_at_root)
  then have "translate (ram s') r va = translate (ram s) r va" "rights (ram s') r va = rights (ram s) r va" for va
    unfolding translate_def rights_def by (simp_all cong: if_cong)
  then have "space_view s' r = space_view s r" by (simp add: space_view_def user_reads_def user_writes_def)
  then show ?thesis using ok st sm by (simp add: space_ok_def space_tables_def)
qed

lemma space_kept_write:
  assumes ok: "space_ok E s r" and f: "page_aligned f" "f \<notin> space_tables s r" "i < 512"
    and m: "ram s' = wr64 (ram s) (slot f i) v"
  shows "space_ok E s' r \<and> space_tables s' r = space_tables s r \<and> space_view s' r = space_view s r"
proof (rule space_kept [OF ok], intro ballI allI impI)
  fix t j assume t: "t \<in> space_tables s r" and j: "(j :: u64) < 512"
  have al: "page_aligned t" using ok t by (auto simp: space_ok_def space_tables_def intro: tables_aligned)
  have "slot t j \<noteq> slot f i" using t f j al by (auto simp: slot_eq_iff)
  then show "rd64 (ram s') (slot t j) = rd64 (ram s) (slot t j)" using al f j by (simp add: m rd64_wr64_other)
qed


lemma space_enter:
  assumes fl: "entry_flags flags" and free: "free_frames E s fs" and ok: "space_ok E s r" "space_tables s r \<inter> set fs = {}"
    and run: "map_page_specific_pml4 E r pa va flags s = Some (Ret () s')"
  shows "\<exists>fs'. free_frames E s' fs' \<and> space_ok E s' r \<and> space_tables s' r \<inter> set fs' = {} \<and>
      space_tables s' r \<union> set fs' = space_tables s r \<union> set fs"
    and "space_ok E s q \<Longrightarrow> space_tables s q \<inter> (space_tables s r \<union> set fs) = {} \<Longrightarrow>
      space_ok E s' q \<and> space_tables s' q = space_tables s q \<and> space_view s' q = space_view s q"
proof -
  have p: "paging_ok E s r fs" and ready: "console_ready E s"
    using free ok by (simp_all add: free_frames_def paging_ok_space)
  obtain fs' where fs': "paging_ok E s' r fs'" "pmem_only s s'" "stays r s s'"
    using map_page_refines [OF p fl ready, of va pa] run by (auto simp: Paging.refines_def split: option.splits)
  have "footprint r s' = footprint r s" using fs'(3) by (simp add: stays_def)
  then have foot: "space_tables s' r \<union> set fs' = space_tables s r \<union> set fs"
    by (simp add: footprint_ok [OF p] footprint_ok [OF fs'(1)] space_tables_def)
  then show "\<exists>fs'. free_frames E s' fs' \<and> space_ok E s' r \<and> space_tables s' r \<inter> set fs' = {} \<and>
      space_tables s' r \<union> set fs' = space_tables s r \<union> set fs"
    using fs' pmem_only_ready [OF fs'(2), of E] ready by (auto simp: free_frames_def paging_ok_space)
  assume q: "space_ok E s q" "space_tables s q \<inter> (space_tables s r \<union> set fs) = {}"
  show "space_ok E s' q \<and> space_tables s' q = space_tables s q \<and> space_view s' q = space_view s q"
  proof (rule space_kept [OF q(1)], intro ballI allI impI)
    fix t j assume t: "t \<in> space_tables s q" and j: "(j :: u64) < 512"
    have "page_aligned t" using q(1) t by (auto simp: space_ok_def space_tables_def intro: tables_aligned)
    moreover have "t \<notin> footprint r s" using q(2) t by (auto simp: footprint_ok [OF p] space_tables_def)
    ultimately show "rd64 (ram s') (slot t j) = rd64 (ram s) (slot t j)" using stays_outside [OF fs'(3)] j by blast
  qed
qed

lemma no_entries_space:
  assumes "pmem_ok E s fs" "frame_ok E f" "f \<notin> set fs" "no_entries s f"
  shows "space_ok E s f" "space_tables s f = {f}"
proof -
  note r = empty_root [OF assms(1-3) assms(4) [unfolded no_entries_def]]
  show "space_ok E s f" using r(1) by (simp add: paging_ok_space)
  show "space_tables s f = {f}"
    using r(2) by (auto simp: space_tables_def tables_view pt_view_def split: if_splits)
qed

interpretation spaces: space_pool "get_phys_block E" "put_phys_block E" "\<lambda>f i. store64 E (slot f i)" "free_frames E" "frame_ok E"
    "space_ok E" space_tables space_view "\<lambda>(pa, va, flags) r. map_page_specific_pml4 E r pa va flags"
    "\<lambda>(pa, va, flags). entry_flags flags" no_entries for E
proof unfold_locales
  fix s s' :: "'a pmem_state_scheme" and fs gs f i v r q and x :: "u64 \<times> u64 \<times> u32"
  show "free_frames E s fs \<Longrightarrow> distinct fs" using pmem_ok_distinct [of E s fs] by (simp add: free_frames_def)
  show "free_frames E s fs \<Longrightarrow> f \<in> set fs \<Longrightarrow> frame_ok E f" by (simp add: free_frames_def pmem_ok_def)
  show "free_frames E s fs \<Longrightarrow> free_frames E s gs \<Longrightarrow> fs = gs" by (auto simp: free_frames_def pmem_ok_def intro: free_list_unique)
  show "free_frames E s [] \<Longrightarrow> get_phys_block E s \<noteq> Some (Ret f s')" using get_phys_block_none [of E s f s'] by (simp add: free_frames_def)
  have keep: "console_ready E s'" if "console_ready E s" "com_ports s' = com_ports s" "primary_com_port s' = primary_com_port s"
    for s s' :: "'a pmem_state_scheme" using that console_ready_cong [OF that(2,3)] by simp
  show "free_frames E s (f # fs) \<Longrightarrow> \<exists>s'. get_phys_block E s = Some (Ret f s') \<and> free_frames E s' fs"
    using get_phys_block_eq [of E s f fs] pmem_ok_taken [of E s f fs] keep [of s] by (simp add: free_frames_def)
  show "free_frames E s fs \<Longrightarrow> frame_ok E f \<Longrightarrow> f \<notin> set fs \<Longrightarrow> \<exists>s'. put_phys_block E f s = Some (Ret () s') \<and> free_frames E s' (f # fs)"
    using put_phys_block_eq [of s E f] pmem_ok_given [of E s fs f] keep [of s] by (simp add: free_frames_def pmem_ok_def)
  show "free_frames E s fs \<Longrightarrow> frame_ok E f \<Longrightarrow> f \<notin> set fs \<Longrightarrow> i < 512 \<Longrightarrow>
      \<exists>s'. store64 E (slot f i) v s = Some (Ret () s') \<and> free_frames E s' fs"
    using boot_store64 [of s E f i v] pmem_ok_write [of E s fs f i v] keep [of s] by (simp add: free_frames_def pmem_ok_def frame_ok_addr)
  show "space_ok E s r \<Longrightarrow> r \<in> space_tables s r" by (simp add: space_tables_def)
  show "free_frames E s fs \<Longrightarrow> frame_ok E f \<Longrightarrow> f \<notin> set fs \<Longrightarrow> no_entries s f \<Longrightarrow> space_ok E s f \<and> space_tables s f = {f}"
    using no_entries_space [of E s fs f] by (simp add: free_frames_def)
  show "free_frames E s (f # fs) \<Longrightarrow> get_phys_block E s = Some (Ret f s') \<Longrightarrow> space_ok E s r \<Longrightarrow>
      space_ok E s' r \<and> space_tables s' r = space_tables s r \<and> space_view s' r = space_view s r"
    using get_phys_block_eq [of E s f fs] space_kept [of E s r s'] by (auto simp: free_frames_def)
  show "free_frames E s fs \<Longrightarrow> frame_ok E f \<Longrightarrow> put_phys_block E f s = Some (Ret () s') \<Longrightarrow> space_ok E s r \<Longrightarrow>
      f \<notin> space_tables s r \<Longrightarrow> space_ok E s' r \<and> space_tables s' r = space_tables s r \<and> space_view s' r = space_view s r"
    using put_phys_block_eq [of s E f] space_kept_write [of E s r f 0 s' "first_page_frame s"]
    by (auto simp: free_frames_def pmem_ok_def frame_ok_addr)
  show "free_frames E s fs \<Longrightarrow> frame_ok E f \<Longrightarrow> i < 512 \<Longrightarrow> store64 E (slot f i) v s = Some (Ret () s') \<Longrightarrow> space_ok E s r \<Longrightarrow>
      f \<notin> space_tables s r \<Longrightarrow> space_ok E s' r \<and> space_tables s' r = space_tables s r \<and> space_view s' r = space_view s r"
    using boot_store64 [of s E f i v] space_kept_write [of E s r f i s' v]
    by (auto simp: free_frames_def pmem_ok_def frame_ok_addr)
  assume x: "case x of (pa, va, flags) \<Rightarrow> entry_flags flags" and r: "free_frames E s fs" "space_ok E s r" "space_tables s r \<inter> set fs = {}"
    and run: "(case x of (pa, va, flags) \<Rightarrow> \<lambda>r. map_page_specific_pml4 E r pa va flags) r s = Some (Ret () s')"
  obtain pa va flags where x': "x = (pa, va, flags)" by (cases x)
  have fl: "entry_flags flags" and run': "map_page_specific_pml4 E r pa va flags s = Some (Ret () s')"
    using x run by (simp_all add: x')
  show "\<exists>fs'. free_frames E s' fs' \<and> space_ok E s' r \<and> space_tables s' r \<inter> set fs' = {} \<and>
      space_tables s' r \<union> set fs' = space_tables s r \<union> set fs" using space_enter(1) [OF fl r run'] .
  show "space_ok E s q \<Longrightarrow> space_tables s q \<inter> (space_tables s r \<union> set fs) = {} \<Longrightarrow>
      space_ok E s' q \<and> space_tables s' q = space_tables s q \<and> space_view s' q = space_view s q"
    using space_enter(2) [OF fl r run'] .
qed

subsection \<open>Interleavings\<close>

text \<open>One step of kernel code: as a client of the allocator, with a frame it holds and that has no
  entries as the root of a new space, or mapping a page in one of the spaces in \<open>K\<close>. \<open>H\<close> is
  the set of the frames it holds, \<open>R\<close> that of the roots of the spaces.\<close>

inductive space_step :: "env \<Rightarrow> u64 set \<Rightarrow> 'z pmem_state_scheme \<times> u64 set \<times> u64 set \<Rightarrow>
    'z pmem_state_scheme \<times> u64 set \<times> u64 set \<Rightarrow> bool" for E K where
  space_client: "client_step E (s, H) (s', H') \<Longrightarrow> space_step E K (s, H, R) (s', H', R)"
| space_root: "f \<in> H \<Longrightarrow> no_entries s f \<Longrightarrow> space_step E K (s, H, R) (s, H - {f}, insert f R)"
| space_map: "r \<in> R \<Longrightarrow> r \<in> K \<Longrightarrow> entry_flags flags \<Longrightarrow> map_page_specific_pml4 E r pa va flags s = Some (Ret () s') \<Longrightarrow>
    space_step E K (s, H, R) (s', H, R)"

lemma client_step_apart:
  assumes "client_step E (s, H) (s', H')" "spaces.apart E U s fs H R"
  shows "\<exists>fs'. spaces.apart E U s' fs' H' R \<and> (\<forall>r \<in> R. space_view s' r = space_view s r)"
  using assms by (cases rule: client_stepE) (auto dest: spaces.apart_get spaces.apart_put spaces.apart_poke)

lemma space_step_apart:
  assumes step: "space_step E K (s, H, R) (s', H', R')" and a: "spaces.apart E U s fs H R"
  shows "\<exists>fs'. spaces.apart E U s' fs' H' R' \<and> R \<subseteq> R' \<and> (\<forall>r \<in> R - K. space_view s' r = space_view s r)"
  using step
proof (cases rule: space_step.cases)
  case space_client
  then show ?thesis using client_step_apart [OF _ a] by auto
next
  case (space_root f)
  then show ?thesis using spaces.apart_root [OF a] by auto
next
  case (space_map r flags pa va)
  then show ?thesis using spaces.apart_enter [OF a, of r "(pa, va, flags)" s'] by auto
qed

lemma space_steps_apart:
  assumes "(space_step E K)\<^sup>*\<^sup>* (s, H, R) (s', H', R')" and "spaces.apart E U s fs H R"
  shows "\<exists>fs'. spaces.apart E U s' fs' H' R' \<and> R \<subseteq> R' \<and> (\<forall>r \<in> R - K. space_view s' r = space_view s r)"
  using assms(1)
proof (induction "(s', H', R')" arbitrary: s' H' R' rule: rtranclp_induct)
  case base
  then show ?case using assms(2) by blast
next
  case (step y)
  obtain s1 H1 R1 where y: "y = (s1, H1, R1)" by (cases y)
  obtain fs1 where fs1: "spaces.apart E U s1 fs1 H1 R1" "R \<subseteq> R1" "\<forall>r \<in> R - K. space_view s1 r = space_view s r"
    using step(3) [OF y] by blast
  from space_step_apart [OF step(2) [unfolded y] fs1(1)] show ?case using fs1(2,3) by fastforce
qed

text \<open>A single space, which may be mapped in.\<close>

inductive vm_step :: "env \<Rightarrow> u64 \<Rightarrow> 'z pmem_state_scheme \<times> u64 set \<Rightarrow> 'z pmem_state_scheme \<times> u64 set \<Rightarrow> bool"
  for E root where
  vm_client: "client_step E x y \<Longrightarrow> vm_step E root x y"
| vm_map: "entry_flags flags \<Longrightarrow> map_page_specific_pml4 E root pa va flags s = Some (Ret () s') \<Longrightarrow>
    vm_step E root (s, H) (s', H)"

lemma vm_step_space: "vm_step E root (s, H) (s', H') \<Longrightarrow> space_step E K (s, H, {root}) (s', H', {root})" if "root \<in> K"
  using that by (auto elim!: vm_step.cases intro: space_step.intros)

lemma vm_steps_space:
  assumes "(vm_step E root)\<^sup>*\<^sup>* (s, H) (s', H')" "root \<in> K"
  shows "(space_step E K)\<^sup>*\<^sup>* (s, H, {root}) (s', H', {root})"
  using assms(1)
proof (induction "(s', H')" arbitrary: s' H' rule: rtranclp_induct)
  case (step y)
  obtain s1 H1 where y: "y = (s1, H1)" by (cases y)
  from step(3) [OF y] vm_step_space [OF assms(2) step(2) [unfolded y]] show ?case
    by (rule rtranclp.rtrancl_into_rtrancl)
qed simp

lemma apart_single:
  assumes "paging_ok E s root fs" "console_ready E s"
  shows "spaces.apart E (set fs \<union> tables (rd64 (ram s)) root) s fs {} {root}"
  using assms by (auto simp: spaces.apart_def free_frames_def paging_ok_space space_tables_def disjoint_family_on_def)

section \<open>Properties\<close>

text \<open>C3: every frame has one role. Whatever sequence of allocations, releases of held
  frames, writes to held frames and page mappings the kernel makes, from any well-formed start: the tables stay a
  well-formed tree and the free list stays intact, no held frame is a page table or free, and
  no frame is lost: held, free and table frames together are the frames there were.\<close>

theorem frames_keep_roles:
  assumes "paging_ok E s root fs" "console_ready E s" "(vm_step E root)\<^sup>*\<^sup>* (s, {}) (s', H)"
  shows "\<exists>fs'. paging_ok E s' root fs' \<and> H \<inter> tables (rd64 (ram s')) root = {} \<and> H \<inter> set fs' = {} \<and>
    set fs' \<inter> tables (rd64 (ram s')) root = {} \<and>
    H \<union> set fs' \<union> tables (rd64 (ram s')) root = set fs \<union> tables (rd64 (ram s)) root"
proof -
  have "(space_step E UNIV)\<^sup>*\<^sup>* (s, {}, {root}) (s', H, {root})" using vm_steps_space [OF assms(3)] by simp
  from space_steps_apart [OF this apart_single [OF assms(1,2)]] show ?thesis
    by (auto simp: spaces.apart_def free_frames_def paging_ok_space space_tables_def)
qed

text \<open>C4: address spaces stay apart. Let the kernel, from one well-formed space, interleave
  allocations, releases, writes to held frames, new spaces with an empty held frame as their
  root, and page mappings in any of them. Every space stays a well-formed tree beside the free
  list; no two spaces share a table, no held or free frame is a table, and no frame is lost.
  And whatever happens from some moment on without mapping in a space, every address of it
  translates as before, with the same access for user mode.\<close>

theorem spaces_stay_apart:
  assumes "paging_ok E s root fs" "console_ready E s"
    and "(space_step E UNIV)\<^sup>*\<^sup>* (s, {}, {root}) (s1, H1, R1)" "(space_step E K)\<^sup>*\<^sup>* (s1, H1, R1) (s2, H2, R2)"
  shows "\<exists>fs2. (\<forall>r \<in> R2. paging_ok E s2 r fs2) \<and> root \<in> R2 \<and> R1 \<subseteq> R2 \<and>
    disjoint_family_on (\<lambda>r. tables (rd64 (ram s2)) r) R2 \<and> H2 \<inter> set fs2 = {} \<and>
    (\<forall>r \<in> R2. tables (rd64 (ram s2)) r \<inter> (H2 \<union> set fs2) = {}) \<and>
    set fs2 \<union> H2 \<union> (\<Union>r \<in> R2. tables (rd64 (ram s2)) r) = set fs \<union> tables (rd64 (ram s)) root \<and>
    (\<forall>r \<in> R1 - K. \<forall>va. translate (ram s2) r va = translate (ram s1) r va \<and>
       user_reads (ram s2) r va = user_reads (ram s1) r va \<and> user_writes (ram s2) r va = user_writes (ram s1) r va)"
proof -
  obtain fs1 where a1: "spaces.apart E (set fs \<union> tables (rd64 (ram s)) root) s1 fs1 H1 R1" "root \<in> R1"
    using space_steps_apart [OF assms(3) apart_single [OF assms(1,2)]] by blast
  obtain fs2 where a2: "spaces.apart E (set fs \<union> tables (rd64 (ram s)) root) s2 fs2 H2 R2" "R1 \<subseteq> R2"
      "\<forall>r \<in> R1 - K. space_view s2 r = space_view s1 r"
    using space_steps_apart [OF assms(4) a1(1)] by blast
  have same: "\<forall>r \<in> R1 - K. \<forall>va. translate (ram s2) r va = translate (ram s1) r va \<and>
      user_reads (ram s2) r va = user_reads (ram s1) r va \<and> user_writes (ram s2) r va = user_writes (ram s1) r va"
    using a2(3) by (simp add: space_view_def fun_eq_iff)
  have apart: "\<forall>r \<in> R2. paging_ok E s2 r fs2" "disjoint_family_on (\<lambda>r. tables (rd64 (ram s2)) r) R2" "H2 \<inter> set fs2 = {}"
    "\<forall>r \<in> R2. tables (rd64 (ram s2)) r \<inter> (H2 \<union> set fs2) = {}"
    "set fs2 \<union> H2 \<union> (\<Union>r \<in> R2. tables (rd64 (ram s2)) r) = set fs \<union> tables (rd64 (ram s)) root"
    using a2(1) by (auto simp: spaces.apart_def free_frames_def paging_ok_space space_tables_def disjoint_family_on_def)
  show ?thesis using apart same a1(2) a2(2) by (intro exI [of _ fs2]) blast
qed

subsection \<open>Witnesses\<close>

text \<open>Taking a frame, writing to it and mapping it.\<close>

theorem frames_keep_roles_witness:
  "\<exists>s' H fs'. (vm_step idle_env 0x5000)\<^sup>*\<^sup>* (three_frames, {}) (s', H) \<and> 0x4000 \<in> H \<and>
     paging_ok idle_env s' 0x5000 fs' \<and> 0x4000 \<notin> set fs'"
proof -
  define s1 where "s1 = three_frames\<lparr>first_page_frame := rd64 (ram three_frames) 0x4000,
    n_free_page_frames := n_free_page_frames three_frames - 1\<rparr>"
  have get: "get_phys_block idle_env three_frames = Some (Ret 0x4000 s1)"
    using get_phys_block_eq [OF three_frames_ok] by (simp add: s1_def)
  have f: "frame_ok idle_env 0x4000" by (simp add: idle_frame_ok)
  have a: "aspace s1 = None" by (simp add: s1_def three_frames_def two_frames_def)
  obtain s2 where st: "store64 idle_env (slot 0x4000 3) 7 s1 = Some (Ret () s2)"
    using boot_store64 [OF a f, of 3] by simp
  have "(vm_step idle_env 0x5000)\<^sup>*\<^sup>* (three_frames, {}) (s1, {0x4000})"
    using vm_client [OF take_frame [OF get, of "{}"]] by blast
  moreover have "vm_step idle_env 0x5000 (s1, {0x4000}) (s2, {0x4000})"
    using vm_client [OF write_frame [OF _ _ st, of "{0x4000}"]] by simp
  ultimately have run: "(vm_step idle_env 0x5000)\<^sup>*\<^sup>* (three_frames, {}) (s2, {0x4000})"
    by (rule rtranclp.rtrancl_into_rtrancl)
  from frames_keep_roles [OF three_frames_root(1) three_frames_ready run]
  obtain fs' where "paging_ok idle_env s2 0x5000 fs'" "{0x4000} \<inter> set fs' = {}" by (elim exE conjE)
  then show ?thesis using run by (intro exI [of _ s2] exI [of _ "{0x4000}"] exI [of _ fs']) simp
qed

text \<open>A second space beside an empty one: its root is taken, becomes a space, and a page is mapped.\<close>

definition four_frames :: pmem_state where
  "four_frames = three_frames\<lparr>ram := wr64 (ram three_frames) 0x7000 0x4000, first_page_frame := 0x7000, n_free_page_frames := 4\<rparr>"

lemma frame_7000: "frame_ok idle_env 0x7000"
  by (simp add: idle_frame_ok frame_addr_def aligned_def)

lemma four_frames_ok: "pmem_ok idle_env four_frames [0x7000, 0x4000, 0x3000, 0x8000]"
  using pmem_ok_given [where f = "0x7000", OF three_frames_ok] frame_7000
  by (simp add: four_frames_def three_frames_def two_frames_def)

lemma four_frames_entries:
  assumes "i < 512"
  shows "rd64 (ram four_frames) (slot 0x5000 i) = 0" "rd64 (ram four_frames) (slot 0x7000 i) = (if i = 0 then 0x4000 else 0)"
proof -
  have p7: "page_aligned 0x7000" using frame_ok_addr [OF frame_7000] by simp
  then have al: "aligned 8 (slot 0x5000 i)" "aligned 8 (slot 0x7000 i)" using assms by simp_all
  have al2: "aligned 8 0x3000" "aligned 8 0x4000" "aligned 8 0x7000" by (simp_all add: aligned_def)
  have "slot 0x5000 i \<noteq> slot 0x7000 0" "slot 0x7000 i \<noteq> slot 0x3000 0" "slot 0x7000 i \<noteq> slot 0x4000 0"
    using assms p7 slot_eq_iff [of "0x5000" "0x7000" i 0] slot_eq_iff [of "0x7000" "0x3000" i 0]
      slot_eq_iff [of "0x7000" "0x4000" i 0] by simp_all
  moreover have "slot 0x7000 i = 0x7000 \<longleftrightarrow> i = 0" using slot_eq_iff [of "0x7000" "0x7000" i 0] assms p7 by simp
  ultimately show "rd64 (ram four_frames) (slot 0x5000 i) = 0"
    "rd64 (ram four_frames) (slot 0x7000 i) = (if i = 0 then 0x4000 else 0)"
    using al al2 demo_root_empty(2) [OF assms]
    by (auto simp: four_frames_def three_frames_def two_frames_def rd64_wr64_other rd64_wr64_same)
qed

theorem spaces_stay_apart_witness:
  "\<exists>s2. (space_step idle_env {0x7000})\<^sup>*\<^sup>* (four_frames, {}, {0x5000}) (s2, {}, {0x5000, 0x7000}) \<and>
     translate (ram s2) 0x7000 0xffffffff80000123 = Some 0x9123 \<and>
     translate (ram s2) 0x5000 0xffffffff80000123 = None \<and> tables (rd64 (ram s2)) 0x5000 \<inter> tables (rd64 (ram s2)) 0x7000 = {}"
proof -
  have root: "paging_ok idle_env four_frames 0x5000 [0x7000, 0x4000, 0x3000, 0x8000]" "pt_view four_frames 0x5000 = [[] \<mapsto> 0x5000]"
    by (rule empty_root [OF four_frames_ok demo_root]; simp add: four_frames_entries)+
  have ready: "console_ready idle_env four_frames"
    using three_frames_ready console_ready_cong [of four_frames three_frames idle_env] by (simp add: four_frames_def)
  define s1 where "s1 = four_frames\<lparr>first_page_frame := rd64 (ram four_frames) 0x7000,
    n_free_page_frames := n_free_page_frames four_frames - 1\<rparr>"
  have get: "get_phys_block idle_env four_frames = Some (Ret 0x7000 s1)"
    using get_phys_block_eq [OF four_frames_ok] by (simp add: s1_def)
  have ok1: "pmem_ok idle_env s1 [0x4000, 0x3000, 0x8000]"
    using pmem_ok_taken [OF four_frames_ok] by (simp add: s1_def)
  have clear: "rd64 (ram s1) (slot 0x7000 i) AND PSE_PRESENT = 0" if "i < 512" for i
    using four_frames_entries(2) [OF that] by (simp add: s1_def PSE_PRESENT_def)
  have new: "paging_ok idle_env s1 0x7000 [0x4000, 0x3000, 0x8000]" "pt_view s1 0x7000 = [[] \<mapsto> 0x7000]"
    by (rule empty_root [OF ok1 frame_7000]; simp add: clear)+
  have ready1: "console_ready idle_env s1" using ready console_ready_cong [of s1 four_frames idle_env] by (simp add: s1_def)
  let ?f = "PSE_WRITEABLE OR PSE_USER_MODE" and ?va = "0xffffffff80000000 :: u64"
  obtain v fs s2 where s2: "map_page_specific_pml4 idle_env 0x7000 0x9000 ?va ?f s1 = Some (Ret () s2)"
      "paging_ok idle_env s2 0x7000 fs" "pt_view s2 0x7000 = v"
      "map_spec (pt_view s1 0x7000) [0x4000, 0x3000, 0x8000] (page_path ?va) (PSE_PTR 0x9000) = Some (v, fs)"
    using map_page_refines [where va = ?va and pa = "0x9000", OF new(1) kernel_flags ready1]
    by (auto simp: Paging.refines_def map_spec_eq new(2) missing_root split: if_splits)
  have "space_step idle_env {0x7000} (four_frames, {}, {0x5000}) (s1, {0x7000}, {0x5000})"
    by (rule space_client [OF take_frame [OF get, of "{}"]])
  moreover have "space_step idle_env {0x7000} (s1, {0x7000}, {0x5000}) (s1, {0x7000} - {0x7000}, {0x7000, 0x5000})"
    using clear by (intro space_root) (simp_all add: no_entries_def)
  moreover have "space_step idle_env {0x7000} (s1, {}, {0x7000, 0x5000}) (s2, {}, {0x7000, 0x5000})"
    using s2(1) by (intro space_map [OF _ _ kernel_flags]) simp_all
  ultimately have run: "(space_step idle_env {0x7000})\<^sup>*\<^sup>* (four_frames, {}, {0x5000}) (s2, {}, {0x5000, 0x7000})"
    by (simp add: insert_commute)
  have dis: "disjoint_family_on (\<lambda>r. tables (rd64 (ram s2)) r) {0x5000, 0x7000}"
    and "\<forall>va. translate (ram s2) 0x5000 va = translate (ram four_frames) 0x5000 va"
    using spaces_stay_apart [OF root(1) ready rtranclp.rtrancl_refl run] by auto
  moreover have "page_path 0xffffffff80000123 = page_path ?va" "canonical 0xffffffff80000123"
    "PSE_PTR 0x9000 + EXTRACT_OFFSET 0xffffffff80000123 = 0x9123" "page_path ?va \<noteq> []"
    by (simp_all add: page_path_def canonical_def PSE_PTR_def EXTRACT_OFFSET_def EXTRACT_PML4_INDEX_def
        EXTRACT_PDPT_INDEX_def EXTRACT_PDT_INDEX_def EXTRACT_PT_INDEX_def)
  ultimately show ?thesis
    using run dis translate_view [OF s2(2)] translate_view [OF root(1)] root(2) map_spec_view(1) [OF length_page_path s2(4)] s2(3)
    by (intro exI [of _ s2]) (auto simp: disjoint_family_on_def)
qed

end
