(* ===== verification/Access_Rights.thy ===== *)
theory Access_Rights
  imports Page_Mapping
begin

section \<open>What user mode may access\<close>

text \<open>
  The rights that \<open>map_page_specific_pml4\<close> gives: of the flags it is called with, a page gets
  those that the tables already on the way to it grant, since only missing tables get the flags.
\<close>

lemma prefixes_levels: "length q = 4 \<Longrightarrow> p \<noteq> [] \<and> prefix p q \<longleftrightarrow> p = q \<or> p \<in> set (levels q)"
  by (erule path_cases) (auto simp: levels_def prefix_Cons)

lemma page_path_not_level: "page_path va \<notin> set (levels (page_path va))"
  by (simp add: levels_def page_path_def)

text \<open>The entry of a table on the way grants the flag, if there is one.\<close>

definition grants :: "(u64 \<Rightarrow> u64) \<Rightarrow> u64 \<Rightarrow> u64 \<Rightarrow> path \<Rightarrow> bool" where
  "grants w root flag p \<longleftrightarrow> view w root p = None \<or> entry_at w root p AND flag \<noteq> 0"

lemma mapped_rights:
  assumes s: "sets_entries flags {page_path va} root w w'" and v: "view w' root (page_path va) \<noteq> None"
    and n: "0 < n" "n < 12"
  shows "bit (walk_rights w' root (page_path va)) n \<longleftrightarrow> bit flags n \<and>
    (\<forall>p \<in> set (levels (page_path va)). view w root p = None \<or> bit (entry_at w root p) n)"
proof -
  let ?q = "page_path va"
  have "bit (entry_at w' root p) n \<longleftrightarrow> (if view w root p = None \<or> p = ?q then bit flags n else bit (entry_at w root p) n)"
    if "p \<noteq> []" "prefix p ?q" for p
    using s view_prefix [OF v that(2)] that(1) bit_flag_entry [OF n, of flags] by (auto simp: sets_entries_def)
  moreover have "walk w' root ?q \<noteq> None" using v by (auto simp: view_def split: if_splits)
  ultimately have "bit (walk_rights w' root ?q) n \<longleftrightarrow> (\<forall>p. p = ?q \<or> p \<in> set (levels ?q) \<longrightarrow>
      (if view w root p = None \<or> p = ?q then bit flags n else bit (entry_at w root p) n))"
    using bit_walk_rights [of n w' root ?q] n unfolding prefixes_levels [OF length_page_path, symmetric] by simp
  also have "\<dots> \<longleftrightarrow> bit flags n \<and> (\<forall>p \<in> set (levels ?q). view w root p = None \<or> bit (entry_at w root p) n)"
  proof -
    have "(if view w root p = None \<or> p = ?q then bit flags n else bit (entry_at w root p) n) \<longleftrightarrow>
        (if view w root p = None then bit flags n else bit (entry_at w root p) n)" if "p \<in> set (levels ?q)" for p
      using that page_path_not_level [of va] by auto
    then show ?thesis by auto
  qed
  finally show ?thesis .
qed

lemma other_rights:
  assumes s: "sets_entries flags {page_path va} root w w'" and q: "page_path va' \<noteq> page_path va"
    and v: "view w root (page_path va') \<noteq> None"
  shows "walk_rights w' root (page_path va') = walk_rights w root (page_path va')"
proof -
  let ?q = "page_path va'"
  have v': "view w' root ?q \<noteq> None" using sets_entries_view [OF s v] .
  have e: "entry_at w' root p = entry_at w root p" if p: "p \<noteq> []" "prefix p ?q" for p
  proof -
    have "p \<noteq> page_path va"
    proof
      assume "p = page_path va"
      then obtain r where r: "?q = page_path va @ r" using p(2) by (auto simp: prefix_def)
      have "r = []" using length_page_path [of va', unfolded r] by simp
      then show False using q r by simp
    qed
    then show ?thesis using s view_prefix [OF v p(2)] view_prefix [OF v' p(2)] p(1) by (auto simp: sets_entries_def)
  qed
  have "walk w root ?q \<noteq> None" "walk w' root ?q \<noteq> None" using v v' by (auto simp: view_def split: if_splits)
  then show ?thesis by (intro bit_word_eqI) (use e in \<open>simp add: bit_walk_rights\<close>)
qed

section \<open>Properties\<close>

text \<open>C19: what user mode may do. After a page was mapped, user mode can read it exactly if the
  user flag was given and every table that was already there on the way to it grants user
  access, and write to it exactly if the writeable flag was given and granted as well: the
  flags of existing tables are never widened. The access to every other page is as before.\<close>

theorem map_page_rights:
  assumes "paging_ok E s root fs" "entry_flags flags" "console_ready E s"
    and "map_page_specific_pml4 E root pa va flags s = Some (Ret () s')"
  shows "(\<forall>va'. canonical va' \<and> page_path va' = page_path va \<longrightarrow>
      (user_reads (ram s') root va' \<longleftrightarrow> flags AND PSE_USER_MODE \<noteq> 0 \<and>
        (\<forall>p \<in> set (levels (page_path va)). grants (rd64 (ram s)) root PSE_USER_MODE p)) \<and>
      (user_writes (ram s') root va' \<longleftrightarrow> user_reads (ram s') root va' \<and> flags AND PSE_WRITEABLE \<noteq> 0 \<and>
        (\<forall>p \<in> set (levels (page_path va)). grants (rd64 (ram s)) root PSE_WRITEABLE p))) \<and>
    (\<forall>va'. page_path va' \<noteq> page_path va \<longrightarrow>
      user_reads (ram s') root va' = user_reads (ram s) root va' \<and>
      user_writes (ram s') root va' = user_writes (ram s) root va')"
proof -
  let ?w = "rd64 (ram s)" and ?w' = "rd64 (ram s')"
  have root: "frame_addr root" using frame_ok_addr [OF paging_ok_root [OF assms(1)]] .
  obtain v' fs' where m: "map_spec (pt_view s root) fs (page_path va) (PSE_PTR pa) = Some (v', fs')"
      "paging_ok E s' root fs'" "pt_view s' root = v'" "sets_entries flags {page_path va} root ?w ?w'"
    using map_page_refines [OF assms(1-3), of va pa] assms(4) by (auto simp: refines_def split: option.splits)
  note spec = map_spec_view [OF length_page_path m(1), folded m(3)]
  have v: "view ?w' root (page_path va) \<noteq> None" using spec(1) by (simp add: pt_view_def)
  note sm = paging_ok_small [OF assms(1)] and sm' = paging_ok_small [OF m(2)]
  note r = mapped_rights [OF m(4) v] and t = translate_mapped [OF sm root] and t' = translate_mapped [OF sm' root]
  have here: "(user_reads (ram s') root va' \<longleftrightarrow> bit flags 2 \<and>
        (\<forall>p \<in> set (levels (page_path va)). view ?w root p = None \<or> bit (entry_at ?w root p) 2)) \<and>
      (user_writes (ram s') root va' \<longleftrightarrow> user_reads (ram s') root va' \<and> bit flags 1 \<and>
        (\<forall>p \<in> set (levels (page_path va)). view ?w root p = None \<or> bit (entry_at ?w root p) 1))"
    if "canonical va'" "page_path va' = page_path va" for va'
    using r [of 2] r [of 1] t' [of va'] v that
    by (simp add: user_reads_def user_writes_def flag_bits rights_view [OF sm' root])
  have there: "user_reads (ram s') root va' = user_reads (ram s) root va' \<and>
      user_writes (ram s') root va' = user_writes (ram s) root va'" if q: "page_path va' \<noteq> page_path va" for va'
  proof -
    have "view ?w' root (page_path va') = view ?w root (page_path va')"
      using spec(2) [OF length_page_path q] by (simp add: pt_view_def)
    then have "translate (ram s') root va' = translate (ram s) root va'"
      by (simp add: translate_small [OF sm root] translate_small [OF sm' root])
    moreover have "rights (ram s') root va' = rights (ram s) root va'" if "translate (ram s) root va' \<noteq> None"
      using other_rights [OF m(4) q] t [of va'] that \<open>view ?w' root (page_path va') = view ?w root (page_path va')\<close>
      by (simp add: rights_view [OF sm root] rights_view [OF sm' root])
    ultimately show ?thesis unfolding user_reads_def user_writes_def by metis
  qed
  show ?thesis using here there by (simp add: grants_def flag_bits)
qed

theorem map_page_rights_witness:
  "\<exists>s'. map_page_specific_pml4 idle_env 0x5000 0x9000 0xffffffff80000000 PSE_USER_MODE three_frames = Some (Ret () s') \<and>
     user_reads (ram s') 0x5000 0xffffffff80000123 \<and> \<not> user_writes (ram s') 0x5000 0xffffffff80000123"
proof -
  have fl: "entry_flags PSE_USER_MODE" by (simp add: entry_flags_def PSE_USER_MODE_def bit_iff_odd_drop_bit)
  obtain s' where s': "map_page_specific_pml4 idle_env 0x5000 0x9000 0xffffffff80000000 PSE_USER_MODE three_frames =
      Some (Ret () s')"
    using map_page_refines [where va = "0xffffffff80000000" and pa = "0x9000", OF three_frames_root(1) fl three_frames_ready]
    by (auto simp: refines_def map_spec_eq three_frames_root(2) missing_root split: if_splits)
  have p: "canonical 0xffffffff80000123" "page_path 0xffffffff80000123 = page_path 0xffffffff80000000"
    by (simp_all add: canonical_def page_path_def EXTRACT_PML4_INDEX_def EXTRACT_PDPT_INDEX_def
        EXTRACT_PDT_INDEX_def EXTRACT_PT_INDEX_def)
  have "grants (rd64 (ram three_frames)) 0x5000 PSE_USER_MODE p" if "p \<in> set (levels (page_path va))" for p va
    using that three_frames_root(2) by (auto simp: grants_def pt_view_def levels_def page_path_def)
  then show ?thesis
    using map_page_rights [OF three_frames_root(1) fl three_frames_ready s'] s' p
    by (auto simp: PSE_USER_MODE_def PSE_WRITEABLE_def)
qed

end
