(* ===== verification/Limine_Requests.thy ===== *)
theory Limine_Requests
  imports Machine
begin

section \<open>The requests to the boot loader (\<open>limine.h\<close>, \<open>mem.c\<close>, \<open>main.c\<close>)\<close>

text \<open>
  The kernel has four static objects that the boot loader looks for in the kernel's image. It
  knows a request by its \<open>id\<close>, four words of which the first two are the same in every
  request, and stores the address of its answer in the member \<open>response\<close>, which stays NULL
  when it has none. The fields \<open>memmap_response\<close> to \<open>module_response\<close> of \<open>env\<close> are what
  the kernel then finds there.
\<close>

record 'r limine_request =
  request_id :: "u64 list"
  request_revision :: u64
  request_response :: "'r option"

definition LIMINE_COMMON_MAGIC :: "u64 list" where
  "LIMINE_COMMON_MAGIC = [0xc7b1dd30df4c8b88, 0x0a82e883a194f07b]"

definition LIMINE_HHDM_REQUEST :: "u64 list" where
  "LIMINE_HHDM_REQUEST = LIMINE_COMMON_MAGIC @ [0x48dcf1cb8ad2b852, 0x63984e959a98244b]"
definition LIMINE_MEMMAP_REQUEST :: "u64 list" where
  "LIMINE_MEMMAP_REQUEST = LIMINE_COMMON_MAGIC @ [0x67cf3d9d378a806f, 0xe304acdfc50c3c62]"
definition LIMINE_MODULE_REQUEST :: "u64 list" where
  "LIMINE_MODULE_REQUEST = LIMINE_COMMON_MAGIC @ [0x3e7e279702be32af, 0xca1c4f3bd1280cee]"
definition LIMINE_KERNEL_ADDRESS_REQUEST :: "u64 list" where
  "LIMINE_KERNEL_ADDRESS_REQUEST = LIMINE_COMMON_MAGIC @ [0x71ba76863cc55f63, 0xb2644a48c516a487]"

definition memmap_request :: "limine_memmap_response limine_request" where
  "memmap_request = \<lparr>request_id = LIMINE_MEMMAP_REQUEST, request_revision = 0, request_response = None\<rparr>"
definition hhdm_request :: "limine_hhdm_response limine_request" where
  "hhdm_request = \<lparr>request_id = LIMINE_HHDM_REQUEST, request_revision = 0, request_response = None\<rparr>"
definition kernel_address_request :: "limine_kernel_address_response limine_request" where
  "kernel_address_request =
     \<lparr>request_id = LIMINE_KERNEL_ADDRESS_REQUEST, request_revision = 0, request_response = None\<rparr>"
definition mod_request :: "limine_module_response limine_request" where
  "mod_request = \<lparr>request_id = LIMINE_MODULE_REQUEST, request_revision = 0, request_response = None\<rparr>"

subsection \<open>What the boot loader does with them\<close>

text \<open>An answer to a request, and a loader that answers by the id alone.\<close>

datatype limine_answer = Memmap limine_memmap_response | Hhdm limine_hhdm_response
  | Kernel_Address limine_kernel_address_response | Modules limine_module_response

type_synonym limine_loader = "u64 list \<Rightarrow> limine_answer option"

definition answered :: "limine_loader \<Rightarrow> (limine_answer \<Rightarrow> 'r option) \<Rightarrow> 'r limine_request \<Rightarrow> 'r limine_request" where
  "answered loader pick req = req\<lparr>request_response := Option.bind (loader (request_id req)) pick\<rparr>"

definition finds_answers :: "env \<Rightarrow> limine_loader \<Rightarrow> bool" where
  "finds_answers E loader \<longleftrightarrow>
     memmap_response E = request_response (answered loader
       (\<lambda>a. case a of Memmap r \<Rightarrow> Some r | _ \<Rightarrow> None) memmap_request) \<and>
     hhdm_response E = request_response (answered loader
       (\<lambda>a. case a of Hhdm r \<Rightarrow> Some r | _ \<Rightarrow> None) hhdm_request) \<and>
     kernel_address_response E = request_response (answered loader
       (\<lambda>a. case a of Kernel_Address r \<Rightarrow> Some r | _ \<Rightarrow> None) kernel_address_request) \<and>
     module_response E = request_response (answered loader
       (\<lambda>a. case a of Modules r \<Rightarrow> Some r | _ \<Rightarrow> None) mod_request)"

lemma request_ids_distinct:
  "distinct [request_id memmap_request, request_id hhdm_request, request_id kernel_address_request, request_id mod_request]"
  by (simp add: memmap_request_def hhdm_request_def kernel_address_request_def mod_request_def
      LIMINE_HHDM_REQUEST_def LIMINE_MEMMAP_REQUEST_def LIMINE_MODULE_REQUEST_def LIMINE_KERNEL_ADDRESS_REQUEST_def)

text \<open>The requests can be told apart: every combination of answers, or of no answers, is what
  some loader gives. So \<open>env\<close> may leave the four responses independent of each other.\<close>

lemma any_answers:
  obtains loader where "finds_answers E loader"
proof -
  define loader where "loader = Map.empty
    (request_id memmap_request := map_option Memmap (memmap_response E),
     request_id hhdm_request := map_option Hhdm (hhdm_response E),
     request_id kernel_address_request := map_option Kernel_Address (kernel_address_response E),
     request_id mod_request := map_option Modules (module_response E))"
  have "finds_answers E loader"
    using request_ids_distinct
    by (auto simp: finds_answers_def answered_def loader_def Option.bind_map_option comp_def split: option.splits)
  then show ?thesis using that by blast
qed

end
