(* ===== verification/Serial_Input.thy ===== *)
theory Serial_Input
  imports Serial
begin

section \<open>Receiving over a serial port\<close>

text \<open>
  The specification of \<open>com_read\<close> and \<open>com_reads\<close>: which bytes a port delivers, and when. The
  step relation \<open>awaits\<close> is one blocking read, \<open>receives\<close> a sequence of them; both go from one
  trace of port accesses to the next. \<open>put_bytes\<close> is what \<open>com_reads\<close> does with the bytes: they
  go to consecutive addresses, as far as these are mapped. The boot loader's page tables
  are taken to be loaded, since the kernel's code does not read from a port after the switch.
\<close>

inductive awaits :: "env \<Rightarrow> com_port \<Rightarrow> io_event list \<Rightarrow> u8 \<Rightarrow> io_event list \<Rightarrow> bool" for E port where
  at_once: "line_stat E port t AND LINE_STAT_DR \<noteq> 0 \<Longrightarrow> b = port_value E (after_poll E port t) (io_port_base port) \<Longrightarrow>
    awaits E port t b (after_poll E port t @ [In (io_port_base port) b])"
| later: "line_stat E port t AND LINE_STAT_DR = 0 \<Longrightarrow> awaits E port (after_poll E port t) b t' \<Longrightarrow> awaits E port t b t'"

text \<open>A port that has not been found working is not read: \<open>com_read\<close> answers 0 at once.\<close>

definition reads_byte :: "env \<Rightarrow> com_port \<Rightarrow> io_event list \<Rightarrow> u8 \<Rightarrow> io_event list \<Rightarrow> bool" where
  "reads_byte E port t b t' \<longleftrightarrow>
     (if port_status port = COM_PORT_STATUS_READY then awaits E port t b t' else b = 0 \<and> t' = t)"

inductive receives :: "env \<Rightarrow> com_port \<Rightarrow> io_event list \<Rightarrow> u8 list \<Rightarrow> io_event list \<Rightarrow> bool" for E port where
  none: "receives E port t [] t"
| one_more: "reads_byte E port t b t' \<Longrightarrow> receives E port t' bs t'' \<Longrightarrow> receives E port t (b # bs) t''"

inductive_simps receives_nil: "receives E port t [] t'"
inductive_simps receives_cons: "receives E port t (b # bs) t'"

fun put_bytes :: "env \<Rightarrow> u64 \<Rightarrow> u8 list \<Rightarrow> ram \<Rightarrow> ram option" where
  "put_bytes E p [] m = Some m"
| "put_bytes E p (b # bs) m = (case boot_map E p of None \<Rightarrow> None | Some a \<Rightarrow> put_bytes E (p + 1) bs (m(a := b)))"

section \<open>One byte\<close>

lemma can_read_eq:
  "can_read E port s = Some (Ret (line_stat E port (io_trace s) AND LINE_STAT_DR \<noteq> 0)
     (s\<lparr>io_trace := after_poll E port (io_trace s)\<rparr>))"
  by (simp add: can_read_def inb_def after_poll_def line_stat_def Let_def kmon_simps)

lemma inb_eq: "inb E p s = Some (Ret (port_value E (io_trace s) p) (s\<lparr>io_trace := io_trace s @ [In p (port_value E (io_trace s) p)]\<rparr>))"
  by (simp add: inb_def Let_def)

lemma awaits_com_read:
  assumes "awaits E port (io_trace s) b t'" "port_status port = COM_PORT_STATUS_READY"
  shows "com_read E port s = Some (Ret b (s\<lparr>io_trace := t'\<rparr>))"
proof -
  have "andthen (poll (can_read E port)) (\<lambda>_. inb E (io_port_base port)) s = Some (Ret b (s\<lparr>io_trace := t'\<rparr>))"
    using assms(1)
  proof (induction "io_trace s" b t' arbitrary: s rule: awaits.induct)
    case (at_once b)
    then show ?case by (simp add: andthen_apply poll.simps [of _ s] can_read_eq inb_eq)
  next
    case (later b t')
    have "poll (can_read E port) s = poll (can_read E port) (s\<lparr>io_trace := after_poll E port (io_trace s)\<rparr>)"
      using later(1) by (simp add: poll.simps [of _ s] can_read_eq)
    then show ?case using later(3) [of "s\<lparr>io_trace := after_poll E port (io_trace s)\<rparr>"] by (simp add: andthen_apply)
  qed
  then show ?thesis using assms(2) by (simp add: com_read_def COM_PORT_OFFSET_DATA_def)
qed

text \<open>Conversely, polling that ends has ended as \<open>awaits\<close> says.\<close>

lemma poll_awaits:
  assumes "poll (can_read E port) s = Some r"
  shows "\<exists>b t'. awaits E port (io_trace s) b t'"
proof (rule ccontr)
  assume none: "\<nexists>b t'. awaits E port (io_trace s) b t'"
  have "\<not> line_stat E port ((after_poll E port ^^ n) t) AND LINE_STAT_DR \<noteq> 0 \<and>
      (\<nexists>b t'. awaits E port ((after_poll E port ^^ n) t) b t')" if "\<nexists>b t'. awaits E port t b t'" for n t
  proof (induction n)
    case 0
    then show ?case using that awaits.at_once [of E port t] by auto
  next
    case (Suc n)
    then have "\<nexists>b t'. awaits E port ((after_poll E port ^^ Suc n) t) b t'"
      using awaits.later [of E port "(after_poll E port ^^ n) t"] by auto
    then show ?case using awaits.at_once [of E port "(after_poll E port ^^ Suc n) t"] by (metis (full_types))
  qed
  then have "line_stat E port ((after_poll E port ^^ n) (io_trace s)) AND LINE_STAT_DR = 0" for n using none by blast
  then have "poll (can_read E port) s = None"
    by (intro poll_diverges [where b = "\<lambda>s. line_stat E port (io_trace s) AND LINE_STAT_DR \<noteq> 0"
          and f = "\<lambda>s. s\<lparr>io_trace := after_poll E port (io_trace s)\<rparr>"])
      (simp_all add: can_read_eq funpow_io_trace)
  then show False using assms by simp
qed

lemma com_read_eq:
  "com_read E port s = Some r \<longleftrightarrow> (\<exists>b t'. reads_byte E port (io_trace s) b t' \<and> r = Ret b (s\<lparr>io_trace := t'\<rparr>))"
proof (cases "port_status port = COM_PORT_STATUS_READY")
  case True
  have "\<exists>b t'. awaits E port (io_trace s) b t'" if "com_read E port s = Some r"
  proof (rule poll_awaits)
    show "poll (can_read E port) s = Some (the (poll (can_read E port) s))"
      using that True by (simp add: com_read_def andthen_apply split: option.splits)
  qed
  then show ?thesis using True awaits_com_read [of E port s] by (fastforce simp: reads_byte_def)
next
  case False
  then show ?thesis by (auto simp: com_read_def reads_byte_def kmon_simps)
qed

text \<open>A read has one result.\<close>

lemma reads_byte_fun: "reads_byte E port t b t' \<Longrightarrow> reads_byte E port t c u \<Longrightarrow> c = b \<and> u = t'"
proof -
  let ?s = "\<lparr>io_trace = t, ram = (\<lambda>_. 0), aspace = None\<rparr>"
  assume "reads_byte E port t b t'" "reads_byte E port t c u"
  then have "com_read E port ?s = Some (Ret b (?s\<lparr>io_trace := t'\<rparr>))" "com_read E port ?s = Some (Ret c (?s\<lparr>io_trace := u\<rparr>))"
    by (simp_all add: com_read_eq)
  then show ?thesis by simp
qed

section \<open>Until the delimiter\<close>

lemma store8_boot:
  "aspace s = None \<Longrightarrow> store8 E p v s = (case boot_map E p of
     None \<Rightarrow> Some (Stop (Page_Fault p) s) | Some a \<Rightarrow> Some (Ret () (s\<lparr>ram := (ram s)(a := v)\<rparr>)))"
  by (simp add: store8_def phys_addr_def)

text \<open>What the bytes before the delimiter do.\<close>

lemma com_reads_prefix:
  assumes "receives E port (io_trace s) bs t" "put_bytes E buff bs (ram s) = Some m" "delim \<notin> set bs" "aspace s = None"
  shows "com_reads E port buff delim s = com_reads E port (buff + of_nat (length bs)) delim (s\<lparr>io_trace := t, ram := m\<rparr>)"
  using assms
proof (induction bs arbitrary: s buff)
  case Nil
  then show ?case by (cases s) (auto simp: receives_nil)
next
  case (Cons b bs)
  then obtain t1 where t1: "reads_byte E port (io_trace s) b t1" "receives E port t1 bs t" by (auto simp: receives_cons)
  then have read: "com_read E port s = Some (Ret b (s\<lparr>io_trace := t1\<rparr>))" by (auto simp: com_read_eq)
  obtain a m1 where a: "boot_map E buff = Some a" "m1 = (ram s)(a := b)" "put_bytes E (buff + 1) bs m1 = Some m"
    using Cons.prems(2) by (auto split: option.splits)
  let ?s = "s\<lparr>io_trace := t1, ram := m1\<rparr>"
  have "com_reads E port buff delim s = com_reads E port (buff + 1) delim ?s"
    using Cons.prems(3,4) a(1,2) by (auto simp: com_reads.simps [of E port buff] read store8_boot)
  also have "\<dots> = com_reads E port (buff + 1 + of_nat (length bs)) delim (?s\<lparr>io_trace := t, ram := m\<rparr>)"
    using Cons.IH [of ?s "buff + 1"] Cons.prems(3,4) t1(2) a(3) by simp
  finally show ?case by (simp add: add.assoc)
qed

text \<open>How a call can end: the delimiter arrives, or a byte has no place.\<close>

definition delimited :: "env \<Rightarrow> com_port \<Rightarrow> u64 \<Rightarrow> u8 \<Rightarrow> 'z machine_scheme \<Rightarrow> u8 list \<Rightarrow> io_event list \<Rightarrow> ram \<Rightarrow> bool" where
  "delimited E port buff delim s bs t m \<longleftrightarrow>
     receives E port (io_trace s) (bs @ [delim]) t \<and> delim \<notin> set bs \<and> put_bytes E buff bs (ram s) = Some m"

definition overruns :: "env \<Rightarrow> com_port \<Rightarrow> u64 \<Rightarrow> u8 \<Rightarrow> 'z machine_scheme \<Rightarrow> u8 list \<Rightarrow> io_event list \<Rightarrow> ram \<Rightarrow> bool" where
  "overruns E port buff delim s bs t m \<longleftrightarrow> (\<exists>b. receives E port (io_trace s) (bs @ [b]) t \<and> delim \<notin> set (bs @ [b])) \<and>
     put_bytes E buff bs (ram s) = Some m \<and> boot_map E (buff + of_nat (length bs)) = None"

lemma receives_snoc:
  "receives E port t (bs @ [b]) t'' \<longleftrightarrow> (\<exists>t'. receives E port t bs t' \<and> reads_byte E port t' b t'')"
  by (induction bs arbitrary: t) (auto simp: receives_cons receives_nil)

lemma receives_dead:
  assumes "port_status port \<noteq> COM_PORT_STATUS_READY"
  shows "receives E port t bs t' \<Longrightarrow> b \<in> set bs \<Longrightarrow> b = 0"
  by (induction rule: receives.induct) (use assms in \<open>auto simp: reads_byte_def\<close>)

lemma com_reads_delimited:
  assumes "delimited E port buff delim s bs t m" "aspace s = None"
  shows "com_reads E port buff delim s = Some (Ret () (s\<lparr>io_trace := t, ram := m\<rparr>))"
proof -
  obtain t1 where t1: "receives E port (io_trace s) bs t1" "reads_byte E port t1 delim t"
    using assms(1) by (auto simp: delimited_def receives_snoc)
  have "com_read E port (s\<lparr>io_trace := t1, ram := m\<rparr>) = Some (Ret delim (s\<lparr>io_trace := t, ram := m\<rparr>))"
    using t1(2) by (cases s) (auto simp: com_read_eq)
  then have "com_reads E port p delim (s\<lparr>io_trace := t1, ram := m\<rparr>) = Some (Ret () (s\<lparr>io_trace := t, ram := m\<rparr>))" for p
    by (simp add: com_reads.simps [of E port p])
  then show ?thesis using com_reads_prefix [OF t1(1), of buff m delim] assms by (simp add: delimited_def)
qed

lemma com_reads_overruns:
  assumes "overruns E port buff delim s bs t m" "aspace s = None"
  shows "com_reads E port buff delim s = Some (Stop (Page_Fault (buff + of_nat (length bs))) (s\<lparr>io_trace := t, ram := m\<rparr>))"
proof -
  obtain t1 b where t1: "receives E port (io_trace s) bs t1" "reads_byte E port t1 b t" "b \<noteq> delim" "delim \<notin> set bs"
    using assms(1) by (auto simp: overruns_def receives_snoc)
  have "com_read E port (s\<lparr>io_trace := t1, ram := m\<rparr>) = Some (Ret b (s\<lparr>io_trace := t, ram := m\<rparr>))"
    using t1(2) by (cases s) (auto simp: com_read_eq)
  then have "com_reads E port p delim (s\<lparr>io_trace := t1, ram := m\<rparr>) = Some (Stop (Page_Fault p) (s\<lparr>io_trace := t, ram := m\<rparr>))"
    if "boot_map E p = None" for p
    using that t1(3) assms(2) by (simp add: com_reads.simps [of E port p] store8_boot)
  then show ?thesis using com_reads_prefix [OF t1(1), of buff m delim] assms t1(4) by (simp add: overruns_def)
qed

text \<open>A call that ends ends in one of these ways.\<close>

lemma com_reads_ends:
  assumes "com_reads E port buff delim s = Some r" "aspace s = None"
  shows "\<exists>bs t m. delimited E port buff delim s bs t m \<or> overruns E port buff delim s bs t m"
proof -
  have "aspace s = None \<longrightarrow> (\<exists>bs t m. delimited E port buff delim s bs t m \<or> overruns E port buff delim s bs t m)"
  proof (rule com_reads.raw_induct [where P = "\<lambda>E port buff delim s r. aspace s = None \<longrightarrow>
        (\<exists>bs t m. delimited E port buff delim s bs t m \<or> overruns E port buff delim s bs t m)", OF _ assms(1)], intro impI)
    fix p E port buff delim s r
    assume IH: "\<And>E port buff delim s r. p E port buff delim s = Some r \<Longrightarrow> aspace s = None \<longrightarrow>
        (\<exists>bs t m. delimited E port buff delim s bs t m \<or> overruns E port buff delim s bs t m)"
      and eq: "Option.bind (com_read E port s) (\<lambda>r. case r of
            Ret c s1 \<Rightarrow> if c = delim then Some (Ret () s1) else Option.bind (store8 E buff c s1) (\<lambda>r1. case r1 of
              Ret _ s2 \<Rightarrow> p E port (buff + 1) delim s2 | Stop h s2 \<Rightarrow> Some (Stop h s2))
          | Stop h s1 \<Rightarrow> Some (Stop h s1)) = Some r" and boot: "aspace s = None"
    obtain b t1 where t1: "reads_byte E port (io_trace s) b t1" "com_read E port s = Some (Ret b (s\<lparr>io_trace := t1\<rparr>))"
      using eq by (cases "com_read E port s") (auto simp: com_read_eq)
    consider "b = delim" | "b \<noteq> delim" "boot_map E buff = None" | a where "b \<noteq> delim" "boot_map E buff = Some a" by blast
    then show "\<exists>bs t m. delimited E port buff delim s bs t m \<or> overruns E port buff delim s bs t m"
    proof cases
      case 1
      then have "delimited E port buff delim s [] t1 (ram s)"
        using t1(1) by (auto simp: delimited_def receives_cons receives_nil)
      then show ?thesis by blast
    next
      case 2
      then have "overruns E port buff delim s [] t1 (ram s)"
        using t1(1) by (auto simp: overruns_def receives_cons receives_nil)
      then show ?thesis by blast
    next
      case 3
      let ?s = "s\<lparr>io_trace := t1, ram := (ram s)(a := b)\<rparr>"
      have "p E port (buff + 1) delim ?s = Some r" using eq 3 boot by (simp add: t1(2) store8_boot)
      from IH [OF this] obtain bs t m where
        "delimited E port (buff + 1) delim ?s bs t m \<or> overruns E port (buff + 1) delim ?s bs t m" using boot by auto
      then have "delimited E port buff delim s (b # bs) t m \<or> overruns E port buff delim s (b # bs) t m"
        using t1(1) 3 by (auto simp: delimited_def overruns_def receives_cons add.assoc)
      then show ?thesis by blast
    qed
  qed
  then show ?thesis using assms(2) by blast
qed

section \<open>Properties\<close>

text \<open>C38: receiving a line. With the boot loader's page tables, \<open>com_reads\<close> returns if the
  delimiter arrives: the bytes before it are then at consecutive addresses from the buffer's
  on, the delimiter is consumed and not stored, and nothing else has changed. No length stops
  it: it writes as many bytes as come, and if one has no mapped address the call ends in a
  page fault there. In every other case it never returns; in particular it does not on a
  port that was not found working, unless the delimiter is 0: it then writes zeros to
  every address from the buffer's on.\<close>

theorem com_reads_receives:
  assumes "aspace s = None"
  shows "(\<forall>bs t m. delimited E port buff delim s bs t m \<longrightarrow>
      com_reads E port buff delim s = Some (Ret () (s\<lparr>io_trace := t, ram := m\<rparr>))) \<and>
    (\<forall>bs t m. overruns E port buff delim s bs t m \<longrightarrow>
      com_reads E port buff delim s = Some (Stop (Page_Fault (buff + of_nat (length bs))) (s\<lparr>io_trace := t, ram := m\<rparr>))) \<and>
    ((\<exists>bs t m. delimited E port buff delim s bs t m \<or> overruns E port buff delim s bs t m) \<or>
      com_reads E port buff delim s = None) \<and>
    (port_status port \<noteq> COM_PORT_STATUS_READY \<longrightarrow>
      (if delim = 0 then com_reads E port buff delim s = Some (Ret () s)
       else (\<forall>p. boot_map E p \<noteq> None) \<longrightarrow> com_reads E port buff delim s = None))"
proof (intro conjI impI allI)
  fix bs t m
  show "com_reads E port buff delim s = Some (Ret () (s\<lparr>io_trace := t, ram := m\<rparr>))"
    if "delimited E port buff delim s bs t m" using com_reads_delimited [OF that assms] .
  show "com_reads E port buff delim s = Some (Stop (Page_Fault (buff + of_nat (length bs))) (s\<lparr>io_trace := t, ram := m\<rparr>))"
    if "overruns E port buff delim s bs t m" using com_reads_overruns [OF that assms] .
next
  show ends: "(\<exists>bs t m. delimited E port buff delim s bs t m \<or> overruns E port buff delim s bs t m) \<or>
      com_reads E port buff delim s = None"
    using com_reads_ends [of E port buff delim s] assms by fastforce
  assume dead: "port_status port \<noteq> COM_PORT_STATUS_READY"
  show "if delim = 0 then com_reads E port buff delim s = Some (Ret () s)
       else (\<forall>p. boot_map E p \<noteq> None) \<longrightarrow> com_reads E port buff delim s = None"
  proof (cases "delim = 0")
    case True
    then have "delimited E port buff delim s [] (io_trace s) (ram s)"
      using dead by (simp add: delimited_def receives_cons receives_nil reads_byte_def)
    from com_reads_delimited [OF this assms] True show ?thesis by simp
  next
    case False
    then have "\<not> delimited E port buff delim s bs t m" for bs t m
      using receives_dead [OF dead, of E "io_trace s" "bs @ [delim]" t delim] by (auto simp: delimited_def)
    moreover have "\<not> overruns E port buff delim s bs t m" if "\<forall>p. boot_map E p \<noteq> None" for bs t m
      using that by (simp add: overruns_def)
    ultimately show ?thesis using False ends by auto
  qed
qed

subsection \<open>Witness\<close>

text \<open>A device that delivers a carriage return after each letter, and one mapped page.\<close>

definition line_env :: env where
  "line_env = idle_env\<lparr>port_value := (\<lambda>t p. if p = 0x3f8 then (if length t = 1 then 65 else 13) else 1),
     boot_map := (\<lambda>p. if p < 0x2000 then Some p else None)\<rparr>"

theorem com_reads_receives_witness:
  "com_reads line_env \<lparr>io_port_base = 0x3f8, port_status = COM_PORT_STATUS_READY\<rparr> 0x1000 13
     \<lparr>io_trace = [], ram = (\<lambda>_. 0), aspace = None\<rparr> =
   Some (Ret () \<lparr>io_trace = [In 0x3fd 1, In 0x3f8 65, In 0x3fd 1, In 0x3f8 13], ram = (\<lambda>_. 0)(0x1000 := 65), aspace = None\<rparr>)"
proof -
  let ?p = "\<lparr>io_port_base = 0x3f8, port_status = COM_PORT_STATUS_READY\<rparr>" and ?s = "\<lparr>io_trace = [], ram = (\<lambda>_. 0), aspace = None\<rparr>"
  have stat: "line_stat line_env ?p t = 1" "after_poll line_env ?p t = t @ [In 0x3fd 1]" for t
    by (simp_all add: after_poll_def line_stat_def line_env_def com_port_offsets)
  have "awaits line_env ?p [] 65 [In 0x3fd 1, In 0x3f8 65]"
    using awaits.at_once [of line_env ?p "[]" 65] by (simp add: stat LINE_STAT_DR_def) (simp add: line_env_def)
  moreover have "awaits line_env ?p [In 0x3fd 1, In 0x3f8 65] 13 [In 0x3fd 1, In 0x3f8 65, In 0x3fd 1, In 0x3f8 13]"
    using awaits.at_once [of line_env ?p "[In 0x3fd 1, In 0x3f8 65]" 13] by (simp add: stat LINE_STAT_DR_def) (simp add: line_env_def)
  ultimately have "delimited line_env ?p 0x1000 13 ?s [65] [In 0x3fd 1, In 0x3f8 65, In 0x3fd 1, In 0x3f8 13]
      ((\<lambda>_. 0)(0x1000 := 65))"
    by (auto simp: delimited_def receives_cons receives_nil reads_byte_def) (auto simp: line_env_def)
  then show ?thesis using com_reads_receives [of ?s line_env ?p "0x1000" 13] by auto
qed

end
