(* ===== verification/Spec2Isabelle.thy ===== *)
theory Spec2Isabelle
  imports Module_Placement Double_Put Frame_Roles Access_Rights Limine_Requests Serial_Input
begin

text \<open>
  \<^bold>\<open>The Flux kernel.\<close>

  Flux is a small x86-64 kernel, loaded by the Limine boot loader. This development models
  its C code under \<open>src/kernel\<close> from the entry point \<open>_start\<close> down to the port
  instructions and the single page-table entry, and proves what each component promises and
  what the boot as a whole does.

  \<^bold>\<open>The parts and how they call each other.\<close> \<open>_start\<close> (\<open>main.c\<close>) brings up, in
  this order: the serial ports (\<open>arch/x64/serial.c\<close>), over which everything is printed
  (\<open>generic/printk.c\<close>, \<open>generic/debug.h\<close>); physical memory and the kernel's page tables
  (\<open>arch/x64/mem.c\<close>, which uses \<open>arch/x64/paging.c\<close>); paging, which loads CR3; the
  segment table (\<open>gdt.c\<close>, \<open>gdt-helpers.asm\<close>); the interrupt table and its service routines
  (\<open>idt.c\<close>, \<open>exceptions.c\<close>, \<open>syscall.c\<close>); the scheduler
  (\<open>generic/scheduler.c\<close>), whose \<open>new_task\<close> calls \<open>init_task_space_from_mem\<close>
  (\<open>arch/x64/proc.c\<close>). Then it starts the modules the boot loader loaded.

  \<^bold>\<open>How code becomes definitions.\<close> A C function is a definition of the same name (a suffix
  or prefix where Isabelle has the name: \<open>start\<close> for \<open>_start\<close>, \<open>main_done\<close> and
  \<open>main_loop\<close> for \<open>done\<close> and \<open>loop\<close>), of type
  \<open>('a, 's) kmon\<close>: from a state to \<open>Some (Ret a s)\<close>, it returns; \<open>Some (Stop h s)\<close>,
  it never returns, with the reason \<open>h\<close> (a hang, a halt, a page fault, leaving for user mode,
  behaviour C does not define); or \<open>None\<close>, it polls a device for ever. C integers are
  words of their width, a pointer is its 64-bit value or, where the code only has one array of
  the objects, an index; a \<open>struct\<close> is a record. What is fixed during a run (the boot
  loader's answers, the addresses the linker chooses, the devices) is the record \<open>env\<close>, the
  first argument \<open>E\<close>. The state is a chain of records, one per component, each extending the
  one it calls: \<open>machine\<close> (I/O trace, physical memory, loaded page-table root), \<open>serial_state\<close>,
  \<open>pmem_state\<close>, \<open>paging_state\<close>, \<open>gdt_state\<close>, \<open>idt_state\<close>, \<open>scheduler_state\<close>;
  an operation is polymorphic in what extends its own record, so its lemmas apply in every
  later component unchanged.

  \<^bold>\<open>The theories\<close>, in import order:

  \<^item> \<open>Flux_Prelude\<close>: the word types, the monad and its evaluation rules \<open>kmon_simps\<close>, the
    loop shapes (\<open>for_each\<close>, \<open>for_step\<close>, \<open>poll\<close>), facts about bits and lists.
  \<^item> \<open>Config\<close> (\<open>config.h\<close>): the switches of the preprocessor. Code under \<open>#ifdef\<close> is modelled
    under the switch, with the value this configuration gives it.
  \<^item> \<open>Byte_Memory\<close>: physical memory byte by byte, \<open>uint64_t\<close> accesses, tables of 512
    slots. Locale \<open>aligned_store\<close>: the two laws of a store of aligned words.
  \<^item> \<open>Structures\<close> (\<open>structures.h\<close>): the bit layouts; what a macro packs is read back.
  \<^item> \<open>Machine\<close> (\<open>io.h\<close>, \<open>limine.h\<close>): ports, the processor's page walk (\<open>page_walk\<close>,
    large pages and access rights included), accesses through pointers.
  \<^item> \<open>Limine_Requests\<close> (\<open>limine.h\<close>): the requests by which the kernel asks the boot loader.
  \<^item> \<open>Serial\<close> (\<open>serial.h\<close>, \<open>serial.c\<close>): one port, programmed and sending.
    \<open>Serial_Input\<close>: receiving, as the relations \<open>awaits\<close> and \<open>receives\<close> on the bytes a port
    delivers. \<open>Serial_Console\<close>: \<open>serial_init\<close>.
  \<^item> \<open>Printk\<close> (\<open>printk.c\<close>, \<open>debug.h\<close>): the printing functions, the text \<open>render\<close>
    they print. Locale \<open>char_sink\<close>: what a character output promises and what any program
    that only outputs characters then does.
  \<^item> \<open>Pmem\<close> (\<open>mem.c\<close>): the free list. Locale \<open>frame_pool\<close>: the allocator as a list of
    frames. \<open>Double_Put\<close>: what becomes of the list when a free frame is given back, the ring
    that \<open>frame_pool\<close> excludes by its law on \<open>put\<close>.
  \<^item> \<open>Page_Tables\<close>: trees of tables as partial functions of paths, the flags of their
    entries, and that without large pages (\<open>small\<close>) the processor follows the same paths as the code. \<open>Paging\<close> (\<open>paging.c\<close>): the operations and their refinement of
    \<open>map_spec\<close>. \<open>Page_Mapping\<close>: \<open>map_spec\<close> in closed form. Locale \<open>refining_loop\<close>: from one refining step to a loop of
    them, used for single mappings, kernel pages, memory-map entries and task pages.
  \<^item> \<open>Frame_Roles\<close>: allocation, new address spaces and mapping interleaved, as the step
    relation \<open>space_step\<close>. Locale \<open>space_pool\<close>, which extends \<open>frame_pool\<close>: spaces beside an
    allocator.
    \<open>Access_Rights\<close>: what user mode may do with a mapped page.
  \<^item> \<open>Kernel_Map\<close> (\<open>setup_kernel_map\<close>, \<open>mem_init\<close> of \<open>mem.c\<close>) and \<open>Address_Space\<close>:
    the kernel's address space, as the code builds it and, address by address, as the function
    \<open>kernel_map\<close> of the boot loader's answers.
  \<^item> \<open>Gdt\<close>, \<open>Interrupts\<close> (with \<open>exceptions.c\<close>, \<open>syscall.c\<close>): the two tables, their
    loading and the service routines. \<open>Delivery\<close>: the processor's documented rules, one
    attempt to deliver (\<open>deliver\<close>) and the attempts that follow when one fails
    (\<open>ends_in\<close>), which every vector goes through in exactly one way.
  \<^item> \<open>Proc\<close> (\<open>proc.h\<close>, \<open>proc.c\<close>), \<open>Scheduler\<close> (\<open>scheduler.h\<close>, \<open>scheduler.c\<close>,
    \<open>ipc.h\<close>), \<open>Boot\<close> (\<open>main.c\<close>). \<open>Low_Memory\<close>: the boot when
    the kernel's page tables do not fit or leave no frame, and how many there are.
    \<open>Module_Placement\<close>: modules at addresses that the kernel map does not foresee.

  \<^bold>\<open>What is shown.\<close> Printing: each printing function sends exactly the text of its
  specification, for every format and argument list the code handles. Serial: a port is
  programmed, tested by its loopback and used as documented; the first working port becomes the
  console; reading a line stores what arrives before the delimiter, however long it is.
  Allocation: the free list refines a list of frames, no frame is handed out twice,
  frames keep their roles and address spaces stay apart under any interleaving of allocation
  and mapping. Paging: \<open>map_page_specific_pml4\<close> makes the page translate to the frame, changes no other
  translation of this or of a disjoint tree, and takes a table from the allocator for each
  missing level only; the access rights a page gets are stated exactly. Memory: \<open>mem_init\<close>
  builds the address space that \<open>kernel_map\<close> specifies for any answers of the boot loader, the last
  mapping of a page winning, and the switch makes exactly its addresses accessible, to user mode
  too. Under \<open>well_placed\<close> or \<open>upper_half_only\<close>, conditions on the answers and not
  assumptions, things are where the code means to put them and the lower half is empty; what
  happens to a module outside these conditions is shown as well. Interrupts: whatever is raised inside the kernel
  reaches a routine, which reports it and hangs; what is raised in user mode shuts the processor
  down, unless the boot loader left a stack for the kernel. Processes and tasks: the address
  space a task gets, for any offset, and its rights there, the task table, one call after the other until it is full.
  Boot: the whole run of \<open>_start\<close>, up to the page fault that ends it or, with little memory, the
  allocator's failed assertion, each with the text it leaves on the console; or, with a module
  mapped where the allocator looks, up to the second allocation. The loop over the modules is also
  treated on its own, from a state before the switch, which \<open>_start\<close> does not reach; these two
  theorems are not properties of the boot.

  \<^bold>\<open>Hypotheses.\<close> They state documented behaviour of what is outside \<open>src\<close>:
  \<open>memory_map_ok\<close> and \<open>entries_fit\<close> (usable entries of Limine's memory map are page aligned and do
  not overlap, and no entry reaches the end of the 64-bit numbers; nothing is assumed of the
  alignment and the place of kernel and module entries), the identity map of the boot loader's page tables
  (\<open>frame_ok\<close>, \<open>cell\<close>), \<open>sends_eventually\<close>, \<open>console_ready\<close> and \<open>echoes\<close> (a device that
  becomes ready, that returns the test byte). \<open>clean_frame\<close> is not documented by anyone: it
  says that the frame which becomes a top-level table happens to hold no present entries, which the
  code does not establish; a step of \<open>space_step\<close> that makes a new space asks for the same. Nor is \<open>image_kept\<close>: it is the
  condition under which the code still runs after the switch as the model has it, and holds unless
  something that is listed later is mapped over the kernel's image (see \<open>Module_Placement\<close>).
  \<open>entry_flags\<close> are flags below the address bits that do not make a large page, as all the
  kernel's are. Each hypothesis is shown to hold for a concrete machine by a witness.

  \<^bold>\<open>Loops and bounds.\<close> Loops over arrays are structural recursion. Those that need not
  end, polling a port, stepping an unsigned counter and reading up to a delimiter, are
  \<open>partial_function (option)\<close>, and the properties on sending, on receiving and on the loops over memory
  say when they return; there is no fuel. \<open>unat (memmap_length e) + 4096 \<le> 2 ^ 64\<close> keeps the counter of an entry from
  wrapping, \<open>length (usable_frames mm) < 2 ^ 31\<close> the result of \<open>find_free_frames\<close>, an
  \<open>int\<close>, from being cut.

  \<^bold>\<open>Not modelled.\<close> The declarations of \<open>limine.h\<close> for features the kernel does not
  ask for; the documented system calls of \<open>docs/syscall.md\<close> and \<open>generic/syscall.h\<close>, which
  have no code; \<open>copy_task\<close>, which is declared only; build
  files, linker script and test module. The kernel's own globals are fields of the state and
  are not read through the page tables, and neither are its code and stack; the theorems on the
  code that runs after the switch ask for \<open>image_kept\<close>, that the image is mapped where it was linked.
  The \<open>iretq\<close> that enters a module checks its address but not the selectors, which name the user's
  segments of the loaded table. An argument of \<open>printk\<close> narrower than 64 bits, which C leaves
  undefined under \<open>va_arg(uint64_t)\<close>, is taken as zero extended, as the calling convention has it
  in practice. What user code
  does is not the kernel's: a run ends when it is entered.
\<close>

end
